(* ===== verification/Prelude.thy ===== *)
theory Prelude
  imports Main "HOL-Library.Multiset"
begin

section \<open>Prelude: Go errors, results, loops\<close>

text \<open>
  What every component shares: Go's \<open>error\<close> values and the \<open>(value, error)\<close> convention as a sum
  type, panics as an outcome, the decimal rendering of \<open>%d\<close>, and the loop shapes the code uses
  (a loop that returns at the first error, a loop that collects with \<open>continue\<close>), each with the
  lemmas the component proofs rest on.
\<close>

named_theorems go_defs \<comment> \<open>definitions that the proofs of several components unfold\<close>
named_theorems branch_simps \<comment> \<open>the result of an operation on each of its branches\<close>

subsection \<open>Errors\<close>

text \<open>
  A Go error is a message (\<open>errors.New\<close>, \<open>fmt.Errorf\<close> without \<open>%w\<close>, or an error of a library, known
  by its text) or a wrapped error: \<open>fmt.Errorf("pre%wpost", err)\<close> is \<open>ErrWrap pre err post\<close>.
\<close>

datatype goerr =
    ErrMsg string
  | ErrWrap string goerr string

fun err_text :: "goerr \<Rightarrow> string" where
  "err_text (ErrMsg m) = m"
| "err_text (ErrWrap pre e post) = pre @ err_text e @ post"

text \<open>\<open>errors.Is\<close>: the target is somewhere in the chain of wrapped errors.\<close>

fun errors_is :: "goerr \<Rightarrow> goerr \<Rightarrow> bool" where
  "errors_is (ErrMsg m) t = (ErrMsg m = t)"
| "errors_is (ErrWrap pre e post) t = (ErrWrap pre e post = t \<or> errors_is e t)"

lemma errors_is_refl [simp]: "errors_is e e"
  by (cases e) auto

type_synonym 'a res = "goerr + 'a"

text \<open>A call that may panic instead of returning.\<close>

datatype 'a outcome = Panic | Return 'a

fun outcome_result :: "'a outcome \<Rightarrow> 'a option" where
  "outcome_result Panic = None"
| "outcome_result (Return x) = Some x"

subsection \<open>Decimal rendering\<close>

fun show_nat :: "nat \<Rightarrow> string" where
  "show_nat n =
     (if n < 10 then [char_of (48 + n)] else show_nat (n div 10) @ [char_of (48 + n mod 10)])"

declare show_nat.simps [simp del]

definition show_int :: "int \<Rightarrow> string" where
  "show_int i = (if i < 0 then ''-'' @ show_nat (nat (- i)) else show_nat (nat i))"

lemma show_nat_nonempty [simp]: "show_nat n \<noteq> []"
  by (subst show_nat.simps) simp

lemma show_nat_0 [simp]: "show_nat 0 = ''0''"
  by (subst show_nat.simps) (simp add: char_of_def bit_0)

subsection \<open>A loop that returns at the first error\<close>

text \<open>\<open>for _, x := range xs { y, err := f(x); if err != nil { return nil, err }; ys = append(ys, y) }\<close>\<close>

fun traverse :: "('a \<Rightarrow> 'e + 'b) \<Rightarrow> 'a list \<Rightarrow> 'e + 'b list" where
  "traverse f [] = Inr []"
| "traverse f (x # xs) =
     (case f x of
        Inl e \<Rightarrow> Inl e
      | Inr y \<Rightarrow> (case traverse f xs of Inl e \<Rightarrow> Inl e | Inr ys \<Rightarrow> Inr (y # ys)))"

lemma traverse_Inr_iff:
  "traverse f xs = Inr ys \<longleftrightarrow> list_all2 (\<lambda>x y. f x = Inr y) xs ys"
proof (induction xs arbitrary: ys)
  case Nil
  then show ?case by auto
next
  case (Cons x xs)
  then show ?case
    by (cases ys) (auto split: sum.splits simp flip: Cons.IH)
qed

lemma traverse_length: "traverse f xs = Inr ys \<Longrightarrow> length ys = length xs"
  by (auto simp: traverse_Inr_iff dest: list_all2_lengthD)

lemma traverse_nth:
  assumes "traverse f xs = Inr ys" "i < length xs"
  shows "f (xs ! i) = Inr (ys ! i)"
  using assms by (auto simp: traverse_Inr_iff list_all2_conv_all_nth)

text \<open>The error is the one of the first element that fails.\<close>

lemma traverse_Inl_iff:
  "traverse f xs = Inl e \<longleftrightarrow>
     (\<exists>i < length xs. f (xs ! i) = Inl e \<and> (\<forall>j < i. \<exists>y. f (xs ! j) = Inr y))"
proof (induction xs)
  case Nil
  then show ?case by simp
next
  case (Cons x xs)
  let ?first = "\<lambda>i. f ((x # xs) ! i) = Inl e \<and> (\<forall>j < i. \<exists>y. f ((x # xs) ! j) = Inr y)"
  have split: "(\<exists>i < length (x # xs). ?first i) \<longleftrightarrow> ?first 0 \<or> (\<exists>i < length xs. ?first (Suc i))"
    by (simp only: length_Cons Ex_less_Suc2)
  show ?case
  proof (cases "f x")
    case (Inl e')
    then show ?thesis unfolding split by (simp add: All_less_Suc2)
  next
    case (Inr y)
    then have "traverse f (x # xs) = Inl e \<longleftrightarrow> traverse f xs = Inl e"
      by (auto split: sum.splits)
    with Inr show ?thesis unfolding split Cons.IH by (simp add: All_less_Suc2)
  qed
qed

lemma traverse_cong_set:
  "(\<And>x. x \<in> set xs \<Longrightarrow> f x = g x) \<Longrightarrow> traverse f xs = traverse g xs"
  by (induction xs) (auto split: sum.splits)

subsection \<open>A loop that threads a state and collects\<close>

text \<open>
  The body gets the element and the state, and gives the new state and what it appends (\<open>None\<close> is a
  \<open>continue\<close>).
\<close>

fun collect :: "('a \<Rightarrow> 's \<Rightarrow> 'b option \<times> 's) \<Rightarrow> 'a list \<Rightarrow> 's \<Rightarrow> 'b list \<times> 's" where
  "collect f [] s = ([], s)"
| "collect f (x # xs) s =
     (let (r, s1) = f x s; (rs, s2) = collect f xs s1
      in ((case r of None \<Rightarrow> rs | Some y \<Rightarrow> y # rs), s2))"

lemma collect_invariant:
  assumes "\<And>x s. x \<in> set xs \<Longrightarrow> I s \<Longrightarrow> I (snd (f x s))" "I s"
  shows "I (snd (collect f xs s))"
  using assms
proof (induction xs arbitrary: s)
  case Nil
  then show ?case by simp
next
  case (Cons x xs)
  obtain r s1 where f: "f x s = (r, s1)" by force
  with Cons.prems have "I s1" by (metis list.set_intros(1) snd_conv)
  then have "I (snd (collect f xs s1))"
    using Cons.IH Cons.prems(1) by simp
  with f show ?case by (simp add: split_beta Let_def)
qed

text \<open>Every collected item comes from one element, run in a state that satisfies the invariant.\<close>

lemma collect_mem:
  assumes "y \<in> set (fst (collect f xs s))"
    and "\<And>x s. x \<in> set xs \<Longrightarrow> I s \<Longrightarrow> I (snd (f x s))" and "I s"
  shows "\<exists>x \<in> set xs. \<exists>s'. I s' \<and> fst (f x s') = Some y"
  using assms
proof (induction xs arbitrary: s)
  case Nil
  then show ?case by simp
next
  case (Cons x xs)
  obtain r s1 where f: "f x s = (r, s1)" by force
  from f Cons.prems have I1: "I s1" by (metis list.set_intros(1) snd_conv)
  show ?case
  proof (cases "r = Some y")
    case True
    with f Cons.prems(3) show ?thesis by (metis fst_conv list.set_intros(1))
  next
    case False
    with f Cons.prems(1) have "y \<in> set (fst (collect f xs s1))"
      by (auto simp: split_beta Let_def split: option.splits)
    with Cons.IH I1 Cons.prems(2) show ?thesis by (meson list.set_intros(2))
  qed
qed

lemma collect_length: "length (fst (collect f xs s)) \<le> length xs"
proof (induction xs arbitrary: s)
  case Nil
  then show ?case by simp
next
  case (Cons x xs)
  have "length (fst (collect f xs (snd (f x s)))) \<le> length xs" by (rule Cons.IH)
  then show ?case
    by (simp add: split_beta Let_def split: option.split)
qed

text \<open>Where what is collected does not depend on the state, the loop is a filtering map.\<close>

lemma collect_pure:
  assumes "\<And>x s. x \<in> set xs \<Longrightarrow> I s \<Longrightarrow> fst (f x s) = g x \<and> I (snd (f x s))" "I s"
  shows "fst (collect f xs s) = List.map_filter g xs"
  using assms
proof (induction xs arbitrary: s)
  case Nil
  then show ?case by (simp add: map_filter_simps)
next
  case (Cons x xs)
  obtain r s1 where f: "f x s = (r, s1)" by force
  with Cons.prems have "r = g x" "I s1"
    by (metis fst_conv list.set_intros(1)) (metis Cons.prems f list.set_intros(1) snd_conv)
  moreover from this have "fst (collect f xs s1) = List.map_filter g xs"
    using Cons.IH Cons.prems(1) by simp
  ultimately show ?case
    using f by (simp add: split_beta Let_def map_filter_simps split: option.splits)
qed

text \<open>Two runs from related states, with bodies that agree on what they collect.\<close>

lemma collect_rel:
  assumes "\<And>x s t. x \<in> set xs \<Longrightarrow> R s t \<Longrightarrow> fst (f x s) = fst (g x t) \<and> R (snd (f x s)) (snd (g x t))" "R s t"
  shows "fst (collect f xs s) = fst (collect g xs t) \<and> R (snd (collect f xs s)) (snd (collect g xs t))"
  using assms
proof (induction xs arbitrary: s t)
  case Nil
  then show ?case by simp
next
  case (Cons x xs)
  have "fst (f x s) = fst (g x t) \<and> R (snd (f x s)) (snd (g x t))" by (rule Cons.prems) (use Cons.prems in simp_all)
  with Cons.IH [of "snd (f x s)" "snd (g x t)"] Cons.prems(1) show ?case
    by (simp add: Let_def split_beta split: option.split)
qed

lemma length_concat_le:
  "(\<And>x. x \<in> set xs \<Longrightarrow> length x \<le> n) \<Longrightarrow> length (concat xs) \<le> length xs * n"
  by (induction xs) (auto simp: add_mono)

subsection \<open>Maps\<close>

text \<open>\<open>maps.Copy(dst, src)\<close>: the entries of \<open>src\<close> overwrite those of \<open>dst\<close>.\<close>

definition maps_copy :: "('k \<rightharpoonup> 'v) \<Rightarrow> ('k \<rightharpoonup> 'v) \<Rightarrow> ('k \<rightharpoonup> 'v)" where
  "maps_copy dst src = dst ++ src"

lemma maps_copy_empty [simp]: "maps_copy Map.empty m = m"
  by (simp add: maps_copy_def)

end
