(* ===== verification/Api_Types.thy ===== *)
theory Api_Types
  imports Prelude "HOL-Library.Word"
begin

section \<open>API types\<close>

text \<open>
  The data of \<^verbatim>\<open>api/v1beta1\<close>: chalk reports (\<^verbatim>\<open>chalk/report.go\<close>) and the custom resource
  \<open>ChalkReportPolicy\<close> (\<^verbatim>\<open>chalkreportpolicy_types.go\<close>), with the fields of the Ocular and Kubernetes
  types that the code reads or writes. Those types live outside the repository: what the code only
  copies (the other fields of a pipeline specification) is the type parameter \<open>'x\<close>. A CEL value
  (\<open>ref.Val\<close>) is the type parameter \<open>'v\<close>.
\<close>

subsection \<open>Dynamic values and reports\<close>

text \<open>
  A Go value of type \<open>any\<close>, by its dynamic type. A \<open>float64\<close> (every JSON number) is its 64 bits: the
  code never computes with one. A slice \<open>[]ref.Val\<close> holds CEL values; a value of any other type is
  \<open>AOpaque\<close> with the name that \<open>%T\<close> prints and the CEL value it came from.
\<close>

datatype 'v any =
    ANil
  | ABool bool
  | AInt64 "64 word"
  | AFloat64 "64 word"
  | AString string
  | ASlice "'v any list"
  | ARefVals "'v list"
  | AMap "string \<rightharpoonup> 'v any"
  | AOpaque string 'v

text \<open>What \<open>%T\<close> prints.\<close>

fun type_name :: "'v any \<Rightarrow> string" where
  "type_name ANil = ''<nil>''"
| "type_name (ABool _) = ''bool''"
| "type_name (AInt64 _) = ''int64''"
| "type_name (AFloat64 _) = ''float64''"
| "type_name (AString _) = ''string''"
| "type_name (ASlice _) = ''[]interface {}''"
| "type_name (ARefVals _) = ''[]ref.Val''"
| "type_name (AMap _) = ''map[string]interface {}''"
| "type_name (AOpaque t _) = t"

text \<open>\<open>chalk.Report = map[Key]any\<close>, and the keys the code names.\<close>

type_synonym 'v report = "string \<rightharpoonup> 'v any"

definition KeyActionID :: string where
  "KeyActionID = ''_ACTION_ID''"

definition KeyChalks :: string where
  "KeyChalks = ''_CHALKS''"

subsection \<open>Pipelines\<close>

record target =
  tgt_identifier :: string
  tgt_version :: string

record param_setting =
  ps_name :: string
  ps_value :: string

record obj_ref =
  ref_name :: string
  ref_kind :: string
  ref_params :: "param_setting list"

record 'x pipeline_spec =
  sp_downloader :: obj_ref
  sp_profile :: obj_ref
  sp_target :: target
  sp_rest :: 'x

record 'x pipeline_template =
  pt_labels :: "string \<rightharpoonup> string"
  pt_annotations :: "string \<rightharpoonup> string"
  pt_spec :: "'x pipeline_spec"

text \<open>Times are abstract: the code only asks whether they are set.\<close>

record 'x pipeline =
  pl_generateName :: string
  pl_name :: string
  pl_namespace :: string
  pl_labels :: "string \<rightharpoonup> string"
  pl_annotations :: "string \<rightharpoonup> string"
  pl_spec :: "'x pipeline_spec"
  pl_startTime :: "int option"
  pl_completionTime :: "int option"

definition empty_target :: target where
  "empty_target = \<lparr>tgt_identifier = [], tgt_version = []\<rparr>"

subsection \<open>The resource ChalkReportPolicy\<close>

text \<open>\<open>ChalkReportPolicyExtraction\<close>: an optional expression is a pointer, \<open>None\<close> for nil.\<close>

record extraction =
  ex_forEach :: "string option"
  ex_target :: string
  ex_downloaderParams :: "string option"
  ex_profileParams :: "string option"

record 'x policy_spec =
  sp_matchCondition :: string
  sp_extraction :: extraction
  sp_pipelineTemplate :: "'x pipeline_template"

record condition =
  cd_type :: string
  cd_status :: string
  cd_reason :: string
  cd_message :: string
  cd_generation :: int

record 'x policy =
  pol_name :: string
  pol_namespace :: string
  pol_uid :: string
  pol_generation :: int
  pol_deletionTimestamp :: "int option"
  pol_finalizers :: "string list"
  pol_spec :: "'x policy_spec"
  pol_conditions :: "condition list"

text \<open>A specification update in place: \<open>obj.Spec.PipelineTemplate.Spec = f(...)\<close>.\<close>

definition map_template_spec ::
  "('x pipeline_spec \<Rightarrow> 'x pipeline_spec) \<Rightarrow> 'x policy \<Rightarrow> 'x policy" where
  "map_template_spec f p =
     (let s = pol_spec p; t = sp_pipelineTemplate s
      in p\<lparr>pol_spec := s\<lparr>sp_pipelineTemplate := t\<lparr>pt_spec := f (pt_spec t)\<rparr>\<rparr>\<rparr>)"

abbreviation template_spec :: "'x policy \<Rightarrow> 'x pipeline_spec" where
  "template_spec p \<equiv> pt_spec (sp_pipelineTemplate (pol_spec p))"

lemma template_spec_map [simp]:
  "template_spec (map_template_spec f p) = f (template_spec p)"
  by (simp add: map_template_spec_def Let_def)

lemma map_template_spec_frame [simp]:
  "pol_name (map_template_spec f p) = pol_name p"
  "pol_namespace (map_template_spec f p) = pol_namespace p"
  "sp_matchCondition (pol_spec (map_template_spec f p)) = sp_matchCondition (pol_spec p)"
  "sp_extraction (pol_spec (map_template_spec f p)) = sp_extraction (pol_spec p)"
  by (simp_all add: map_template_spec_def Let_def)

end
