(* ===== verification/Policy_Compiler.thy ===== *)
theory Policy_Compiler
  imports Api_Types
begin

section \<open>The policy compiler and its cache\<close>

text \<open>
  \<^verbatim>\<open>internal/policy/compiler.go\<close>. The CEL library and \<^verbatim>\<open>k8s.io/utils/lru\<close> are not part of the
  repository: they are the records \<open>cel\<close> and \<open>lru\<close> of their operations, arguments of the model. What the
  code relies on in the cache is the locale \<open>lru_cache\<close>, whose laws are the documented ones.
\<close>

subsection \<open>The CEL library\<close>

text \<open>
  \<open>env.Compile\<close> gives a syntax tree and a pointer to issues (\<open>None\<close> for nil) whose \<open>Err()\<close> may be nil.
  \<open>ConvertToNative\<close> to \<open>map[string]string\<close> gives an \<open>any\<close> that holds a string map, or another type. A
  Go map is the list of its entries in the order in which \<open>range\<close> visits them. \<open>val_show\<close> is the text
  a formatting verb prints for \<open>val.Value()\<close>.
\<close>

datatype native = NStrMap "(string \<times> string) list" | NOther string

record ('a, 'p, 'v) cel =
  env_compile :: "string \<Rightarrow> 'a \<times> goerr option option"
  env_program :: "'a \<Rightarrow> 'p res"
  prog_eval :: "'p \<Rightarrow> (string \<rightharpoonup> 'v any) \<Rightarrow> 'v res"
  val_value :: "'v \<Rightarrow> 'v any"
  val_native :: "'v \<Rightarrow> native res"
  val_typeName :: "'v \<Rightarrow> string"
  val_show :: "string \<Rightarrow> 'v \<Rightarrow> string"

subsection \<open>The cache library\<close>

record ('c, 'e) lru =
  lru_new :: "int \<Rightarrow> 'c"
  lru_get :: "'c \<Rightarrow> string \<Rightarrow> 'e option \<times> 'c"
  lru_add :: "'c \<Rightarrow> string \<Rightarrow> 'e \<Rightarrow> 'c"
  lru_remove :: "'c \<Rightarrow> string \<Rightarrow> 'c"
  lru_clear :: "'c \<Rightarrow> 'c"

text \<open>
  \<open>contents\<close> is the abstract map of a cache. A lookup may reorder entries and nothing else; an insertion
  stores the entry and may evict others; no operation makes an entry up.
\<close>

locale lru_cache =
  fixes L :: "('c, 'e) lru" and contents :: "'c \<Rightarrow> (string \<rightharpoonup> 'e)"
  assumes contents_new: "contents (lru_new L n) = Map.empty"
    and get_hit: "fst (lru_get L c k) = contents c k"
    and contents_get: "contents (snd (lru_get L c k)) = contents c"
    and contents_add: "contents (lru_add L c k e) k = Some e"
    and contents_add_le: "contents (lru_add L c k e) \<subseteq>\<^sub>m (contents c)(k \<mapsto> e)"
    and contents_remove: "contents (lru_remove L c k) = (contents c)(k := None)"
    and contents_clear: "contents (lru_clear L c) = Map.empty"
begin

lemma add_other: "k' \<noteq> k \<Longrightarrow> contents (lru_add L c k e) k' = Some x \<Longrightarrow> contents c k' = Some x"
  using contents_add_le [of c k e] by (auto simp: map_le_def dom_def)

lemmas cache_laws = contents_new get_hit contents_get contents_add contents_remove contents_clear

end

subsection \<open>Compiled policies\<close>

text \<open>\<open>CompiledPolicy\<close>; an optional program is \<open>None\<close> when the field is nil.\<close>

record 'p compiled_policy =
  cp_observedGeneration :: int
  cp_matchCondition :: 'p
  cp_target :: 'p
  cp_forEach :: "'p option"
  cp_downloaderParams :: "'p option"
  cp_profileParams :: "'p option"

text \<open>What the cache holds is an \<open>interface{}\<close>; a value that is no \<open>*CompiledPolicy\<close> is its type's name.\<close>

datatype 'p cached = CPolicy "'p compiled_policy" | CForeign string

text \<open>The \<open>Compiler\<close> struct. The cache's state is threaded, the libraries stay fixed.\<close>

record ('a, 'p, 'v, 'c) compiler =
  comp_env :: "('a, 'p, 'v) cel"
  comp_lru :: "('c, 'p cached) lru"

text \<open>\<open>NewCompiler(cacheSize)\<close>: the environment may fail to build; the cache is empty.\<close>

definition NewCompiler ::
  "('a, 'p, 'v) cel res \<Rightarrow> ('c, 'p cached) lru \<Rightarrow> int \<Rightarrow> (('a, 'p, 'v, 'c) compiler \<times> 'c) res" where
  "NewCompiler newEnv L cacheSize =
     (case newEnv of
        Inl e \<Rightarrow> Inl (ErrWrap ''creating CEL env: '' e '''')
      | Inr env \<Rightarrow> Inr (\<lparr>comp_env = env, comp_lru = L\<rparr>, lru_new L cacheSize))"

definition program :: "('a, 'p, 'v) cel \<Rightarrow> string \<Rightarrow> 'p res" where
  "program env expr =
     (case env_compile env expr of
        (ast, Some (Some e)) \<Rightarrow> Inl e
      | (ast, _) \<Rightarrow> env_program env ast)"

text \<open>An optional field is compiled only when its pointer is not nil.\<close>

definition program_opt :: "('a, 'p, 'v) cel \<Rightarrow> string \<Rightarrow> string option \<Rightarrow> 'p option res" where
  "program_opt env prefix f =
     (case f of
        None \<Rightarrow> Inr None
      | Some expr \<Rightarrow>
          (case program env expr of
             Inl e \<Rightarrow> Inl (ErrWrap prefix e '''')
           | Inr p \<Rightarrow> Inr (Some p)))"

definition compile :: "('a, 'p, 'v) cel \<Rightarrow> 'x policy \<Rightarrow> 'p compiled_policy res" where
  "compile env policy =
     (let s = pol_spec policy; x = sp_extraction s in
      case program env (sp_matchCondition s) of
        Inl e \<Rightarrow> Inl (ErrWrap ''matchCondition: '' e '''')
      | Inr match \<Rightarrow>
     (case program env (ex_target x) of
        Inl e \<Rightarrow> Inl (ErrWrap ''extraction.target: '' e '''')
      | Inr tgt \<Rightarrow>
     (case program_opt env ''extraction.downloaderParams: '' (ex_downloaderParams x) of
        Inl e \<Rightarrow> Inl e
      | Inr dl \<Rightarrow>
     (case program_opt env ''extraction.forEach: '' (ex_forEach x) of
        Inl e \<Rightarrow> Inl e
      | Inr each \<Rightarrow>
     (case program_opt env ''extraction.scannerParams: '' (ex_profileParams x) of
        Inl e \<Rightarrow> Inl e
      | Inr pf \<Rightarrow>
          Inr \<lparr>cp_observedGeneration = pol_generation policy, cp_matchCondition = match,
               cp_target = tgt, cp_forEach = each, cp_downloaderParams = dl,
               cp_profileParams = pf\<rparr>)))))"

definition cacheKey :: "'x policy \<Rightarrow> string" where
  "cacheKey p = pol_uid p"

text \<open>
  \<open>Get\<close>: the whole body runs under the mutex, so it is one atomic step on the cache. \<open>compile_and_add\<close> is
  its tail, after a miss or a stale hit.
\<close>

definition compile_and_add ::
  "('a, 'p, 'v, 'c) compiler \<Rightarrow> 'x policy \<Rightarrow> 'c \<Rightarrow> 'p compiled_policy res \<times> 'c" where
  "compile_and_add C policy c =
     (case compile (comp_env C) policy of
        Inl e \<Rightarrow> (Inl e, c)
      | Inr compiled \<Rightarrow>
          (Inr compiled, lru_add (comp_lru C) c (cacheKey policy) (CPolicy compiled)))"

definition Get ::
  "('a, 'p, 'v, 'c) compiler \<Rightarrow> 'x policy \<Rightarrow> 'c \<Rightarrow> 'p compiled_policy res \<times> 'c" where
  "Get C policy c =
     (case lru_get (comp_lru C) c (cacheKey policy) of
        (Some (CForeign t), c1) \<Rightarrow> (Inl (ErrMsg (''invalid type in cache, got '' @ t)), c1)
      | (Some (CPolicy p), c1) \<Rightarrow>
          if cp_observedGeneration p = pol_generation policy then (Inr p, c1)
          else compile_and_add C policy c1
      | (None, c1) \<Rightarrow> compile_and_add C policy c1)"

text \<open>\<open>Remove\<close> always returns nil; \<open>Clear\<close> empties the cache.\<close>

definition Remove ::
  "('a, 'p, 'v, 'c) compiler \<Rightarrow> 'x policy \<Rightarrow> 'c \<Rightarrow> goerr option \<times> 'c" where
  "Remove C policy c = (None, lru_remove (comp_lru C) c (cacheKey policy))"

definition Clear :: "('a, 'p, 'v, 'c) compiler \<Rightarrow> 'c \<Rightarrow> 'c" where
  "Clear C c = lru_clear (comp_lru C) c"

subsection \<open>Compilation\<close>

lemmas compile_defs = compile_def program_opt_def Let_def

lemma compile_generation:
  "compile env p = Inr cp \<Longrightarrow> cp_observedGeneration cp = pol_generation p"
  by (auto simp: compile_defs split: sum.splits option.splits)

text \<open>The result depends on the specification and the generation only.\<close>

lemma compile_cong:
  assumes "pol_spec p = pol_spec q" "pol_generation p = pol_generation q"
  shows "compile env p = compile env q"
  unfolding compile_def assms by (rule refl)

lemma program_opt_Inr_iff:
  "program_opt env pre f = Inr r \<longleftrightarrow>
     (f = None \<and> r = None) \<or> (\<exists>expr p. f = Some expr \<and> r = Some p \<and> program env expr = Inr p)"
  by (auto simp: program_opt_def split: option.splits sum.splits)

lemma compile_Inr_iff:
  "compile env p = Inr cp \<longleftrightarrow>
     program env (sp_matchCondition (pol_spec p)) = Inr (cp_matchCondition cp)
   \<and> program env (ex_target (sp_extraction (pol_spec p))) = Inr (cp_target cp)
   \<and> program_opt env ''extraction.downloaderParams: ''
       (ex_downloaderParams (sp_extraction (pol_spec p))) = Inr (cp_downloaderParams cp)
   \<and> program_opt env ''extraction.forEach: ''
       (ex_forEach (sp_extraction (pol_spec p))) = Inr (cp_forEach cp)
   \<and> program_opt env ''extraction.scannerParams: ''
       (ex_profileParams (sp_extraction (pol_spec p))) = Inr (cp_profileParams cp)
   \<and> cp_observedGeneration cp = pol_generation p"
  by (cases cp) (auto simp: compile_def Let_def split: sum.splits)

subsection \<open>Coherence of the cache\<close>

text \<open>
  \<open>R\<close> is the set of resources the API server has served. Kubernetes raises \<open>metadata.generation\<close> on
  every change of the specification, so uid and generation determine it (\<open>generation_stable\<close>). A cache
  is coherent when each entry is what \<open>compile\<close> gave for a served resource with that uid.
\<close>

definition generation_stable :: "'x policy set \<Rightarrow> bool" where
  "generation_stable R \<longleftrightarrow>
     (\<forall>p \<in> R. \<forall>q \<in> R. pol_uid p = pol_uid q \<and> pol_generation p = pol_generation q
        \<longrightarrow> pol_spec p = pol_spec q)"

definition coherent ::
  "('a, 'p, 'v) cel \<Rightarrow> 'x policy set \<Rightarrow> (string \<rightharpoonup> 'p cached) \<Rightarrow> bool" where
  "coherent env R m \<longleftrightarrow>
     (\<forall>k e. m k = Some e \<longrightarrow>
        (\<exists>p \<in> R. pol_uid p = k \<and> (\<exists>cp. e = CPolicy cp \<and> compile env p = Inr cp)))"

lemma generation_stableD:
  assumes "generation_stable R" "p \<in> R" "q \<in> R"
    and "pol_uid p = pol_uid q" "pol_generation p = pol_generation q"
  shows "pol_spec p = pol_spec q"
  using assms(1) [unfolded generation_stable_def, THEN bspec, OF assms(2), THEN bspec, OF assms(3)]
    assms(4,5) by simp

lemma coherent_empty [simp]: "coherent env R Map.empty"
  by (simp add: coherent_def)

lemma coherent_le: "m \<subseteq>\<^sub>m m' \<Longrightarrow> coherent env R m' \<Longrightarrow> coherent env R m"
  unfolding coherent_def map_le_def by (metis domI)

lemma coherent_upd:
  "coherent env R m \<Longrightarrow> p \<in> R \<Longrightarrow> compile env p = Inr cp \<Longrightarrow>
   coherent env R (m(pol_uid p \<mapsto> CPolicy cp))"
  by (auto simp: coherent_def)

lemma coherent_delete: "coherent env R m \<Longrightarrow> coherent env R (m(k := None))"
  by (auto simp: coherent_def)

text \<open>A coherent entry of the resource's generation is what compiling the resource gives.\<close>

lemma coherent_hit:
  assumes "coherent env R m" "generation_stable R" "p \<in> R"
    and "m (pol_uid p) = Some (CPolicy cp)" "cp_observedGeneration cp = pol_generation p"
  shows "compile env p = Inr cp"
proof -
  from assms(1,4) obtain q where q: "q \<in> R" "pol_uid q = pol_uid p" "compile env q = Inr cp"
    unfolding coherent_def by blast
  from compile_generation [OF q(3)] assms(5) have "pol_generation q = pol_generation p" by simp
  moreover from this have "pol_spec q = pol_spec p"
    by (rule generation_stableD [OF assms(2) q(1) assms(3) q(2)])
  ultimately show ?thesis using q(3) compile_cong [of q p env] by simp
qed

subsection \<open>The contract the clients of the compiler use\<close>

text \<open>
  The scheduler and the reconciler call \<open>Get\<close> and rely on this: it answers as \<open>spec\<close> does, whatever the
  cache holds, and keeps the cache's invariant.
\<close>

locale policy_source =
  fixes get :: "'x policy \<Rightarrow> 'c \<Rightarrow> 'p compiled_policy res \<times> 'c"
    and inv :: "'c \<Rightarrow> bool"
    and served :: "'x policy set"
    and spec :: "'x policy \<Rightarrow> 'p compiled_policy res"
  assumes get_spec: "inv c \<Longrightarrow> p \<in> served \<Longrightarrow> fst (get p c) = spec p"
    and get_inv: "inv c \<Longrightarrow> p \<in> served \<Longrightarrow> inv (snd (get p c))"
begin

text \<open>A second call gives the same answer.\<close>

lemma get_repeat:
  "inv c \<Longrightarrow> p \<in> served \<Longrightarrow> q \<in> served \<Longrightarrow>
   fst (get p (snd (get q (snd (get p c))))) = fst (get p c)"
  by (simp add: get_spec get_inv)

end

text \<open>The model's compiler over any cache with the laws, for a set of served resources.\<close>

locale compiler_model =
  lru_cache "comp_lru C" contents
  for C :: "('a, 'p, 'v, 'c) compiler" and contents :: "'c \<Rightarrow> (string \<rightharpoonup> 'p cached)" +
  fixes R :: "'x policy set"
  assumes stable: "generation_stable R"
begin

abbreviation inv :: "'c \<Rightarrow> bool" where
  "inv c \<equiv> coherent (comp_env C) R (contents c)"

lemma compile_and_add_inv:
  assumes "inv c" "p \<in> R"
  shows "inv (snd (compile_and_add C p c))"
proof (cases "compile (comp_env C) p")
  case (Inl e)
  with assms show ?thesis by (simp add: compile_and_add_def)
next
  case (Inr cp)
  with assms have "coherent (comp_env C) R ((contents c)(pol_uid p \<mapsto> CPolicy cp))"
    by (simp add: coherent_upd)
  then show ?thesis
    using coherent_le [OF contents_add_le] Inr
    by (simp add: compile_and_add_def cacheKey_def)
qed

lemma fst_compile_and_add: "fst (compile_and_add C p c) = compile (comp_env C) p"
  by (simp add: compile_and_add_def split: sum.split)

lemma Get_correct:
  assumes "inv c" "p \<in> R"
  shows "fst (Get C p c) = compile (comp_env C) p" and "inv (snd (Get C p c))"
proof -
  obtain h c1 where g: "lru_get (comp_lru C) c (cacheKey p) = (h, c1)" by force
  then have h: "h = contents c (pol_uid p)" and c1: "contents c1 = contents c"
    using get_hit [of c "cacheKey p"] contents_get [of c "cacheKey p"] by (simp_all add: cacheKey_def)
  have inv1: "inv c1" using assms(1) c1 by simp
  show "fst (Get C p c) = compile (comp_env C) p"
  proof (cases h)
    case None
    with g show ?thesis by (simp add: Get_def fst_compile_and_add)
  next
    case (Some e)
    with h assms(1) obtain cp where e: "e = CPolicy cp" by (metis coherent_def)
    with Some h g show ?thesis
      using coherent_hit [OF assms(1) stable assms(2)]
      by (simp add: Get_def fst_compile_and_add)
  qed
  show "inv (snd (Get C p c))"
    using g inv1 compile_and_add_inv [OF inv1 assms(2)]
    by (simp add: Get_def split: option.split cached.split)
qed

lemma Remove_inv: "inv c \<Longrightarrow> inv (snd (Remove C p c))"
  by (simp add: Remove_def contents_remove coherent_delete)

lemma Clear_inv: "inv (Clear C c)"
  by (simp add: Clear_def contents_clear)

end

sublocale compiler_model \<subseteq> src: policy_source "Get C" inv R "compile (comp_env C)"
  by unfold_locales (simp_all add: Get_correct)

context compiler_model begin

lemma get_contract: "policy_source (Get C) inv R (compile (comp_env C))"
  by (rule src.policy_source_axioms)

end

subsection \<open>Sequences of operations\<close>

text \<open>
  The scheduler and the reconciler share one compiler; every interleaving of the statements of their calls
  is a sequence of these operations, which \<open>Compiler_Threads\<close> proves.
\<close>

datatype 'x comp_op = OpGet "'x policy" | OpRemove "'x policy" | OpClear

fun comp_step :: "('a, 'p, 'v, 'c) compiler \<Rightarrow> 'x comp_op \<Rightarrow> 'c \<Rightarrow> 'c" where
  "comp_step C (OpGet p) c = snd (Get C p c)"
| "comp_step C (OpRemove p) c = snd (Remove C p c)"
| "comp_step C OpClear c = Clear C c"

fun run_ops :: "('a, 'p, 'v, 'c) compiler \<Rightarrow> 'x comp_op list \<Rightarrow> 'c \<Rightarrow> 'c" where
  "run_ops C [] c = c"
| "run_ops C (x # xs) c = run_ops C xs (comp_step C x c)"

fun gets_from :: "'x policy set \<Rightarrow> 'x comp_op \<Rightarrow> bool" where
  "gets_from R (OpGet p) = (p \<in> R)"
| "gets_from R (OpRemove p) = True"
| "gets_from R OpClear = True"

context compiler_model begin

lemma comp_step_inv: "inv c \<Longrightarrow> gets_from R x \<Longrightarrow> inv (comp_step C x c)"
  by (cases x) (simp_all add: Get_correct Remove_inv Clear_inv)

lemma run_ops_inv: "inv c \<Longrightarrow> list_all (gets_from R) xs \<Longrightarrow> inv (run_ops C xs c)"
  by (induction xs arbitrary: c) (simp_all add: comp_step_inv)

lemma new_inv: "inv (lru_new (comp_lru C) n)"
  by (simp add: contents_new)

lemma new_transparent:
  "list_all (gets_from R) xs \<Longrightarrow> p \<in> R \<Longrightarrow>
   fst (Get C p (run_ops C xs (lru_new (comp_lru C) n))) = compile (comp_env C) p"
  by (simp add: Get_correct run_ops_inv new_inv)

lemma Get_after_Remove:
  assumes "pol_uid q = pol_uid p"
  shows "fst (Get C p (snd (Remove C q c))) = compile (comp_env C) p"
proof -
  obtain h c1 where g: "lru_get (comp_lru C) (snd (Remove C q c)) (cacheKey p) = (h, c1)" by force
  with get_hit [of "snd (Remove C q c)" "cacheKey p"] assms have "h = None"
    by (simp add: Remove_def cacheKey_def contents_remove)
  with g show ?thesis by (simp add: Get_def fst_compile_and_add)
qed

text \<open>A successful \<open>Get\<close> leaves its answer in the cache, so the next one is a hit.\<close>

lemma Get_cached:
  assumes "fst (Get C p c) = Inr cp"
  shows "contents (snd (Get C p c)) (pol_uid p) = Some (CPolicy cp)"
proof -
  obtain h c1 where g: "lru_get (comp_lru C) c (cacheKey p) = (h, c1)" by force
  then have h: "h = contents c (pol_uid p)" and c1: "contents c1 = contents c"
    using get_hit [of c "cacheKey p"] contents_get [of c "cacheKey p"] by (simp_all add: cacheKey_def)
  have add: "contents (snd (compile_and_add C p c1)) (pol_uid p) = Some (CPolicy cp)"
    if "fst (compile_and_add C p c1) = Inr cp"
    using that contents_add [of c1 "cacheKey p" "CPolicy cp"]
    by (auto simp: compile_and_add_def cacheKey_def split: sum.splits)
  show ?thesis
    using assms g h c1 add
    by (auto simp: Get_def split: option.splits cached.splits if_splits)
qed

lemma Get_hit:
  assumes "contents c (pol_uid p) = Some (CPolicy cp)" "cp_observedGeneration cp = pol_generation p"
  shows "fst (Get C p c) = Inr cp" "contents (snd (Get C p c)) = contents c"
proof -
  obtain h c1 where g: "lru_get (comp_lru C) c (cacheKey p) = (h, c1)" by force
  then have "h = Some (CPolicy cp)" "contents c1 = contents c"
    using get_hit [of c "cacheKey p"] contents_get [of c "cacheKey p"] assms(1)
    by (simp_all add: cacheKey_def)
  with g assms(2) show "fst (Get C p c) = Inr cp" "contents (snd (Get C p c)) = contents c"
    by (simp_all add: Get_def)
qed

end

lemma fst_compile_and_add_eq: "fst (compile_and_add C p c) = compile (comp_env C) p"
  by (simp add: compile_and_add_def split: sum.split)

lemma Get_generation:
  "fst (Get C p c) = Inr cp \<Longrightarrow> cp_observedGeneration cp = pol_generation p"
  by (auto simp: Get_def fst_compile_and_add_eq split: prod.splits option.splits cached.splits if_splits
      dest: compile_generation)

subsection \<open>A reference cache\<close>

text \<open>
  An executable cache with the laws, used to interpret the locale and in the witnesses: the entries in
  the order of their last use and a capacity, where 0 is no limit.
\<close>

type_synonym 'e list_cache = "nat \<times> (string \<times> 'e) list"

definition lc_trim :: "nat \<Rightarrow> 'b list \<Rightarrow> 'b list" where
  "lc_trim n es = (if n = 0 then es else take n es)"

fun lc_contents :: "'e list_cache \<Rightarrow> (string \<rightharpoonup> 'e)" where
  "lc_contents (n, es) = map_of es"

fun lc_drop :: "string \<Rightarrow> (string \<times> 'e) list \<Rightarrow> (string \<times> 'e) list" where
  "lc_drop k [] = []"
| "lc_drop k ((k', e) # es) = (if k' = k then lc_drop k es else (k', e) # lc_drop k es)"

fun lc_get :: "'e list_cache \<Rightarrow> string \<Rightarrow> 'e option \<times> 'e list_cache" where
  "lc_get (n, es) k =
     (case map_of es k of
        None \<Rightarrow> (None, (n, es))
      | Some e \<Rightarrow> (Some e, (n, (k, e) # lc_drop k es)))"

fun lc_add :: "'e list_cache \<Rightarrow> string \<Rightarrow> 'e \<Rightarrow> 'e list_cache" where
  "lc_add (n, es) k e = (n, lc_trim n ((k, e) # lc_drop k es))"

fun lc_remove :: "'e list_cache \<Rightarrow> string \<Rightarrow> 'e list_cache" where
  "lc_remove (n, es) k = (n, lc_drop k es)"

definition list_lru :: "('e list_cache, 'e) lru" where
  "list_lru = \<lparr>lru_new = (\<lambda>n. (nat n, [])), lru_get = lc_get, lru_add = lc_add,
               lru_remove = lc_remove, lru_clear = (\<lambda>(n, es). (n, []))\<rparr>"

lemma map_of_lc_drop: "map_of (lc_drop k es) = (map_of es)(k := None)"
  by (induction es rule: lc_drop.induct) (auto simp: fun_eq_iff)

lemma map_of_take_le: "map_of (take n es) \<subseteq>\<^sub>m map_of es"
proof (induction es arbitrary: n)
  case Nil
  then show ?case by simp
next
  case (Cons x es)
  then show ?case by (cases n) (auto simp: map_le_def dom_def split: if_splits)
qed

lemma lc_add_le: "lc_contents (lc_add (n, es) k e) \<subseteq>\<^sub>m (lc_contents (n, es))(k \<mapsto> e)"
proof -
  have "map_of ((k, e) # lc_drop k es) = (map_of es)(k \<mapsto> e)"
    by (simp add: map_of_lc_drop)
  then show ?thesis
    using map_of_take_le [of n "(k, e) # lc_drop k es"] by (simp add: lc_trim_def)
qed

lemma lc_add_self: "lc_contents (lc_add (n, es) k e) k = Some e"
  by (cases n) (simp_all add: lc_trim_def)

lemma list_lru_laws: "lru_cache list_lru lc_contents"
proof
  fix c :: "'e list_cache" and k e n
  obtain m es where c: "c = (m, es)" by force
  show "lc_contents (lru_new list_lru n) = Map.empty" by (simp add: list_lru_def)
  show "fst (lru_get list_lru c k) = lc_contents c k"
    by (simp add: c list_lru_def split: option.split)
  show "lc_contents (snd (lru_get list_lru c k)) = lc_contents c"
    by (auto simp: c list_lru_def map_of_lc_drop fun_eq_iff split: option.split)
  show "lc_contents (lru_add list_lru c k e) k = Some e"
    unfolding c list_lru_def using lc_add_self [of m es k e] by simp
  show "lc_contents (lru_add list_lru c k e) \<subseteq>\<^sub>m (lc_contents c)(k \<mapsto> e)"
    unfolding c list_lru_def using lc_add_le by simp
  show "lc_contents (lru_remove list_lru c k) = (lc_contents c)(k := None)"
    by (simp add: c list_lru_def map_of_lc_drop)
  show "lc_contents (lru_clear list_lru c) = Map.empty"
    by (simp add: c list_lru_def)
qed

interpretation listc: lru_cache list_lru lc_contents
  by (rule list_lru_laws)

text \<open>
  The contract of the compiler holds of the model's own operations, for the resources whose
  specification is a function of uid and generation, over the reference cache and any CEL library.
\<close>

lemma generation_stable_by:
  "generation_stable {p. pol_spec p = f (pol_uid p) (pol_generation p)}"
  by (auto simp: generation_stable_def)

interpretation pc: compiler_model
  "\<lparr>comp_env = env, comp_lru = list_lru\<rparr>" lc_contents
  "{p. pol_spec p = f (pol_uid p) (pol_generation p)}"
  for env :: "('a, 'p, 'v) cel" and f :: "string \<Rightarrow> int \<Rightarrow> 'x policy_spec"
  by (intro compiler_model.intro compiler_model_axioms.intro)
     (simp_all add: list_lru_laws generation_stable_by)

subsection \<open>A reference expression library\<close>

text \<open>
  An executable instance of \<open>cel\<close> for the witnesses, not a model of CEL: an expression is a constant, the
  name of a report key, or \<open>each\<close>; one that starts with \<open>!\<close> does not compile.
\<close>

datatype rval = RBool bool | RStr string | RMap "(string \<times> string) list" | RList "rval list"

fun rval_any :: "rval \<Rightarrow> rval any" where
  "rval_any (RBool b) = ABool b"
| "rval_any (RStr s) = AString s"
| "rval_any (RMap m) = AOpaque ''map[ref.Val]ref.Val'' (RMap m)"
| "rval_any (RList vs) = ARefVals vs"

fun rval_of_any :: "rval any \<Rightarrow> rval res" where
  "rval_of_any (ABool b) = Inr (RBool b)"
| "rval_of_any (AString s) = Inr (RStr s)"
| "rval_of_any (ARefVals vs) = Inr (RList vs)"
| "rval_of_any (AOpaque t v) = Inr v"
| "rval_of_any _ = Inl (ErrMsg ''unsupported value'')"

fun rval_native :: "rval \<Rightarrow> native res" where
  "rval_native (RMap m) = Inr (NStrMap m)"
| "rval_native (RStr s) = Inr (NStrMap [(''identifier'', s)])"
| "rval_native v = Inl (ErrMsg ''unsupported type conversion'')"

definition ref_lookup :: "string \<Rightarrow> rval any option \<Rightarrow> rval res" where
  "ref_lookup name a = (case a of None \<Rightarrow> Inl (ErrMsg (''no such key: '' @ name)) | Some v \<Rightarrow> rval_of_any v)"

definition ref_eval :: "string \<Rightarrow> (string \<rightharpoonup> rval any) \<Rightarrow> rval res" where
  "ref_eval expr act =
     (if expr = ''true'' then Inr (RBool True)
      else if expr = ''false'' then Inr (RBool False)
      else if expr = ''each'' then ref_lookup ''each'' (act ''each'')
      else (case act ''report'' of
              Some (AMap r) \<Rightarrow> ref_lookup expr (r expr)
            | _ \<Rightarrow> Inl (ErrMsg ''no report'')))"

definition ref_cel :: "(string, string, rval) cel" where
  "ref_cel = \<lparr>env_compile = (\<lambda>e. (e, if take 1 e = ''!'' then Some (Some (ErrMsg ''Syntax error'')) else None)),
     env_program = Inr, prog_eval = ref_eval, val_value = rval_any, val_native = rval_native,
     val_typeName = (\<lambda>v. ''value''), val_show = (\<lambda>verb v. ''value'')\<rparr>"

abbreviation ref_compiler :: "(string, string, rval, string cached list_cache) compiler" where
  "ref_compiler \<equiv> \<lparr>comp_env = ref_cel, comp_lru = list_lru\<rparr>"

definition demo_template :: "unit pipeline_template" where
  "demo_template = \<lparr>pt_labels = [''team'' \<mapsto> ''sec''], pt_annotations = Map.empty,
     pt_spec = \<lparr>sp_downloader = \<lparr>ref_name = ''dl'', ref_kind = ''ClusterDownloader'',
                                ref_params = [\<lparr>ps_name = ''A'', ps_value = ''1''\<rparr>]\<rparr>,
                sp_profile = \<lparr>ref_name = ''analyze'', ref_kind = [], ref_params = []\<rparr>,
                sp_target = empty_target, sp_rest = ()\<rparr>\<rparr>"

definition demo_policy :: "string \<Rightarrow> string option \<Rightarrow> unit policy" where
  "demo_policy matchExpr each =
     \<lparr>pol_name = ''docker'', pol_namespace = ''scan'', pol_uid = ''u1'', pol_generation = 1,
      pol_deletionTimestamp = None, pol_finalizers = [],
      pol_spec = \<lparr>sp_matchCondition = matchExpr,
        sp_extraction = \<lparr>ex_forEach = each, ex_target = ''_IMAGE'', ex_downloaderParams = None,
                         ex_profileParams = Some ''_PARAMS''\<rparr>,
        sp_pipelineTemplate = demo_template\<rparr>,
      pol_conditions = [\<lparr>cd_type = ''Ready'', cd_status = ''True'', cd_reason = ''CELCompiled'',
                         cd_message = [], cd_generation = 1\<rparr>]\<rparr>"

lemmas demo_defs = demo_policy_def demo_template_def ref_cel_def ref_eval_def ref_lookup_def

lemmas ref_run = demo_defs compile_defs program_def

subsection \<open>Properties of the compiler\<close>

text \<open>
  The cache is transparent: after any interleaving of \<open>Get\<close>, \<open>Remove\<close> and \<open>Clear\<close> on a new
  compiler, by the scheduler and the reconciler, \<open>Get\<close> of a resource answers exactly what compiling that
  resource afresh would, where the resources are versions the API server served (uid and generation
  determine the specification) and the LRU library keeps its laws.
\<close>

theorem compiler_cache_transparent:
  assumes "lru_cache L contents"
    and "NewCompiler newEnv L cacheSize = Inr (C, c0)"
    and "generation_stable R" "list_all (gets_from R) ops" "p \<in> R"
  shows "fst (Get C p (run_ops C ops c0)) = compile (comp_env C) p"
proof -
  from assms(2) have C: "comp_lru C = L" "c0 = lru_new L cacheSize"
    by (auto simp: NewCompiler_def split: sum.splits)
  then have "compiler_model C contents R"
    using assms(1,3) by (simp add: compiler_model.intro compiler_model_axioms.intro)
  from compiler_model.new_transparent [OF this assms(4,5)] C show ?thesis by simp
qed

lemma NewCompiler_ref: "NewCompiler (Inr ref_cel) list_lru n = Inr (ref_compiler, (nat n, []))"
  by (simp add: NewCompiler_def list_lru_def)

theorem compiler_cache_transparent_witness:
  "let p = demo_policy ''true'' None; q = demo_policy ''false'' (Some ''items'')\<lparr>pol_generation := 2\<rparr>
   in fst (Get ref_compiler q (run_ops ref_compiler [OpGet p, OpGet q, OpRemove p, OpGet p] (2, [])))
      = compile ref_cel q
    \<and> compile ref_cel p \<noteq> compile ref_cel q"
proof -
  let ?p = "demo_policy ''true'' None"
  let ?q = "demo_policy ''false'' (Some ''items'')\<lparr>pol_generation := 2\<rparr>"
  have "NewCompiler (Inr ref_cel) list_lru 2 = Inr (ref_compiler, (2, []))"
    by (simp add: NewCompiler_ref)
  moreover have "generation_stable {?p, ?q}"
    by (simp add: generation_stable_def demo_policy_def)
  moreover have "list_all (gets_from {?p, ?q}) [OpGet ?p, OpGet ?q, OpRemove ?p, OpGet ?p]" by simp
  moreover have "compile ref_cel ?p \<noteq> compile ref_cel ?q" by (simp add: ref_run)
  ultimately show ?thesis
    using compiler_cache_transparent
      [OF list_lru_laws, of "Inr ref_cel" 2 ref_compiler "(2, [])" "{?p, ?q}"
        "[OpGet ?p, OpGet ?q, OpRemove ?p, OpGet ?p]" ?q]
    by (simp add: Let_def del: run_ops.simps)
qed

text \<open>
  Compilation checks the expressions in the order of the code (match condition, target, downloader
  parameters, forEach, profile parameters), skips an absent optional one, and fails with the error of
  the first that does not compile, under that field's prefix (the profile parameters' prefix is
  \<open>extraction.scannerParams\<close>); it succeeds when all compile, and then records the generation.
\<close>

definition policy_exprs :: "'x policy \<Rightarrow> (string \<times> string option) list" where
  "policy_exprs p =
     (let s = pol_spec p; x = sp_extraction s in
      [(''matchCondition: '', Some (sp_matchCondition s)),
       (''extraction.target: '', Some (ex_target x)),
       (''extraction.downloaderParams: '', ex_downloaderParams x),
       (''extraction.forEach: '', ex_forEach x),
       (''extraction.scannerParams: '', ex_profileParams x)])"

theorem compile_first_error:
  "compile env p =
     (case traverse (\<lambda>(prefix, f). program_opt env prefix f) (policy_exprs p) of
        Inl e \<Rightarrow> Inl e
      | Inr ps \<Rightarrow> Inr \<lparr>cp_observedGeneration = pol_generation p, cp_matchCondition = the (ps ! 0),
          cp_target = the (ps ! 1), cp_forEach = ps ! 3, cp_downloaderParams = ps ! 2,
          cp_profileParams = ps ! 4\<rparr>)"
  by (simp add: compile_def policy_exprs_def Let_def program_opt_def
      split: sum.split option.split)

text \<open>
  A compiled policy is never stale: whatever the cache holds (any library, any state, even entries
  that compilation did not make), the policy that \<open>Get\<close> returns was compiled for the generation asked for.
\<close>

theorem get_never_stale:
  "fst (Get C p c) = Inr cp \<Longrightarrow> cp_observedGeneration cp = pol_generation p"
  by (rule Get_generation)

theorem get_never_stale_witness:
  "\<exists>cp. fst (Get ref_compiler (demo_policy ''true'' None\<lparr>pol_generation := 7\<rparr>)
              (lc_add (0, []) ''u1'' (CPolicy \<lparr>cp_observedGeneration = 6, cp_matchCondition = ''false'',
                 cp_target = [], cp_forEach = None, cp_downloaderParams = None, cp_profileParams = None\<rparr>)))
           = Inr cp \<and> cp_observedGeneration cp = 7 \<and> cp_matchCondition cp = ''true''"
proof -
  let ?p = "demo_policy ''true'' None\<lparr>pol_generation := 7\<rparr>"
  let ?c = "lc_add (0, []) ''u1'' (CPolicy \<lparr>cp_observedGeneration = 6, cp_matchCondition = ''false'',
     cp_target = [], cp_forEach = None, cp_downloaderParams = None, cp_profileParams = None\<rparr>)"
  obtain cp where cp: "fst (Get ref_compiler ?p ?c) = Inr cp" and m: "cp_matchCondition cp = ''true''"
    by (simp add: Get_def compile_and_add_def ref_run list_lru_def lc_trim_def cacheKey_def)
  from get_never_stale [OF cp] have "cp_observedGeneration cp = 7" by (simp add: demo_policy_def)
  with cp m show ?thesis by blast
qed

text \<open>
  \<open>Get\<close> caches and \<open>Remove\<close> forgets: after a successful \<open>Get\<close> the next one for the same resource
  answers the same and leaves the cache's contents as they are (it is a hit), and after a \<open>Remove\<close> for
  that uid the answer is compiled anew.
\<close>

theorem get_caches_remove_forgets:
  fixes p q :: "'x policy"
  assumes "lru_cache (comp_lru C) contents" "fst (Get C p c) = Inr cp" "pol_uid q = pol_uid p"
  shows "fst (Get C p (snd (Get C p c))) = Inr cp
    \<and> contents (snd (Get C p (snd (Get C p c)))) = contents (snd (Get C p c))
    \<and> fst (Get C p (snd (Remove C q c))) = compile (comp_env C) p"
proof -
  have "generation_stable ({} :: 'x policy set)" by (simp add: generation_stable_def)
  then have cm: "compiler_model C contents ({} :: 'x policy set)"
    using assms(1) by (simp add: compiler_model.intro compiler_model_axioms.intro)
  note stored = compiler_model.Get_cached [OF cm assms(2)]
  note hit = compiler_model.Get_hit [OF cm stored Get_generation [OF assms(2)]]
  from hit compiler_model.Get_after_Remove [OF cm assms(3)] show ?thesis by simp
qed

theorem get_caches_remove_forgets_witness:
  "let p = demo_policy ''true'' None; c = snd (Get ref_compiler p (2, []))
   in (\<exists>cp. fst (Get ref_compiler p c) = Inr cp)
    \<and> fst (Get ref_compiler p (snd (Remove ref_compiler p c))) = compile ref_cel p"
proof -
  let ?p = "demo_policy ''true'' None"
  obtain cp where cp: "fst (Get ref_compiler ?p (2, [])) = Inr cp"
    by (simp add: Get_def compile_and_add_def ref_run list_lru_def)
  have laws: "lru_cache (comp_lru ref_compiler) lc_contents" by (simp add: list_lru_laws)
  from get_caches_remove_forgets [OF laws cp refl]
  have hit: "fst (Get ref_compiler ?p (snd (Get ref_compiler ?p (2, [])))) = Inr cp" by simp
  from get_caches_remove_forgets [OF laws hit refl] hit show ?thesis by (simp add: Let_def)
qed

end
