(* ===== verification/Policy_Eval.thy ===== *)
theory Policy_Eval
  imports Policy_Compiler
begin

section \<open>Evaluating a compiled policy\<close>

text \<open>
  \<^verbatim>\<open>internal/policy/policy.go\<close>: \<open>Matches\<close>, \<open>Extract\<close> and the three evaluators of CEL results. An activation
  is the map of variables given to \<open>Eval\<close>.
\<close>

record pipeline_values =
  pv_target :: target
  pv_downloaderParams :: "param_setting list"
  pv_profileParams :: "param_setting list"

abbreviation report_act :: "'v report \<Rightarrow> (string \<rightharpoonup> 'v any)" where
  "report_act r \<equiv> [''report'' \<mapsto> AMap r]"

abbreviation each_act :: "'v report \<Rightarrow> 'v any \<Rightarrow> (string \<rightharpoonup> 'v any)" where
  "each_act r e \<equiv> [''report'' \<mapsto> AMap r, ''each'' \<mapsto> e]"

definition Matches :: "('a, 'p, 'v) cel \<Rightarrow> 'p compiled_policy \<Rightarrow> 'v report \<Rightarrow> bool res" where
  "Matches env c report =
     (case prog_eval env (cp_matchCondition c) (report_act report) of
        Inl e \<Rightarrow> Inl e
      | Inr v \<Rightarrow>
          (case val_value env v of
             ABool matched \<Rightarrow> Inr matched
           | _ \<Rightarrow> Inl (ErrMsg (''expected match condition to result in boolean, got ''
                              @ val_typeName env v))))"

definition evalForEach :: "('a, 'p, 'v) cel \<Rightarrow> 'p \<Rightarrow> 'v report \<Rightarrow> 'v any list res" where
  "evalForEach env p report =
     (case prog_eval env p (report_act report) of
        Inl e \<Rightarrow> Inl e
      | Inr val \<Rightarrow>
          (case val_value env val of
             ASlice v \<Rightarrow> Inr v
           | ARefVals v \<Rightarrow> Inr (map (val_value env) v)
           | v \<Rightarrow> Inl (ErrMsg (''invalid type returned for 'forEach' , expected list but got ''
                              @ type_name v))))"

text \<open>\<open>for k, v := range m\<close>: one setting per entry, in the order of the range.\<close>

definition settings_of :: "(string \<times> string) list \<Rightarrow> param_setting list" where
  "settings_of m = map (\<lambda>(k, v). \<lparr>ps_name = k, ps_value = v\<rparr>) m"

definition evalParameters ::
  "('a, 'p, 'v) cel \<Rightarrow> 'p \<Rightarrow> (string \<rightharpoonup> 'v any) \<Rightarrow> param_setting list res" where
  "evalParameters env p activation =
     (case prog_eval env p activation of
        Inl e \<Rightarrow> Inl e
      | Inr val \<Rightarrow>
          (case val_native env val of
             Inl e \<Rightarrow> Inl (ErrWrap (''failed to marshal parameters from '' @ val_show env ''%v'' val @ '': '') e '''')
           | Inr (NOther t) \<Rightarrow> Inl (ErrMsg (''failed to marshal parameters, got unexpected type '' @ t))
           | Inr (NStrMap m) \<Rightarrow> Inr (settings_of m)))"

definition evalTarget :: "('a, 'p, 'v) cel \<Rightarrow> 'p \<Rightarrow> (string \<rightharpoonup> 'v any) \<Rightarrow> target res" where
  "evalTarget env p activation =
     (case prog_eval env p activation of
        Inl e \<Rightarrow> Inl e
      | Inr val \<Rightarrow>
          (case val_native env val of
             Inl e \<Rightarrow> Inl (ErrWrap (''failed to marshal target from value '' @ val_show env ''%s'' val @ '': '') e '''')
           | Inr (NOther t) \<Rightarrow> Inl (ErrMsg (''failed to marshal target, got unexpected type '' @ t))
           | Inr (NStrMap m) \<Rightarrow>
               (case map_of m ''identifier'' of
                  None \<Rightarrow> Inl (ErrMsg ''target must container identifier'')
                | Some i \<Rightarrow>
                    Inr \<lparr>tgt_identifier = i,
                         tgt_version = (case map_of m ''version'' of None \<Rightarrow> '''' | Some ver \<Rightarrow> ver)\<rparr>)))"

text \<open>The first half of \<open>Extract\<close>: one activation per item of \<open>forEach\<close>, or a single one without it.\<close>

definition activations ::
  "('a, 'p, 'v) cel \<Rightarrow> 'p compiled_policy \<Rightarrow> 'v report \<Rightarrow> (string \<rightharpoonup> 'v any) list res" where
  "activations env c report =
     (case cp_forEach c of
        Some p \<Rightarrow>
          (case evalForEach env p report of
             Inl e \<Rightarrow> Inl (ErrWrap ''failed to evaluate for each expression: '' e '''')
           | Inr each \<Rightarrow> Inr (map (each_act report) each))
      | None \<Rightarrow> Inr [report_act report])"

text \<open>A parameter expression that is nil leaves the parameters nil.\<close>

definition optParameters ::
  "('a, 'p, 'v) cel \<Rightarrow> string \<Rightarrow> 'p option \<Rightarrow> (string \<rightharpoonup> 'v any) \<Rightarrow> param_setting list res" where
  "optParameters env prefix f a =
     (case f of
        None \<Rightarrow> Inr []
      | Some p \<Rightarrow>
          (case evalParameters env p a of
             Inl e \<Rightarrow> Inl (ErrWrap prefix e '''')
           | Inr ps \<Rightarrow> Inr ps))"

text \<open>The body of the second loop.\<close>

definition extract_one ::
  "('a, 'p, 'v) cel \<Rightarrow> 'p compiled_policy \<Rightarrow> (string \<rightharpoonup> 'v any) \<Rightarrow> pipeline_values res" where
  "extract_one env c a =
     (case evalTarget env (cp_target c) a of
        Inl e \<Rightarrow> Inl (ErrWrap ''failed to evaluate target: '' e '''')
      | Inr t \<Rightarrow>
     (case optParameters env ''failed to evaluate profile parameters: '' (cp_profileParams c) a of
        Inl e \<Rightarrow> Inl e
      | Inr pf \<Rightarrow>
     (case optParameters env ''failed to evalulate downloader params: '' (cp_downloaderParams c) a of
        Inl e \<Rightarrow> Inl e
      | Inr dl \<Rightarrow> Inr \<lparr>pv_target = t, pv_downloaderParams = dl, pv_profileParams = pf\<rparr>)))"

definition Extract ::
  "('a, 'p, 'v) cel \<Rightarrow> 'p compiled_policy \<Rightarrow> 'v report \<Rightarrow> pipeline_values list res" where
  "Extract env c report =
     (case activations env c report of
        Inl e \<Rightarrow> Inl e
      | Inr as \<Rightarrow> traverse (extract_one env c) as)"

subsection \<open>Branches\<close>

lemma Matches_Inr_iff:
  "Matches env c r = Inr b \<longleftrightarrow>
     (\<exists>v. prog_eval env (cp_matchCondition c) (report_act r) = Inr v \<and> val_value env v = ABool b)"
  by (auto simp: Matches_def split: sum.splits any.splits)

lemma evalParameters_Inr_iff:
  "evalParameters env p a = Inr ps \<longleftrightarrow>
     (\<exists>v m. prog_eval env p a = Inr v \<and> val_native env v = Inr (NStrMap m) \<and> ps = settings_of m)"
  by (auto simp: evalParameters_def split: sum.splits native.splits)

lemma evalTarget_Inr_iff:
  "evalTarget env p a = Inr t \<longleftrightarrow>
     (\<exists>v m. prog_eval env p a = Inr v \<and> val_native env v = Inr (NStrMap m)
        \<and> map_of m ''identifier'' = Some (tgt_identifier t)
        \<and> tgt_version t = (case map_of m ''version'' of None \<Rightarrow> '''' | Some ver \<Rightarrow> ver))"
  by (cases t) (auto simp: evalTarget_def split: sum.splits native.splits option.splits)

lemma extract_one_Inr_iff:
  "extract_one env c a = Inr pv \<longleftrightarrow>
     evalTarget env (cp_target c) a = Inr (pv_target pv)
   \<and> optParameters env ''failed to evaluate profile parameters: '' (cp_profileParams c) a
       = Inr (pv_profileParams pv)
   \<and> optParameters env ''failed to evalulate downloader params: '' (cp_downloaderParams c) a
       = Inr (pv_downloaderParams pv)"
  by (cases pv) (auto simp: extract_one_def split: sum.splits)

lemma Extract_Inr_iff:
  "Extract env c r = Inr vs \<longleftrightarrow>
     (\<exists>as. activations env c r = Inr as \<and> list_all2 (\<lambda>a v. extract_one env c a = Inr v) as vs)"
  by (auto simp: Extract_def traverse_Inr_iff split: sum.splits)

subsection \<open>Parameter settings\<close>

lemma settings_names: "map ps_name (settings_of m) = map fst m"
  by (simp add: settings_of_def split_beta comp_def)

lemma settings_pairs: "map (\<lambda>s. (ps_name s, ps_value s)) (settings_of m) = m"
  by (simp add: settings_of_def split_beta comp_def)

lemma mset_settings: "mset m = mset m' \<Longrightarrow> mset (settings_of m) = mset (settings_of m')"
  by (simp add: settings_of_def)

lemma map_of_perm:
  assumes "mset m = mset m'" "distinct (map fst m)"
  shows "map_of m k = map_of m' k"
proof -
  have "set m = set m'" using assms(1) by (rule mset_eq_setD)
  moreover have "distinct (map fst m')"
    using assms by (metis mset_eq_imp_distinct_iff mset_map)
  ultimately show ?thesis using assms(2) by (metis map_of_inject_set)
qed

subsection \<open>The order of a map range\<close>

text \<open>
  Go does not fix the order in which \<open>range\<close> visits a map. Two runs of the library are \<open>range_equiv\<close> when
  they differ only in that order: each converted map has the same entries, one per key.
\<close>

fun native_equiv :: "native res \<Rightarrow> native res \<Rightarrow> bool" where
  "native_equiv (Inr (NStrMap m)) (Inr (NStrMap m')) = (mset m = mset m' \<and> distinct (map fst m))"
| "native_equiv x y = (x = y)"

definition range_equiv :: "('a, 'p, 'v) cel \<Rightarrow> ('a, 'p, 'v) cel \<Rightarrow> bool" where
  "range_equiv env env' \<longleftrightarrow>
     prog_eval env = prog_eval env' \<and> val_value env = val_value env' \<and> val_show env = val_show env'
   \<and> (\<forall>v. native_equiv (val_native env v) (val_native env' v))"

definition values_equiv :: "pipeline_values \<Rightarrow> pipeline_values \<Rightarrow> bool" where
  "values_equiv v w \<longleftrightarrow>
     pv_target v = pv_target w
   \<and> mset (pv_downloaderParams v) = mset (pv_downloaderParams w)
   \<and> mset (pv_profileParams v) = mset (pv_profileParams w)"

lemma native_equivE:
  assumes "native_equiv x y"
  obtains (maps) m m' where "x = Inr (NStrMap m)" "y = Inr (NStrMap m')" "mset m = mset m'"
      "distinct (map fst m)"
  | (same) "x = y" "\<And>m. x \<noteq> Inr (NStrMap m)"
  using assms by (cases "(x, y)" rule: native_equiv.cases) auto

lemma evalTarget_equiv:
  assumes "range_equiv env env'"
  shows "evalTarget env p a = evalTarget env' p a"
proof (cases "prog_eval env p a")
  case (Inl e)
  with assms show ?thesis by (simp add: evalTarget_def range_equiv_def)
next
  case (Inr v)
  from assms have eq: "prog_eval env' = prog_eval env" "val_show env' = val_show env"
    and nat: "native_equiv (val_native env v) (val_native env' v)"
    by (simp_all add: range_equiv_def)
  from nat show ?thesis
  proof (cases rule: native_equivE)
    case (maps m m')
    then have "map_of m = map_of m'" by (intro ext map_of_perm)
    with maps(1,2) eq Inr show ?thesis by (simp add: evalTarget_def split: option.split)
  next
    case same
    with eq Inr show ?thesis by (simp add: evalTarget_def split: sum.split)
  qed
qed

lemma evalParameters_equiv:
  assumes "range_equiv env env'"
  shows "rel_sum (=) (\<lambda>ps qs. mset ps = mset qs) (evalParameters env p a) (evalParameters env' p a)"
proof (cases "prog_eval env p a")
  case (Inl e)
  with assms show ?thesis by (simp add: evalParameters_def range_equiv_def)
next
  case (Inr v)
  from assms have eq: "prog_eval env' = prog_eval env" "val_show env' = val_show env"
    and nat: "native_equiv (val_native env v) (val_native env' v)"
    by (simp_all add: range_equiv_def)
  from nat show ?thesis
  proof (cases rule: native_equivE)
    case (maps m m')
    with mset_settings [OF maps(3)] eq Inr show ?thesis by (simp add: evalParameters_def)
  next
    case same
    with eq Inr have "evalParameters env p a = evalParameters env' p a"
      by (simp add: evalParameters_def split: sum.split)
    then show ?thesis by (simp add: sum.rel_refl)
  qed
qed

lemma optParameters_equiv:
  assumes "range_equiv env env'"
  shows "rel_sum (=) (\<lambda>ps qs. mset ps = mset qs) (optParameters env pre f a) (optParameters env' pre f a)"
proof (cases f)
  case None
  then show ?thesis by (simp add: optParameters_def)
next
  case (Some p)
  with evalParameters_equiv [OF assms, of p a] show ?thesis
    by (auto simp: optParameters_def elim!: rel_sum.cases)
qed

lemma extract_one_equiv:
  assumes "range_equiv env env'"
  shows "rel_sum (=) values_equiv (extract_one env c a) (extract_one env' c a)"
  using optParameters_equiv [OF assms, of "''failed to evaluate profile parameters: ''" "cp_profileParams c" a]
    optParameters_equiv [OF assms, of "''failed to evalulate downloader params: ''" "cp_downloaderParams c" a]
  by (auto simp: extract_one_def values_equiv_def evalTarget_equiv [OF assms] split: sum.splits)

lemma traverse_rel:
  "(\<And>x. rel_sum (=) P (f x) (g x)) \<Longrightarrow> rel_sum (=) (list_all2 P) (traverse f xs) (traverse g xs)"
proof (induction xs)
  case Nil
  then show ?case by simp
next
  case (Cons x xs)
  from Cons.prems [of x] Cons.IH [OF Cons.prems] show ?case
    by (auto elim!: rel_sum.cases)
qed

lemma evalForEach_equiv:
  assumes "range_equiv env env'"
  shows "evalForEach env p r = evalForEach env' p r"
proof -
  from assms have eq: "prog_eval env = prog_eval env'" "val_value env = val_value env'"
    by (simp_all add: range_equiv_def)
  show ?thesis unfolding evalForEach_def eq by (rule refl)
qed

lemma activations_equiv: "range_equiv env env' \<Longrightarrow> activations env c r = activations env' c r"
  by (simp add: activations_def evalForEach_equiv split: option.split)

subsection \<open>Properties of evaluation\<close>

text \<open>
  \<open>Matches\<close> decides by the evaluated match condition alone: it answers \<open>b\<close> without an error exactly
  when the condition evaluates to the boolean \<open>b\<close>; a failed evaluation is passed on unchanged and any
  other value is an error that names its CEL type, never a match.
\<close>

theorem matches_spec:
  "Matches env c r =
     (case prog_eval env (cp_matchCondition c) [''report'' \<mapsto> AMap r] of
        Inl e \<Rightarrow> Inl e
      | Inr v \<Rightarrow>
          if \<exists>b. val_value env v = ABool b then Inr (val_value env v = ABool True)
          else Inl (ErrMsg (''expected match condition to result in boolean, got '' @ val_typeName env v)))"
  by (auto simp: Matches_def split: sum.splits any.splits)

text \<open>
  C14. \<open>Extract\<close> gives one result per item: without \<open>forEach\<close> exactly one, evaluated on the report; with it
  one per item of the evaluated list, in the list's order, the \<open>i\<close>-th evaluated with \<open>each\<close> bound to the
  \<open>i\<close>-th item (a CEL list is unpacked to the values of its elements).
\<close>

theorem extract_pointwise:
  assumes "Extract env c r = Inr vs"
  shows "(cp_forEach c = None \<longrightarrow>
            (\<exists>v. vs = [v] \<and> extract_one env c [''report'' \<mapsto> AMap r] = Inr v))
    \<and> (\<forall>p. cp_forEach c = Some p \<longrightarrow>
        (\<exists>items. evalForEach env p r = Inr items \<and> length vs = length items
           \<and> (\<forall>i < length items.
                extract_one env c [''report'' \<mapsto> AMap r, ''each'' \<mapsto> items ! i] = Inr (vs ! i))))"
proof -
  from assms obtain acts where acts: "activations env c r = Inr acts"
    and tr: "traverse (extract_one env c) acts = Inr vs"
    by (auto simp: Extract_def split: sum.splits)
  show ?thesis
  proof (cases "cp_forEach c")
    case None
    with acts have "acts = [report_act r]" by (simp add: activations_def)
    with tr None show ?thesis by (simp split: sum.splits)
  next
    case (Some p)
    with acts obtain items where items: "evalForEach env p r = Inr items"
      and a: "acts = map (each_act r) items"
      by (auto simp: activations_def split: sum.splits)
    have "extract_one env c (each_act r (items ! i)) = Inr (vs ! i)" if "i < length items" for i
      using traverse_nth [OF tr, of i] that by (simp add: a)
    with items traverse_length [OF tr] a Some show ?thesis by simp
  qed
qed

definition demo_report :: "rval report" where
  "demo_report = [''_ACTION_ID'' \<mapsto> AString ''a1'', ''_IMAGE'' \<mapsto> AString ''img'',
     ''_PARAMS'' \<mapsto> AOpaque ''map'' (RMap [(''SBOM'', ''1''), (''SAST'', [])]),
     ''_ITEMS'' \<mapsto> ARefVals [RStr ''x'', RStr ''y'']]"

definition demo_compiled :: "string compiled_policy" where
  "demo_compiled = \<lparr>cp_observedGeneration = 1, cp_matchCondition = ''true'', cp_target = ''each'',
     cp_forEach = Some ''_ITEMS'', cp_downloaderParams = None, cp_profileParams = Some ''_PARAMS''\<rparr>"

lemmas demo_eval_defs = demo_report_def demo_compiled_def demo_defs Extract_def activations_def
  evalForEach_def extract_one_def evalTarget_def optParameters_def evalParameters_def settings_of_def

theorem extract_pointwise_witness:
  "\<exists>vs. Extract ref_cel demo_compiled demo_report = Inr vs \<and> map (tgt_identifier \<circ> pv_target) vs = [''x'', ''y'']
     \<and> extract_one ref_cel demo_compiled
          [''report'' \<mapsto> AMap demo_report, ''each'' \<mapsto> AString ''y''] = Inr (vs ! 1)"
proof -
  obtain vs where vs: "Extract ref_cel demo_compiled demo_report = Inr vs"
    and ids: "map (tgt_identifier \<circ> pv_target) vs = [''x'', ''y'']"
    by (simp add: demo_eval_defs)
  have each: "cp_forEach demo_compiled = Some ''_ITEMS''" by (simp add: demo_compiled_def)
  have items: "evalForEach ref_cel ''_ITEMS'' demo_report = Inr [AString ''x'', AString ''y'']"
    by (simp add: demo_eval_defs)
  from extract_pointwise [OF vs] each items
  have "extract_one ref_cel demo_compiled
          [''report'' \<mapsto> AMap demo_report, ''each'' \<mapsto> [AString ''x'', AString ''y''] ! 1] = Inr (vs ! 1)"
    by fastforce
  with vs ids show ?thesis by simp
qed

text \<open>
  A reference for what can fail: the errors of all expressions of an item, in the order in which the code evaluates them, with no
  expression skipped after a failure.
\<close>

definition expr_errors :: "('a, 'p, 'v) cel \<Rightarrow> 'p compiled_policy \<Rightarrow> (string \<rightharpoonup> 'v any) \<Rightarrow> goerr list" where
  "expr_errors env c a =
     (case evalTarget env (cp_target c) a of
        Inl x \<Rightarrow> [ErrWrap ''failed to evaluate target: '' x ''''] | Inr t \<Rightarrow> [])
   @ (case cp_profileParams c of
        None \<Rightarrow> []
      | Some p \<Rightarrow>
          (case evalParameters env p a of
             Inl x \<Rightarrow> [ErrWrap ''failed to evaluate profile parameters: '' x ''''] | Inr ps \<Rightarrow> []))
   @ (case cp_downloaderParams c of
        None \<Rightarrow> []
      | Some p \<Rightarrow>
          (case evalParameters env p a of
             Inl x \<Rightarrow> [ErrWrap ''failed to evalulate downloader params: '' x ''''] | Inr ps \<Rightarrow> []))"

lemma extract_one_Inl_iff: "extract_one env c a = Inl e \<longleftrightarrow> (\<exists>es. expr_errors env c a = e # es)"
  by (auto simp: extract_one_def expr_errors_def optParameters_def split: sum.split option.split)

lemma traverse_first_error:
  assumes "\<And>x e. f x = Inl e \<longleftrightarrow> (\<exists>es. g x = e # es)"
  shows "traverse f xs = Inl e \<longleftrightarrow> (\<exists>es. concat (map g xs) = e # es)"
proof (induction xs)
  case (Cons x xs)
  show ?case
  proof (cases "g x")
    case Nil
    with assms [of x] obtain y where "f x = Inr y" by (cases "f x") auto
    with Nil Cons show ?thesis by (auto split: sum.split)
  next
    case (Cons d es)
    with assms [of x d] show ?thesis by simp
  qed
qed simp

text \<open>
  C31. Which error \<open>Extract\<close> gives. It fails exactly when \<open>forEach\<close> fails, with that error wrapped, or when some expression fails on
  some item; and then with the very first of all these errors: items in order (the one report without \<open>forEach\<close>,
  else each item bound to \<open>each\<close>), and for an item the target, then the profile's parameters, then the downloader's,
  each wrapped in its own message.
\<close>

theorem extract_first_error:
  "Extract env c r = Inl e \<longleftrightarrow>
     (\<exists>p x. cp_forEach c = Some p \<and> evalForEach env p r = Inl x
        \<and> e = ErrWrap ''failed to evaluate for each expression: '' x '''')
   \<or> (\<exists>acts es.
        (cp_forEach c = None \<and> acts = [[''report'' \<mapsto> AMap r]]
         \<or> (\<exists>p items. cp_forEach c = Some p \<and> evalForEach env p r = Inr items
              \<and> acts = map (\<lambda>x. [''report'' \<mapsto> AMap r, ''each'' \<mapsto> x]) items))
      \<and> concat (map (expr_errors env c) acts) = e # es)"
proof (cases "activations env c r")
  case (Inl x)
  then show ?thesis by (auto simp: Extract_def activations_def split: option.splits sum.splits)
next
  case (Inr acts)
  have "Extract env c r = Inl e \<longleftrightarrow> (\<exists>es. concat (map (expr_errors env c) acts) = e # es)"
    using Inr traverse_first_error [of "extract_one env c" "expr_errors env c", OF extract_one_Inl_iff]
    by (simp add: Extract_def)
  with Inr show ?thesis by (auto simp: activations_def split: option.splits sum.splits)
qed

theorem extract_first_error_witness:
  "\<exists>x. Extract ref_cel (demo_compiled\<lparr>cp_target := ''_MISSING''\<rparr>) demo_report
       = Inl (ErrWrap ''failed to evaluate target: '' x '''')
     \<and> evalTarget ref_cel ''_MISSING'' [''report'' \<mapsto> AMap demo_report, ''each'' \<mapsto> AString ''x''] = Inl x"
proof -
  let ?c = "demo_compiled\<lparr>cp_target := ''_MISSING''\<rparr>"
  let ?acts = "map (\<lambda>x. [''report'' \<mapsto> AMap demo_report, ''each'' \<mapsto> x]) [AString ''x'', AString ''y'']"
  have acts: "\<exists>p. cp_forEach ?c = Some p \<and> evalForEach ref_cel p demo_report = Inr [AString ''x'', AString ''y'']"
    by (simp add: demo_eval_defs)
  obtain x where x: "evalTarget ref_cel ''_MISSING'' (hd ?acts) = Inl x" by (simp add: demo_eval_defs)
  then have "\<exists>es. concat (map (expr_errors ref_cel ?c) ?acts) = ErrWrap ''failed to evaluate target: '' x '''' # es"
    by (simp add: expr_errors_def)
  with acts have "Extract ref_cel ?c demo_report = Inl (ErrWrap ''failed to evaluate target: '' x '''')"
    unfolding extract_first_error by blast
  with x show ?thesis by auto
qed

text \<open>
  \<open>evalParameters\<close> loses and invents nothing: on a value that converts to a string map (one entry per
  key), the settings have pairwise distinct names, and reading them back as a map gives the map.
\<close>

theorem evalParameters_roundtrip:
  assumes "prog_eval env p a = Inr v" "val_native env v = Inr (NStrMap m)" "distinct (map fst m)"
  shows "\<exists>ps. evalParameters env p a = Inr ps \<and> distinct (map ps_name ps)
           \<and> map_of (map (\<lambda>s. (ps_name s, ps_value s)) ps) = map_of m"
  using assms by (simp add: evalParameters_def settings_names settings_pairs)

theorem evalParameters_roundtrip_witness:
  "\<exists>ps. evalParameters ref_cel ''_PARAMS'' [''report'' \<mapsto> AMap demo_report] = Inr ps
     \<and> map_of (map (\<lambda>s. (ps_name s, ps_value s)) ps) = [''SBOM'' \<mapsto> ''1'', ''SAST'' \<mapsto> []]"
proof -
  have ev: "prog_eval ref_cel ''_PARAMS'' [''report'' \<mapsto> AMap demo_report]
      = Inr (RMap [(''SBOM'', ''1''), (''SAST'', [])])"
    by (simp add: demo_eval_defs)
  have nat: "val_native ref_cel (RMap [(''SBOM'', ''1''), (''SAST'', [])])
      = Inr (NStrMap [(''SBOM'', ''1''), (''SAST'', [])])"
    by (simp add: ref_cel_def)
  have "distinct (map fst [(''SBOM'', ''1''), (''SAST'', [])])" by simp
  from evalParameters_roundtrip [OF ev nat this] show ?thesis
    by (auto simp: fun_eq_iff)
qed

text \<open>
  C32. The unspecified order of Go's map iteration cannot change what is extracted beyond the order of a
  pipeline's parameters: for two runs that differ in that order only, \<open>Extract\<close> fails with the same error
  or gives results that agree one by one in the target and in the multisets of the parameters.
\<close>

theorem extract_range_order:
  assumes "range_equiv env env'"
  shows "rel_sum (=) (list_all2 values_equiv) (Extract env c r) (Extract env' c r)"
proof (cases "activations env c r")
  case (Inl e)
  moreover have "activations env' c r = Inl e"
    using Inl activations_equiv [OF assms, of c r] by simp
  ultimately show ?thesis by (simp add: Extract_def)
next
  case (Inr acts)
  moreover have "activations env' c r = Inr acts"
    using Inr activations_equiv [OF assms, of c r] by simp
  ultimately show ?thesis
    by (simp add: Extract_def traverse_rel extract_one_equiv [OF assms])
qed

fun rev_native :: "native res \<Rightarrow> native res" where
  "rev_native (Inr (NStrMap m)) = Inr (NStrMap (rev m))"
| "rev_native x = x"

fun rval_maps_ok :: "rval \<Rightarrow> bool" where
  "rval_maps_ok (RMap m) = distinct (map fst m)"
| "rval_maps_ok v = True"

definition safe_native :: "rval \<Rightarrow> native res" where
  "safe_native v = (if rval_maps_ok v then rval_native v else Inl (ErrMsg ''duplicate key''))"

theorem extract_range_order_witness:
  "let env = ref_cel\<lparr>val_native := safe_native\<rparr>;
       env' = ref_cel\<lparr>val_native := \<lambda>v. rev_native (safe_native v)\<rparr>
   in Extract env demo_compiled demo_report \<noteq> Extract env' demo_compiled demo_report
    \<and> rel_sum (=) (list_all2 values_equiv) (Extract env demo_compiled demo_report)
        (Extract env' demo_compiled demo_report)"
proof -
  let ?env = "ref_cel\<lparr>val_native := safe_native\<rparr>"
  let ?env' = "ref_cel\<lparr>val_native := \<lambda>v. rev_native (safe_native v)\<rparr>"
  have "native_equiv (safe_native v) (rev_native (safe_native v))" for v
    by (cases v) (simp_all add: safe_native_def)
  then have "range_equiv ?env ?env'" by (simp add: range_equiv_def)
  note extract_range_order [OF this, of demo_compiled demo_report]
  moreover have "Extract ?env demo_compiled demo_report \<noteq> Extract ?env' demo_compiled demo_report"
    by (simp add: demo_eval_defs safe_native_def)
  ultimately show ?thesis by (simp add: Let_def)
qed

end
