(* ===== verification/Scheduler.thy ===== *)
theory Scheduler
  imports Policy_Eval
begin

section \<open>The report scheduler\<close>

text \<open>
  \<^verbatim>\<open>internal/reports\<close>: \<^verbatim>\<open>pipelines.go\<close> (what a report generates), \<^verbatim>\<open>scheduler.go\<close> (processing an event).
  The Kubernetes client is the record \<open>kclient\<close> of its calls on an external world \<open>'w\<close>, which every call
  may read and change; the event recorder and the metrics are state, the compiler's cache too.
\<close>

subsection \<open>Environment and state\<close>

text \<open>
  \<open>cl_get kind namespace name\<close>, \<open>cl_list_pipelines label field\<close> (the two selectors), \<open>cl_list_policies\<close>,
  and \<open>cl_create\<close>, which gives the object as the server returned it.
\<close>

record ('w, 'x) kclient =
  cl_get :: "string \<Rightarrow> string \<Rightarrow> string \<Rightarrow> 'w \<Rightarrow> goerr option \<times> 'w"
  cl_list_pipelines :: "string \<times> string \<Rightarrow> string \<times> string \<Rightarrow> 'w \<Rightarrow> 'x pipeline list res \<times> 'w"
  cl_list_policies :: "'w \<Rightarrow> 'x policy list res \<times> 'w"
  cl_create :: "'x pipeline \<Rightarrow> 'w \<Rightarrow> 'x pipeline res \<times> 'w"

text \<open>An event on a policy, given by its namespace and name.\<close>

record k8s_event =
  ev_regarding :: "string \<times> string"
  ev_type :: string
  ev_reason :: string
  ev_action :: string
  ev_note :: string

text \<open>
  The Prometheus metrics. \<open>schedulerPipelinesCreated\<close> is a vector: a series, by its labels (profile,
  policy, namespace), exists once \<open>With\<close> has named it.
\<close>

record sched_metrics =
  schedulerEventsRecieved :: nat
  schedulerReportsRecieved :: nat
  schedulerReportErrors :: nat
  schedulerPipelinesCreated :: "string \<times> string \<times> string \<rightharpoonup> nat"

record ('c, 'w) sstate =
  st_cache :: 'c
  st_world :: 'w
  st_events :: "k8s_event list"
  st_metrics :: sched_metrics

text \<open>The \<open>Scheduler\<close> struct, with \<open>meta.IsStatusConditionTrue\<close>.\<close>

record ('a, 'p, 'v, 'c, 'w, 'x) scheduler =
  rejectPipelineThreshold :: int
  maxPipelinesPerPolicy :: int
  mgrClient :: "('w, 'x) kclient"
  policyCompiler :: "('a, 'p, 'v, 'c) compiler"
  isConditionTrue :: "condition list \<Rightarrow> string \<Rightarrow> bool"

text \<open>
  \<open>NewScheduler\<close>: the field indexer of the manager may refuse the index. The event bus it makes is the
  step relation of \<^verbatim>\<open>Sqs_Listener\<close>.
\<close>

definition NewScheduler ::
  "goerr option \<Rightarrow> ('w, 'x) kclient \<Rightarrow> (condition list \<Rightarrow> string \<Rightarrow> bool) \<Rightarrow> ('a, 'p, 'v, 'c) compiler \<Rightarrow> int \<Rightarrow> int
     \<Rightarrow> ('a, 'p, 'v, 'c, 'w, 'x) scheduler res" where
  "NewScheduler indexField client isTrue C threshold maxPipelines =
     (case indexField of
        Some err \<Rightarrow> Inl err
      | None \<Rightarrow>
          Inr \<lparr>rejectPipelineThreshold = threshold, maxPipelinesPerPolicy = maxPipelines,
               mgrClient = client, policyCompiler = C, isConditionTrue = isTrue\<rparr>)"

definition schedulerLabel :: string where
  "schedulerLabel = ''chalk.ocular.crashoverride.run/scheduled-by''"

definition schedulerValue :: string where
  "schedulerValue = ''chalkular-controller''"

definition ErrPipelineThreshold :: goerr where
  "ErrPipelineThreshold = ErrMsg ''rejecting report, active pipeline count at or above threshold''"

definition Eventf ::
  "'x policy \<Rightarrow> string \<Rightarrow> string \<Rightarrow> string \<Rightarrow> string \<Rightarrow> ('c, 'w) sstate \<Rightarrow> ('c, 'w) sstate" where
  "Eventf p eventtype reason action note st =
     st\<lparr>st_events := st_events st @
          [\<lparr>ev_regarding = (pol_namespace p, pol_name p), ev_type = eventtype, ev_reason = reason,
            ev_action = action, ev_note = note\<rparr>]\<rparr>"

text \<open>A call of the client changes the world only.\<close>

definition call :: "('w \<Rightarrow> 'r \<times> 'w) \<Rightarrow> ('c, 'w) sstate \<Rightarrow> 'r \<times> ('c, 'w) sstate" where
  "call f st = (let (r, w) = f (st_world st) in (r, st\<lparr>st_world := w\<rparr>))"

subsection \<open>Pipelines for a report\<close>

record ('v, 'x) generated =
  g_report :: "'v report"
  g_actionID :: string
  g_policy :: "'x policy"
  g_pipelines :: "'x pipeline list"

definition isProfileValid ::
  "('a, 'p, 'v, 'c, 'w, 'x) scheduler \<Rightarrow> 'x policy \<Rightarrow> 'w \<Rightarrow> goerr option \<times> 'w" where
  "isProfileValid S p =
     cl_get (mgrClient S) ''Profile'' (pol_namespace p) (ref_name (sp_profile (template_spec p)))"

definition isDownloaderValid ::
  "('a, 'p, 'v, 'c, 'w, 'x) scheduler \<Rightarrow> 'x policy \<Rightarrow> 'w \<Rightarrow> goerr option \<times> 'w" where
  "isDownloaderValid S p w =
     (let downloaderRef = sp_downloader (template_spec p) in
      if ref_kind downloaderRef \<in> {'''', ''Downloader''} then
        cl_get (mgrClient S) ''Downloader'' (pol_namespace p) (ref_name downloaderRef) w
      else if ref_kind downloaderRef = ''ClusterDownloader'' then
        cl_get (mgrClient S) ''ClusterDownloader'' '''' (ref_name downloaderRef) w
      else (Some (ErrMsg (''unknown downloader kind: '' @ ref_kind downloaderRef)), w))"

definition isPipelineActiveIndexer :: "'x pipeline \<Rightarrow> string list" where
  "isPipelineActiveIndexer p =
     (if pl_startTime p \<noteq> None \<and> pl_completionTime p = None then [''true''] else [''false''])"

definition countActivePipelines ::
  "('a, 'p, 'v, 'c, 'w, 'x) scheduler \<Rightarrow> 'w \<Rightarrow> nat res \<times> 'w" where
  "countActivePipelines S w =
     (case cl_list_pipelines (mgrClient S) (schedulerLabel, schedulerValue) (''status.active'', ''true'') w of
        (Inl e, w1) \<Rightarrow> (Inl (ErrWrap ''failed to list pipelines: '' e ''''), w1)
      | (Inr items, w1) \<Rightarrow> (Inr (length items), w1))"

text \<open>The template instantiated with extracted values. \<open>DeepCopyInto\<close> copies the specification.\<close>

definition build_pipeline :: "string \<Rightarrow> 'x policy \<Rightarrow> pipeline_values \<Rightarrow> 'x pipeline" where
  "build_pipeline actionID policy vs =
     (let t = sp_pipelineTemplate (pol_spec policy);
          sp = pt_spec t; dl = sp_downloader sp; pf = sp_profile sp
      in \<lparr>pl_generateName = ''chalkular-'' @ actionID @ ''-'',
          pl_name = '''',
          pl_namespace = pol_namespace policy,
          pl_labels = (maps_copy Map.empty (pt_labels t))(schedulerLabel \<mapsto> schedulerValue),
          pl_annotations = maps_copy Map.empty (pt_annotations t),
          pl_spec = sp\<lparr>sp_downloader := dl\<lparr>ref_params := ref_params dl @ pv_downloaderParams vs\<rparr>,
                      sp_profile := pf\<lparr>ref_params := ref_params pf @ pv_profileParams vs\<rparr>,
                      sp_target := pv_target vs\<rparr>,
          pl_startTime = None, pl_completionTime = None\<rparr>)"

text \<open>
  The body of the loop over the policies; \<open>None\<close> is a \<open>continue\<close>. The errors of the two validity checks
  are logged and the loop goes on.
\<close>

definition policy_body ::
  "('a, 'p, 'v, 'c, 'w, 'x) scheduler \<Rightarrow> string \<Rightarrow> 'v report \<Rightarrow> 'x policy \<Rightarrow> ('c, 'w) sstate
     \<Rightarrow> ('v, 'x) generated option \<times> ('c, 'w) sstate" where
  "policy_body S actionID report policy st0 =
     (let st1 = snd (call (isDownloaderValid S policy) st0);
          st2 = snd (call (isProfileValid S policy) st1);
          env = comp_env (policyCompiler S)
      in
      if \<not> isConditionTrue S (pol_conditions policy) ''Ready'' then (None, st2)
      else
        (let (r, c) = Get (policyCompiler S) policy (st_cache st2);
             st = st2\<lparr>st_cache := c\<rparr>
         in case r of
              Inl e \<Rightarrow> (None, st)
            | Inr p \<Rightarrow>
           (case Matches env p report of
              Inl e \<Rightarrow>
                (None, Eventf policy ''Warning'' ''PolicyEvalFailed'' ''MatchConditionEval''
                   (''failed to evaluate match condition for action '' @ actionID @ '': '' @ err_text e) st)
            | Inr False \<Rightarrow> (None, st)
            | Inr True \<Rightarrow>
           (case Extract env p report of
              Inl e \<Rightarrow>
                (None, Eventf policy ''Warning'' ''PolicyExtractFailed'' ''ExtractPipelineValues''
                   (''failed to extract pipeline values for action '' @ actionID @ '': '' @ err_text e) st)
            | Inr values \<Rightarrow>
                if 0 < maxPipelinesPerPolicy S \<and> maxPipelinesPerPolicy S < int (length values) then
                  (None, Eventf policy ''Warning'' ''TooManyPipelinesGenerated'' ''ExtractPipelineValues''
                     (''more than '' @ show_nat (length values) @ '' pipelines were generated for action ''
                      @ actionID @ '': exceededs limit of '' @ show_int (maxPipelinesPerPolicy S)) st)
                else
                  (Some \<lparr>g_report = report, g_actionID = actionID, g_policy = policy,
                         g_pipelines = map (build_pipeline actionID policy) values\<rparr>, st)))))"

definition createPipelinesForReport ::
  "('a, 'p, 'v, 'c, 'w, 'x) scheduler \<Rightarrow> 'x policy list \<Rightarrow> string \<Rightarrow> 'v report \<Rightarrow> ('c, 'w) sstate
     \<Rightarrow> ('v, 'x) generated list \<times> ('c, 'w) sstate" where
  "createPipelinesForReport S policies actionID report =
     collect (policy_body S actionID report) policies"

subsection \<open>Processing the reports of an event\<close>

text \<open>The loop over the reports: it returns at the first report without a string action id.\<close>

fun generate_all ::
  "('a, 'p, 'v, 'c, 'w, 'x) scheduler \<Rightarrow> 'x policy list \<Rightarrow> 'v report list \<Rightarrow> ('c, 'w) sstate
     \<Rightarrow> ('v, 'x) generated list res \<times> ('c, 'w) sstate" where
  "generate_all S policies [] st = (Inr [], st)"
| "generate_all S policies (report # reports) st =
     (case report KeyActionID of
        Some (AString actionID) \<Rightarrow>
          (let (generated, st1) = createPipelinesForReport S policies actionID report st;
               (rest, st2) = generate_all S policies reports st1
           in case rest of
                Inl e \<Rightarrow> (Inl e, st2)
              | Inr gs \<Rightarrow> (Inr (generated @ gs), st2))
      | _ \<Rightarrow> (Inl (ErrMsg (''invalid chalk report, missing or invalid key '' @ KeyActionID @ '' found'')), st))"

text \<open>
  \<open>schedulerPipelinesCreated.With(labels)\<close>: makes the series, at 0 when it is new, and adds nothing to it.
\<close>

definition created_with :: "string \<times> string \<times> string \<Rightarrow> sched_metrics \<Rightarrow> sched_metrics" where
  "created_with l m =
     m\<lparr>schedulerPipelinesCreated :=
         (case schedulerPipelinesCreated m l of
            None \<Rightarrow> (schedulerPipelinesCreated m)(l \<mapsto> 0)
          | Some _ \<Rightarrow> schedulerPipelinesCreated m)\<rparr>"

text \<open>The inner loop over one policy's pipelines; \<open>i\<close> is the index of the next one.\<close>

fun create_group ::
  "('a, 'p, 'v, 'c, 'w, 'x) scheduler \<Rightarrow> ('v, 'x) generated \<Rightarrow> nat \<Rightarrow> 'x pipeline list \<Rightarrow> ('c, 'w) sstate
     \<Rightarrow> 'x pipeline list \<times> ('c, 'w) sstate" where
  "create_group S g i [] st = ([], st)"
| "create_group S g i (pipeline # pipelines) st =
     (case call (cl_create (mgrClient S) pipeline) st of
        (Inl e, st1) \<Rightarrow>
          create_group S g (Suc i) pipelines
            (Eventf (g_policy g) ''Warning'' ''FailedToCreatePipeline'' ''CreatePipelineFromReport''
               (''failed to generate pipeline ('' @ show_nat i @ ''/'' @ show_nat (length (g_pipelines g))
                @ '') for report '' @ [CHR 0x27] @ g_actionID g @ [CHR 0x27] @ '': '' @ err_text e) st1)
      | (Inr created, st1) \<Rightarrow>
          (let labels = (ref_name (sp_profile (pl_spec created)), pol_name (g_policy g), pl_namespace created);
               (rest, st2) = create_group S g (Suc i) pipelines
                  (st1\<lparr>st_metrics := created_with labels (st_metrics st1)\<rparr>)
           in (created # rest, st2)))"

text \<open>The outer loop; \<open>created\<close> are the pipelines of the groups before.\<close>

fun create_all ::
  "('a, 'p, 'v, 'c, 'w, 'x) scheduler \<Rightarrow> ('v, 'x) generated list \<Rightarrow> 'x pipeline list \<Rightarrow> ('c, 'w) sstate
     \<Rightarrow> 'x pipeline list \<times> ('c, 'w) sstate" where
  "create_all S [] created st = (created, st)"
| "create_all S (g # gs) created st =
     (let (policyPipelines, st1) = create_group S g 0 (g_pipelines g) st in
      if 0 < length policyPipelines then
        create_all S gs (created @ policyPipelines)
          (Eventf (g_policy g) ''Normal'' ''PipelinesCreated'' ''CreatePipelineFromReport''
             (''report '' @ [CHR 0x27] @ g_actionID g @ [CHR 0x27] @ '' created ''
              @ show_nat (length created) @ '' pipeline'') st1)
      else create_all S gs created st1)"

definition threshold_error :: "nat \<Rightarrow> int \<Rightarrow> goerr" where
  "threshold_error active threshold =
     ErrWrap '''' ErrPipelineThreshold
       ('': currently '' @ show_nat active @ '' active which exceeds threshold of ''
        @ show_int threshold @ '', rejecting event'')"

text \<open>The first guard of \<open>processReports\<close>: the error it returns, if any.\<close>

definition check_threshold ::
  "('a, 'p, 'v, 'c, 'w, 'x) scheduler \<Rightarrow> ('c, 'w) sstate \<Rightarrow> goerr option \<times> ('c, 'w) sstate" where
  "check_threshold S st =
     (if 0 < rejectPipelineThreshold S then
        (case call (countActivePipelines S) st of
           (Inl e, st1) \<Rightarrow> (Some (ErrWrap ''unable to list active pipelines: '' e ''''), st1)
         | (Inr active, st1) \<Rightarrow>
             if rejectPipelineThreshold S \<le> int active
             then (Some (threshold_error active (rejectPipelineThreshold S)), st1)
             else (None, st1))
      else (None, st))"

definition processReports ::
  "('a, 'p, 'v, 'c, 'w, 'x) scheduler \<Rightarrow> 'v report list \<Rightarrow> ('c, 'w) sstate
     \<Rightarrow> goerr option \<times> ('c, 'w) sstate" where
  "processReports S reports st =
     (case check_threshold S st of
        (Some e, st1) \<Rightarrow> (Some e, st1)
      | (None, st1) \<Rightarrow>
     (case call (cl_list_policies (mgrClient S)) st1 of
        (Inl e, st2) \<Rightarrow> (Some (ErrWrap ''unable to list chalk report policies: '' e ''''), st2)
      | (Inr policies, st2) \<Rightarrow>
     (case generate_all S policies reports st2 of
        (Inl e, st3) \<Rightarrow> (Some e, st3)
      | (Inr generated, st3) \<Rightarrow> (None, snd (create_all S generated [] st3)))))"

text \<open>One turn of the loop of \<open>Start\<close> on a received event: the error sent on the result channel.\<close>

definition handle_event ::
  "('a, 'p, 'v, 'c, 'w, 'x) scheduler \<Rightarrow> 'v report list \<Rightarrow> ('c, 'w) sstate
     \<Rightarrow> goerr option \<times> ('c, 'w) sstate" where
  "handle_event S reports st =
     (let m = st_metrics st;
          st1 = st\<lparr>st_metrics := m\<lparr>schedulerEventsRecieved := schedulerEventsRecieved m + 1,
                                   schedulerReportsRecieved := schedulerReportsRecieved m + length reports\<rparr>\<rparr>;
          (err, st2) = processReports S reports st1;
          m2 = st_metrics st2
      in (err, if err \<noteq> None
               then st2\<lparr>st_metrics := m2\<lparr>schedulerReportErrors := schedulerReportErrors m2 + 1\<rparr>\<rparr>
               else st2))"

text \<open>The loop over the events received until the context ends, with the results in order.\<close>

fun serve ::
  "('a, 'p, 'v, 'c, 'w, 'x) scheduler \<Rightarrow> 'v report list list \<Rightarrow> ('c, 'w) sstate
     \<Rightarrow> goerr option list \<times> ('c, 'w) sstate" where
  "serve S [] st = ([], st)"
| "serve S (e # es) st =
     (let (r, st1) = handle_event S e st; (rs, st2) = serve S es st1 in (r # rs, st2))"

subsection \<open>Frames\<close>

lemma call_frame [simp]:
  "st_cache (snd (call f st)) = st_cache st"
  "st_events (snd (call f st)) = st_events st"
  "st_metrics (snd (call f st)) = st_metrics st"
  "st_world (snd (call f st)) = snd (f (st_world st))"
  "fst (call f st) = fst (f (st_world st))"
  by (simp_all add: call_def split_beta Let_def)

lemma Eventf_frame [simp]:
  "st_cache (Eventf p t r a n st) = st_cache st"
  "st_world (Eventf p t r a n st) = st_world st"
  "st_metrics (Eventf p t r a n st) = st_metrics st"
  by (simp_all add: Eventf_def)

text \<open>The cases of \<open>policy_body\<close>, as one split.\<close>

lemmas body_splits = sum.splits bool.splits if_splits prod.splits option.splits

lemma policy_body_cache:
  "st_cache (snd (policy_body S a r p st)) =
     (if isConditionTrue S (pol_conditions p) ''Ready''
      then snd (Get (policyCompiler S) p (st_cache st)) else st_cache st)"
  by (simp add: policy_body_def Let_def split_beta split: sum.split bool.split)

lemma policy_body_metrics: "st_metrics (snd (policy_body S a r p st)) = st_metrics st"
  by (simp add: policy_body_def Let_def split_beta split: sum.split bool.split)

lemma policy_body_world:
  "st_world (snd (policy_body S a r p st)) =
     snd (isProfileValid S p (snd (isDownloaderValid S p (st_world st))))"
  by (simp add: policy_body_def Let_def split_beta split: sum.split bool.split)

subsection \<open>What a policy generates\<close>

text \<open>
  The specification of the loop body: a function of the policy, the report and the limit. Neither the
  cluster nor the cache appears in it.
\<close>

definition within_limit :: "('a, 'p, 'v, 'c, 'w, 'x) scheduler \<Rightarrow> nat \<Rightarrow> bool" where
  "within_limit S n \<longleftrightarrow> maxPipelinesPerPolicy S \<le> 0 \<or> int n \<le> maxPipelinesPerPolicy S"

definition generates ::
  "('a, 'p, 'v, 'c, 'w, 'x) scheduler \<Rightarrow> string \<Rightarrow> 'v report \<Rightarrow> 'x policy
     \<Rightarrow> ('v, 'x) generated option" where
  "generates S actionID report policy =
     (let env = comp_env (policyCompiler S) in
      if isConditionTrue S (pol_conditions policy) ''Ready'' then
        (case compile env policy of
           Inl e \<Rightarrow> None
         | Inr p \<Rightarrow>
             if Matches env p report = Inr True then
               (case Extract env p report of
                  Inl e \<Rightarrow> None
                | Inr values \<Rightarrow>
                    if within_limit S (length values) then
                      Some \<lparr>g_report = report, g_actionID = actionID, g_policy = policy,
                            g_pipelines = map (build_pipeline actionID policy) values\<rparr>
                    else None)
             else None)
      else None)"

lemma policy_body_generates:
  assumes "fst (Get (policyCompiler S) p (st_cache st)) = compile (comp_env (policyCompiler S)) p"
  shows "fst (policy_body S a r p st) = generates S a r p"
  using assms
  by (simp add: policy_body_def generates_def within_limit_def Let_def split_beta
      split: sum.split bool.split)

text \<open>Every group the loop appends, with any cache: what it came from.\<close>

lemma policy_body_Some:
  assumes "fst (policy_body S a r p st) = Some g"
  shows "\<exists>cp vs. isConditionTrue S (pol_conditions p) ''Ready''
    \<and> fst (Get (policyCompiler S) p (st_cache st)) = Inr cp
    \<and> Matches (comp_env (policyCompiler S)) cp r = Inr True
    \<and> Extract (comp_env (policyCompiler S)) cp r = Inr vs
    \<and> within_limit S (length vs)
    \<and> g = \<lparr>g_report = r, g_actionID = a, g_policy = p, g_pipelines = map (build_pipeline a p) vs\<rparr>"
  using assms
  by (auto simp: policy_body_def within_limit_def Let_def split_beta split: body_splits)

subsection \<open>The scheduler as a client of the policy compiler\<close>

locale scheduler_model =
  policy_source "Get (policyCompiler S)" inv served "compile (comp_env (policyCompiler S))"
  for S :: "('a, 'p, 'v, 'c, 'w, 'x) scheduler" and inv :: "'c \<Rightarrow> bool"
    and served :: "'x policy set"
begin

lemma body_step:
  assumes "p \<in> served" "inv (st_cache st)"
  shows "fst (policy_body S a r p st) = generates S a r p \<and> inv (st_cache (snd (policy_body S a r p st)))"
  using assms by (simp add: policy_body_generates get_spec policy_body_cache get_inv)

lemma createPipelines_spec:
  assumes "set policies \<subseteq> served" "inv (st_cache st)"
  shows "fst (createPipelinesForReport S policies a r st) = List.map_filter (generates S a r) policies"
  unfolding createPipelinesForReport_def
  by (rule collect_pure [where I = "\<lambda>st. inv (st_cache st)"]) (use assms body_step in auto)

lemma createPipelines_inv:
  assumes "set policies \<subseteq> served" "inv (st_cache st)"
  shows "inv (st_cache (snd (createPipelinesForReport S policies a r st)))"
  unfolding createPipelinesForReport_def
  by (rule collect_invariant [where I = "\<lambda>st. inv (st_cache st)"]) (use assms body_step in auto)

end

interpretation sm: scheduler_model
  "\<lparr>rejectPipelineThreshold = thr, maxPipelinesPerPolicy = mx, mgrClient = cl,
    policyCompiler = \<lparr>comp_env = env, comp_lru = list_lru\<rparr>, isConditionTrue = ready\<rparr>"
  "\<lambda>c. coherent env {p. pol_spec p = f (pol_uid p) (pol_generation p)} (lc_contents c)"
  "{p. pol_spec p = f (pol_uid p) (pol_generation p)}"
  for thr mx :: int and cl :: "('w, 'x) kclient" and env :: "('a, 'p, 'v) cel"
    and ready :: "condition list \<Rightarrow> string \<Rightarrow> bool" and f :: "string \<Rightarrow> int \<Rightarrow> 'x policy_spec"
  unfolding scheduler_model_def using pc.get_contract by simp

subsection \<open>Reports and their action ids\<close>

definition action_id :: "'v report \<Rightarrow> string option" where
  "action_id r = (case r KeyActionID of Some (AString a) \<Rightarrow> Some a | _ \<Rightarrow> None)"

definition invalid_report :: goerr where
  "invalid_report = ErrMsg (''invalid chalk report, missing or invalid key '' @ KeyActionID @ '' found'')"

lemma generate_all_Cons:
  "generate_all S policies (r # rs) st =
     (case action_id r of
        None \<Rightarrow> (Inl invalid_report, st)
      | Some a \<Rightarrow>
          (let (gs, st1) = createPipelinesForReport S policies a r st;
               (rest, st2) = generate_all S policies rs st1
           in case rest of Inl e \<Rightarrow> (Inl e, st2) | Inr hs \<Rightarrow> (Inr (gs @ hs), st2)))"
  by (auto simp: action_id_def invalid_report_def split: option.splits any.splits)

lemmas generate_all_eqs = generate_all.simps(1) generate_all_Cons

declare generate_all.simps [simp del]
declare generate_all_eqs [simp]

text \<open>All that the reports of an event generate, in the order of the code.\<close>

definition planned ::
  "('a, 'p, 'v, 'c, 'w, 'x) scheduler \<Rightarrow> 'x policy list \<Rightarrow> 'v report list \<Rightarrow> ('v, 'x) generated list" where
  "planned S policies reports =
     concat (map (\<lambda>r. List.map_filter (generates S (the (action_id r)) r) policies) reports)"

context scheduler_model begin

lemma generate_all_spec:
  assumes "set policies \<subseteq> served" "inv (st_cache st)"
  shows "fst (generate_all S policies reports st) =
     (if list_all (\<lambda>r. action_id r \<noteq> None) reports then Inr (planned S policies reports)
      else Inl invalid_report)"
  using assms
proof (induction reports arbitrary: st)
  case Nil
  then show ?case by (simp add: planned_def)
next
  case (Cons r rs)
  show ?case
  proof (cases "action_id r")
    case None
    then show ?thesis by simp
  next
    case (Some a)
    obtain gs st1 where c: "createPipelinesForReport S policies a r st = (gs, st1)" by force
    with createPipelines_spec [OF Cons.prems, of a r] createPipelines_inv [OF Cons.prems, of a r]
    have "gs = List.map_filter (generates S a r) policies" "inv (st_cache st1)" by simp_all
    moreover from this Cons.IH [OF Cons.prems(1), of st1]
    have "fst (generate_all S policies rs st1) =
       (if list_all (\<lambda>r. action_id r \<noteq> None) rs then Inr (planned S policies rs) else Inl invalid_report)"
      by simp
    ultimately show ?thesis
      using Some c by (simp add: planned_def Let_def split_beta split: sum.split)
  qed
qed

lemma generate_all_inv:
  assumes "set policies \<subseteq> served" "inv (st_cache st)"
  shows "inv (st_cache (snd (generate_all S policies reports st)))"
  using assms
proof (induction reports arbitrary: st)
  case Nil
  then show ?case by simp
next
  case (Cons r rs)
  then show ?case
    using createPipelines_inv [OF Cons.prems]
    by (simp add: Let_def split_beta split: option.split sum.split)
qed

end

subsection \<open>Creating the pipelines\<close>

definition create_run :: "('w, 'x) kclient \<Rightarrow> 'x pipeline list \<Rightarrow> 'w \<Rightarrow> 'w" where
  "create_run cl ps w = fold (\<lambda>p w. snd (cl_create cl p w)) ps w"

lemma create_run_simps [simp]:
  "create_run cl [] w = w"
  "create_run cl (p # ps) w = create_run cl ps (snd (cl_create cl p w))"
  "create_run cl (ps @ qs) w = create_run cl qs (create_run cl ps w)"
  by (simp_all add: create_run_def)

lemma create_group_world:
  "st_world (snd (create_group S g i ps st)) = create_run (mgrClient S) ps (st_world st)"
  by (induction ps arbitrary: i st) (auto simp: call_def Let_def split_beta split: sum.split)

lemma create_group_cache: "st_cache (snd (create_group S g i ps st)) = st_cache st"
  by (induction ps arbitrary: i st) (auto simp: call_def Let_def split_beta split: sum.split)

lemma create_group_length: "length (fst (create_group S g i ps st)) \<le> length ps"
  by (induction ps arbitrary: i st)
    (auto simp: call_def Let_def split_beta le_SucI split: sum.split)

lemma create_all_world:
  "st_world (snd (create_all S gs created st)) =
     create_run (mgrClient S) (concat (map g_pipelines gs)) (st_world st)"
  by (induction gs arbitrary: created st) (simp_all add: Let_def split_beta create_group_world)

lemma create_all_cache: "st_cache (snd (create_all S gs created st)) = st_cache st"
  by (induction gs arbitrary: created st) (simp_all add: Let_def split_beta create_group_cache)

subsection \<open>Creations that are refused\<close>

text \<open>What the client answers to the creations, one call each, in order.\<close>

fun create_answers :: "('w, 'x) kclient \<Rightarrow> 'x pipeline list \<Rightarrow> 'w \<Rightarrow> 'x pipeline res list" where
  "create_answers cl [] w = []"
| "create_answers cl (p # ps) w = fst (cl_create cl p w) # create_answers cl ps (snd (cl_create cl p w))"

text \<open>The warnings that refused creations leave on the policy of a group; \<open>i\<close> is the index of the next pipeline.\<close>

fun refused :: "('v, 'x) generated \<Rightarrow> nat \<Rightarrow> 'x pipeline res list \<Rightarrow> k8s_event list" where
  "refused g i [] = []"
| "refused g i (Inr created # as) = refused g (Suc i) as"
| "refused g i (Inl e # as) =
     \<lparr>ev_regarding = (pol_namespace (g_policy g), pol_name (g_policy g)), ev_type = ''Warning'',
      ev_reason = ''FailedToCreatePipeline'', ev_action = ''CreatePipelineFromReport'',
      ev_note = ''failed to generate pipeline ('' @ show_nat i @ ''/'' @ show_nat (length (g_pipelines g))
        @ '') for report '' @ [CHR 0x27] @ g_actionID g @ [CHR 0x27] @ '': '' @ err_text e\<rparr> # refused g (Suc i) as"

fun refusals :: "('w, 'x) kclient \<Rightarrow> ('v, 'x) generated list \<Rightarrow> 'w \<Rightarrow> k8s_event list" where
  "refusals cl [] w = []"
| "refusals cl (g # gs) w =
     refused g 0 (create_answers cl (g_pipelines g) w) @ refusals cl gs (create_run cl (g_pipelines g) w)"

definition creation_failed :: "k8s_event \<Rightarrow> bool" where
  "creation_failed e \<longleftrightarrow> ev_reason e = ''FailedToCreatePipeline''"

text \<open>The failures recorded in a state.\<close>

definition failures :: "('c, 'w) sstate \<Rightarrow> k8s_event list" where
  "failures st = filter creation_failed (st_events st)"

text \<open>One for each refusal, and none when every creation is accepted.\<close>

lemma refused_length: "length (refused g i as) = length (filter isl as)"
  by (induction g i as rule: refused.induct) simp_all

lemma refusals_None:
  "\<forall>p w. isl (fst (cl_create cl p w)) = False \<Longrightarrow> refusals cl gs w = []"
proof (induction gs arbitrary: w)
  case (Cons g gs)
  have "\<forall>a \<in> set (create_answers cl ps w). \<not> isl a" for ps w
    using Cons.prems by (induction ps arbitrary: w) auto
  then have "length (refused g 0 (create_answers cl (g_pipelines g) w)) = 0"
    unfolding refused_length by (simp add: filter_empty_conv)
  with Cons show ?case by simp
qed simp

lemma failures_simps [simp]:
  "failures (st\<lparr>st_cache := c\<rparr>) = failures st" "failures (st\<lparr>st_world := w\<rparr>) = failures st"
  "failures (st\<lparr>st_metrics := m\<rparr>) = failures st" "failures (snd (call f st)) = failures st"
  "failures (Eventf p t reason a n st) = failures st @
     (if reason = ''FailedToCreatePipeline''
      then [\<lparr>ev_regarding = (pol_namespace p, pol_name p), ev_type = t, ev_reason = reason, ev_action = a, ev_note = n\<rparr>]
      else [])"
  by (simp_all add: failures_def Eventf_def creation_failed_def)

lemma create_group_failures:
  "failures (snd (create_group S g i ps st)) = failures st @ refused g i (create_answers (mgrClient S) ps (st_world st))"
proof (induction ps arbitrary: i st)
  case (Cons p ps)
  obtain a w where a: "cl_create (mgrClient S) p (st_world st) = (a, w)" by force
  then have "call (cl_create (mgrClient S) p) st = (a, st\<lparr>st_world := w\<rparr>)" by (simp add: call_def)
  with a Cons.IH show ?case by (cases a) (simp_all add: Let_def split_beta)
qed simp

lemma create_all_failures:
  "failures (snd (create_all S gs created st)) = failures st @ refusals (mgrClient S) gs (st_world st)"
  by (induction gs arbitrary: created st)
     (simp_all add: Let_def split_beta create_group_failures create_group_world)

lemma policy_body_failures: "failures (snd (policy_body S a r p st)) = failures st"
  by (simp add: policy_body_def Let_def split_beta split: sum.split bool.split)

lemma generate_all_failures: "failures (snd (generate_all S policies reports st)) = failures st"
proof (induction reports arbitrary: st)
  case (Cons r rs)
  have "failures (snd (createPipelinesForReport S policies a r st)) = failures st" for a
    unfolding createPipelinesForReport_def
    by (rule collect_invariant [where I = "\<lambda>s. failures s = failures st"]) (simp_all add: policy_body_failures)
  with Cons show ?case by (simp add: Let_def split_beta split: option.split sum.split)
qed simp

lemma check_threshold_failures: "failures (snd (check_threshold S st)) = failures st"
  by (simp add: check_threshold_def call_def split_beta Let_def failures_def split: sum.split)

subsection \<open>Reads\<close>

text \<open>Documented of the API: \<open>Get\<close> and \<open>List\<close> do not change the cluster.\<close>

definition reads_only :: "('w, 'x) kclient \<Rightarrow> bool" where
  "reads_only cl \<longleftrightarrow>
     (\<forall>k n m w. snd (cl_get cl k n m w) = w)
   \<and> (\<forall>l f w. snd (cl_list_pipelines cl l f w) = w)
   \<and> (\<forall>w. snd (cl_list_policies cl w) = w)"

lemma reads_onlyD:
  assumes "reads_only cl"
  shows "snd (cl_get cl k n m w) = w" "snd (cl_list_pipelines cl l f w) = w"
    "snd (cl_list_policies cl w) = w"
  using assms unfolding reads_only_def by blast+

lemma validity_world:
  assumes "reads_only (mgrClient S)"
  shows "snd (isProfileValid S p w) = w" "snd (isDownloaderValid S p w) = w"
  using reads_onlyD(1) [OF assms] by (simp_all add: isProfileValid_def isDownloaderValid_def Let_def)

text \<open>
  What the reads of an event do to the world, for any client: the two checks of each policy for each report, up to the first
  report without an action id.
\<close>

definition policy_reads :: "('a, 'p, 'v, 'c, 'w, 'x) scheduler \<Rightarrow> 'x policy \<Rightarrow> 'w \<Rightarrow> 'w" where
  "policy_reads S p w = snd (isProfileValid S p (snd (isDownloaderValid S p w)))"

definition event_reads :: "('a, 'p, 'v, 'c, 'w, 'x) scheduler \<Rightarrow> 'x policy list \<Rightarrow> 'v report list \<Rightarrow> 'w \<Rightarrow> 'w" where
  "event_reads S policies reports w =
     fold (\<lambda>r w. fold (policy_reads S) policies w) (takeWhile (\<lambda>r. action_id r \<noteq> None) reports) w"

lemma collect_world:
  assumes "\<And>x st. st_world (snd (f x st)) = g x (st_world st)"
  shows "st_world (snd (collect f xs st)) = fold g xs (st_world st)"
  using assms by (induction xs arbitrary: st) (simp_all add: Let_def split_beta)

lemma createPipelines_reads:
  "st_world (snd (createPipelinesForReport S policies a r st)) = fold (policy_reads S) policies (st_world st)"
  unfolding createPipelinesForReport_def
  by (rule collect_world) (simp add: policy_body_world policy_reads_def)

lemma generate_all_reads:
  "st_world (snd (generate_all S policies reports st)) = event_reads S policies reports (st_world st)"
  by (induction reports arbitrary: st)
     (simp_all add: event_reads_def Let_def split_beta createPipelines_reads split: option.split sum.split)

lemma fold_ident: "fold (\<lambda>x w. w) xs w = w"
  by (induction xs) simp_all

lemma event_reads_world:
  assumes "reads_only (mgrClient S)"
  shows "event_reads S policies reports w = w"
proof -
  have "policy_reads S p = (\<lambda>w. w)" for p
    by (simp add: policy_reads_def validity_world [OF assms] fun_eq_iff)
  then have "fold (policy_reads S) ps = id" for ps
    by (induction ps) (simp_all add: fun_eq_iff)
  then show ?thesis by (simp add: event_reads_def fold_ident)
qed

lemma generate_all_world:
  "reads_only (mgrClient S) \<Longrightarrow> st_world (snd (generate_all S policies reports st)) = st_world st"
  by (simp add: generate_all_reads event_reads_world)

lemma countActive_world:
  "reads_only (mgrClient S) \<Longrightarrow> snd (countActivePipelines S w) = w"
  by (simp add: countActivePipelines_def split_beta reads_onlyD split: sum.split)

lemma check_threshold_world:
  "reads_only (mgrClient S) \<Longrightarrow> st_world (snd (check_threshold S st)) = st_world st"
  by (simp add: check_threshold_def call_def split_beta countActive_world Let_def split: sum.split)

lemma check_threshold_cache: "st_cache (snd (check_threshold S st)) = st_cache st"
  by (simp add: check_threshold_def call_def split_beta Let_def split: sum.split)

text \<open>The guard lets an event pass when no threshold is set or fewer pipelines are active.\<close>

definition below_threshold :: "('a, 'p, 'v, 'c, 'w, 'x) scheduler \<Rightarrow> 'w \<Rightarrow> bool" where
  "below_threshold S w \<longleftrightarrow>
     rejectPipelineThreshold S \<le> 0
   \<or> (\<exists>items. fst (cl_list_pipelines (mgrClient S) (schedulerLabel, schedulerValue)
                    (''status.active'', ''true'') w) = Inr items
        \<and> int (length items) < rejectPipelineThreshold S)"

lemma check_threshold_None:
  "fst (check_threshold S st) = None \<longleftrightarrow> below_threshold S (st_world st)"
  by (auto simp: check_threshold_def below_threshold_def countActivePipelines_def call_def split_beta
      Let_def split: sum.splits if_splits)

subsection \<open>The specification of an event\<close>

text \<open>
  What an event does, as a function of the reports and the cluster alone, for any client: the threshold, the list of the policies,
  the reads, and the creations of the planned pipelines, where each call may find a cluster that others have changed.
  There is no cache in it, no recorded event and no metric.
\<close>

definition threshold_spec :: "('a, 'p, 'v, 'c, 'w, 'x) scheduler \<Rightarrow> 'w \<Rightarrow> goerr option \<times> 'w" where
  "threshold_spec S w =
     (if 0 < rejectPipelineThreshold S then
        (case cl_list_pipelines (mgrClient S) (schedulerLabel, schedulerValue) (''status.active'', ''true'') w of
           (Inl e, w1) \<Rightarrow> (Some (ErrWrap ''unable to list active pipelines: '' (ErrWrap ''failed to list pipelines: '' e '''') ''''), w1)
         | (Inr items, w1) \<Rightarrow>
             (if rejectPipelineThreshold S \<le> int (length items)
              then Some (threshold_error (length items) (rejectPipelineThreshold S)) else None, w1))
      else (None, w))"

definition event_spec :: "('a, 'p, 'v, 'c, 'w, 'x) scheduler \<Rightarrow> 'v report list \<Rightarrow> 'w \<Rightarrow> goerr option \<times> 'w" where
  "event_spec S reports w =
     (case threshold_spec S w of
        (Some e, w1) \<Rightarrow> (Some e, w1)
      | (None, w1) \<Rightarrow>
     (case cl_list_policies (mgrClient S) w1 of
        (Inl e, w2) \<Rightarrow> (Some (ErrWrap ''unable to list chalk report policies: '' e ''''), w2)
      | (Inr policies, w2) \<Rightarrow>
          (let w3 = event_reads S policies reports w2 in
           if list_all (\<lambda>r. action_id r \<noteq> None) reports
           then (None, create_run (mgrClient S) (concat (map g_pipelines (planned S policies reports))) w3)
           else (Some invalid_report, w3))))"

text \<open>The failures that an event records: those of the creations it gets to.\<close>

definition event_refusals :: "('a, 'p, 'v, 'c, 'w, 'x) scheduler \<Rightarrow> 'v report list \<Rightarrow> 'w \<Rightarrow> k8s_event list" where
  "event_refusals S reports w =
     (case cl_list_policies (mgrClient S) (snd (threshold_spec S w)) of
        (Inl e, w2) \<Rightarrow> []
      | (Inr policies, w2) \<Rightarrow>
          if fst (threshold_spec S w) = None \<and> list_all (\<lambda>r. action_id r \<noteq> None) reports
          then refusals (mgrClient S) (planned S policies reports) (event_reads S policies reports w2) else [])"

text \<open>The API server lists only policies that it serves.\<close>

definition lists_served :: "('w, 'x) kclient \<Rightarrow> 'x policy set \<Rightarrow> bool" where
  "lists_served cl R \<longleftrightarrow> (\<forall>w ps. fst (cl_list_policies cl w) = Inr ps \<longrightarrow> set ps \<subseteq> R)"

lemma lists_servedD: "lists_served cl R \<Longrightarrow> cl_list_policies cl w = (Inr ps, w1) \<Longrightarrow> set ps \<subseteq> R"
  unfolding lists_served_def by (metis fst_conv)

lemma check_threshold_spec:
  "fst (check_threshold S st) = fst (threshold_spec S (st_world st))"
  "st_world (snd (check_threshold S st)) = snd (threshold_spec S (st_world st))"
  by (simp_all add: check_threshold_def threshold_spec_def countActivePipelines_def call_def split_beta Let_def
      split: sum.split)

context scheduler_model begin

lemma processReports_spec:
  assumes "inv (st_cache st)"
    and "\<And>ps w. cl_list_policies (mgrClient S) (snd (threshold_spec S (st_world st))) = (Inr ps, w) \<Longrightarrow> set ps \<subseteq> served"
  shows "(fst (processReports S reports st), st_world (snd (processReports S reports st))) = event_spec S reports (st_world st)"
    and "inv (st_cache (snd (processReports S reports st)))"
proof -
  obtain t st1 where t: "check_threshold S st = (t, st1)" by force
  with check_threshold_spec [of S st] check_threshold_cache [of S st]
  have spec: "threshold_spec S (st_world st) = (t, st_world st1)" "st_cache st1 = st_cache st"
    by (simp_all add: prod_eq_iff)
  obtain l w2 where l: "cl_list_policies (mgrClient S) (st_world st1) = (l, w2)" by force
  let ?st2 = "st1\<lparr>st_world := w2\<rparr>"
  have call: "call (cl_list_policies (mgrClient S)) st1 = (l, ?st2)" using l by (simp add: call_def)
  have inv2: "inv (st_cache ?st2)" using assms(1) spec(2) by simp
  have gen: "fst (generate_all S ps reports ?st2) = (if list_all (\<lambda>r. action_id r \<noteq> None) reports
        then Inr (planned S ps reports) else Inl invalid_report)
      \<and> inv (st_cache (snd (generate_all S ps reports ?st2)))" if "l = Inr ps" for ps
    using generate_all_spec [OF _ inv2] generate_all_inv [OF _ inv2] assms(2) [of ps w2] l spec(1) that by simp
  have world: "st_world (snd (generate_all S ps reports ?st2)) = event_reads S ps reports w2" for ps
    by (simp add: generate_all_reads)
  show "(fst (processReports S reports st), st_world (snd (processReports S reports st))) = event_spec S reports (st_world st)"
    using t spec l call gen world
    by (auto simp: processReports_def event_spec_def create_all_world split_beta Let_def split: option.split sum.split)
  show "inv (st_cache (snd (processReports S reports st)))"
    using t spec inv2 assms(1) l call gen
    by (auto simp: processReports_def create_all_cache split_beta Let_def split: option.split sum.split)
qed

lemma processReports_failures:
  assumes "inv (st_cache st)"
    and "\<And>ps w. cl_list_policies (mgrClient S) (snd (threshold_spec S (st_world st))) = (Inr ps, w) \<Longrightarrow> set ps \<subseteq> served"
  shows "failures (snd (processReports S reports st)) = failures st @ event_refusals S reports (st_world st)"
proof -
  obtain t st1 where t: "check_threshold S st = (t, st1)" by force
  with check_threshold_spec [of S st] check_threshold_cache [of S st] check_threshold_failures [of S st]
  have spec: "fst (threshold_spec S (st_world st)) = t" "snd (threshold_spec S (st_world st)) = st_world st1"
    "st_cache st1 = st_cache st" "failures st1 = failures st" by simp_all
  obtain l w2 where l: "cl_list_policies (mgrClient S) (st_world st1) = (l, w2)" by force
  let ?st2 = "st1\<lparr>st_world := w2\<rparr>"
  have call: "call (cl_list_policies (mgrClient S)) st1 = (l, ?st2)" using l by (simp add: call_def)
  have gen: "fst (generate_all S ps reports ?st2) = (if list_all (\<lambda>r. action_id r \<noteq> None) reports
        then Inr (planned S ps reports) else Inl invalid_report)" if "l = Inr ps" for ps
    using generate_all_spec [of ps ?st2 reports] assms(2) [of ps w2] assms(1) l spec that by simp
  have fails: "failures (snd (generate_all S ps reports ?st2)) = failures st"
    "st_world (snd (generate_all S ps reports ?st2)) = event_reads S ps reports w2" for ps
    by (simp_all add: generate_all_failures generate_all_reads spec)
  show ?thesis
    using t spec l call gen fails
    by (auto simp: processReports_def event_refusals_def create_all_failures split_beta Let_def split: option.split sum.split)
qed

end

text \<open>When reads leave the cluster alone and the guard passes, an event is all or nothing.\<close>

lemma threshold_spec_quiet:
  assumes "reads_only (mgrClient S)"
  shows "snd (threshold_spec S w) = w" "fst (threshold_spec S w) = None \<longleftrightarrow> below_threshold S w"
  using reads_onlyD(2) [OF assms]
  by (auto simp: threshold_spec_def below_threshold_def split_beta split: sum.splits)

lemma event_spec_quiet:
  assumes "reads_only (mgrClient S)"
  shows "below_threshold S w \<Longrightarrow> fst (cl_list_policies (mgrClient S) w) = Inr policies \<Longrightarrow>
      event_spec S reports w =
        (if list_all (\<lambda>r. action_id r \<noteq> None) reports
         then (None, create_run (mgrClient S) (concat (map g_pipelines (planned S policies reports))) w)
         else (Some invalid_report, w))"
    and "\<not> below_threshold S w \<or> fst (cl_list_policies (mgrClient S) w) = Inl e \<Longrightarrow>
      fst (event_spec S reports w) \<noteq> None \<and> snd (event_spec S reports w) = w"
proof -
  obtain t where t: "threshold_spec S w = (t, w)" "t = None \<longleftrightarrow> below_threshold S w"
    using threshold_spec_quiet [OF assms, of w] by (metis prod.collapse)
  obtain l where l: "cl_list_policies (mgrClient S) w = (l, w)"
    using reads_onlyD(3) [OF assms, of w] by (metis prod.collapse)
  show "event_spec S reports w =
        (if list_all (\<lambda>r. action_id r \<noteq> None) reports
         then (None, create_run (mgrClient S) (concat (map g_pipelines (planned S policies reports))) w)
         else (Some invalid_report, w))"
    if "below_threshold S w" "fst (cl_list_policies (mgrClient S) w) = Inr policies"
    using t l that by (simp add: event_spec_def event_reads_world [OF assms] Let_def)
  show "fst (event_spec S reports w) \<noteq> None \<and> snd (event_spec S reports w) = w"
    if "\<not> below_threshold S w \<or> fst (cl_list_policies (mgrClient S) w) = Inl e"
    using t l that
    by (cases t; cases l) (auto simp: event_spec_def event_reads_world [OF assms] Let_def)
qed

subsection \<open>A reference cluster\<close>

text \<open>
  An executable cluster for the witnesses: the world is the list of the pipelines; a new one is active at
  once; the namespace \<open>denied\<close> refuses creation; the policies are fixed.
\<close>

definition ref_client :: "unit policy list \<Rightarrow> (unit pipeline list, unit) kclient" where
  "ref_client policies = \<lparr>cl_get = (\<lambda>k n m w. (None, w)),
     cl_list_pipelines = (\<lambda>(l, v) (f, a) w.
        (Inr (filter (\<lambda>p. pl_labels p l = Some v \<and> a \<in> set (isPipelineActiveIndexer p)) w), w)),
     cl_list_policies = (\<lambda>w. (Inr policies, w)),
     cl_create = (\<lambda>p w.
        if pl_namespace p = ''denied'' then (Inl (ErrMsg ''forbidden''), w)
        else let q = p\<lparr>pl_name := pl_generateName p @ show_nat (length w), pl_startTime := Some 0\<rparr>
             in (Inr q, w @ [q]))\<rparr>"

definition ref_ready :: "condition list \<Rightarrow> string \<Rightarrow> bool" where
  "ref_ready cs t = list_ex (\<lambda>c. cd_type c = t \<and> cd_status c = ''True'') cs"

definition ref_scheduler ::
  "int \<Rightarrow> int \<Rightarrow> unit policy list
     \<Rightarrow> (string, string, rval, string cached list_cache, unit pipeline list, unit) scheduler" where
  "ref_scheduler thr mx policies =
     \<lparr>rejectPipelineThreshold = thr, maxPipelinesPerPolicy = mx, mgrClient = ref_client policies,
      policyCompiler = ref_compiler, isConditionTrue = ref_ready\<rparr>"

definition ref_state :: "unit pipeline list \<Rightarrow> (string cached list_cache, unit pipeline list) sstate" where
  "ref_state w = \<lparr>st_cache = (4, []), st_world = w, st_events = [],
     st_metrics = \<lparr>schedulerEventsRecieved = 0, schedulerReportsRecieved = 0,
                   schedulerReportErrors = 0, schedulerPipelinesCreated = Map.empty\<rparr>\<rparr>"

lemma ref_client_reads: "reads_only (ref_client policies)"
  by (simp add: reads_only_def ref_client_def split: prod.split)

lemmas ref_sched_defs = ref_scheduler_def ref_client_def ref_state_def ref_ready_def

lemma ref_compiler_model:
  "compiler_model ref_compiler lc_contents {p}"
  by (intro compiler_model.intro compiler_model_axioms.intro)
     (simp_all add: list_lru_laws generation_stable_def)

subsection \<open>Properties of the scheduler\<close>

text \<open>
  C13. What a report generates depends on the policies and the report alone. For any state of a coherent
  cache, the groups are, in the order of the listed policies, those of the policies that are Ready,
  compile, match the report and extract within the limit, each with its extracted values instantiated
  into the template (\<open>generates\<close>); the cache stays coherent.
\<close>

theorem createPipelines_refines_spec:
  assumes "compiler_model (policyCompiler S) contents R"
    and "coherent (comp_env (policyCompiler S)) R (contents (st_cache st))"
    and "set policies \<subseteq> R"
  shows "fst (createPipelinesForReport S policies a r st) = List.map_filter (generates S a r) policies
    \<and> coherent (comp_env (policyCompiler S)) R
        (contents (st_cache (snd (createPipelinesForReport S policies a r st))))"
proof -
  have m: "scheduler_model S (\<lambda>c. coherent (comp_env (policyCompiler S)) R (contents c)) R"
    unfolding scheduler_model_def by (rule compiler_model.get_contract [OF assms(1)])
  from scheduler_model.createPipelines_spec [OF m assms(3,2)]
    scheduler_model.createPipelines_inv [OF m assms(3,2)] show ?thesis by simp
qed

lemmas ref_sched_run = ref_sched_defs createPipelinesForReport_def policy_body_def Get_def
  compile_and_add_def cacheKey_def lc_trim_def list_lru_def call_def isDownloaderValid_def
  isProfileValid_def Matches_def

theorem createPipelines_refines_spec_witness:
  "let S = ref_scheduler 0 5 []; p = demo_policy ''true'' (Some ''_ITEMS'')
   in fst (createPipelinesForReport S [p] ''a1'' demo_report (ref_state []))
        = List.map_filter (generates S ''a1'' demo_report) [p]
    \<and> List.map_filter (generates S ''a1'' demo_report) [p] \<noteq> []"
proof -
  let ?S = "ref_scheduler 0 5 []" and ?p = "demo_policy ''true'' (Some ''_ITEMS'')"
  have "compiler_model (policyCompiler ?S) lc_contents {?p}"
    using ref_compiler_model by (simp add: ref_scheduler_def)
  moreover have "coherent (comp_env (policyCompiler ?S)) {?p} (lc_contents (st_cache (ref_state [])))"
    by (simp add: ref_state_def)
  ultimately have "fst (createPipelinesForReport ?S [?p] ''a1'' demo_report (ref_state []))
        = List.map_filter (generates ?S ''a1'' demo_report) [?p]"
    using createPipelines_refines_spec [of ?S lc_contents "{?p}" "ref_state []" "[?p]"] by simp
  moreover have "List.map_filter (generates ?S ''a1'' demo_report) [?p] \<noteq> []"
    by (simp add: map_filter_simps generates_def within_limit_def ref_run ref_sched_defs Matches_def
        demo_eval_defs)
  ultimately show ?thesis by (simp add: Let_def)
qed

text \<open>
  The downloader and profile checks do not gate anything, although their log lines say \<open>skipping
  policy\<close>: whatever the Kubernetes client answers (a missing profile, a missing downloader, an unknown
  kind), the generated pipelines and the events are the same.
\<close>

theorem validity_checks_do_not_gate:
  "fst (createPipelinesForReport (S\<lparr>mgrClient := cl\<rparr>) policies a r st)
     = fst (createPipelinesForReport S policies a r st)
   \<and> st_events (snd (createPipelinesForReport (S\<lparr>mgrClient := cl\<rparr>) policies a r st))
     = st_events (snd (createPipelinesForReport S policies a r st))"
proof -
  let ?R = "\<lambda>s t. st_cache s = st_cache t \<and> st_events s = st_events t"
  have "fst (policy_body (S\<lparr>mgrClient := cl\<rparr>) a r p s) = fst (policy_body S a r p t)
      \<and> ?R (snd (policy_body (S\<lparr>mgrClient := cl\<rparr>) a r p s)) (snd (policy_body S a r p t))"
    if "p \<in> set policies" "?R s t" for p s t
    using that(2)
    by (auto simp: policy_body_def Let_def split_beta Eventf_def split: sum.split bool.split)
  from collect_rel [where R = ?R and s = st and t = st and xs = policies, OF this] show ?thesis
    by (simp add: createPipelinesForReport_def)
qed

text \<open>
  At or above the threshold an event is rejected before anything else happens: with a positive
  threshold and at least that many active pipelines, the result is an error that \<open>errors.Is\<close>
  recognises as \<open>ErrPipelineThreshold\<close>, and the state is as before but for the one list call (no policy
  is listed or compiled, nothing is created, no event is recorded).
\<close>

theorem threshold_rejects:
  assumes "0 < rejectPipelineThreshold S"
    and "cl_list_pipelines (mgrClient S) (schedulerLabel, schedulerValue) (''status.active'', ''true'')
           (st_world st) = (Inr items, w)"
    and "rejectPipelineThreshold S \<le> int (length items)"
  shows "\<exists>e. processReports S reports st = (Some e, st\<lparr>st_world := w\<rparr>) \<and> errors_is e ErrPipelineThreshold"
  using assms
  by (simp add: processReports_def check_threshold_def countActivePipelines_def call_def
      threshold_error_def)

theorem threshold_rejects_witness:
  "\<exists>p e. processReports (ref_scheduler 1 5 [demo_policy ''true'' None]) [demo_report] (ref_state [p])
           = (Some e, ref_state [p])
       \<and> errors_is e ErrPipelineThreshold"
proof -
  let ?S = "ref_scheduler 1 5 [demo_policy ''true'' None]"
  let ?p = "(build_pipeline ''a0'' (demo_policy ''true'' None)
     \<lparr>pv_target = empty_target, pv_downloaderParams = [], pv_profileParams = []\<rparr>)\<lparr>pl_startTime := Some 3\<rparr>"
  have l: "cl_list_pipelines (mgrClient ?S) (schedulerLabel, schedulerValue) (''status.active'', ''true'')
      (st_world (ref_state [?p])) = (Inr [?p], [?p])"
    by (simp add: ref_sched_defs build_pipeline_def Let_def isPipelineActiveIndexer_def)
  from threshold_rejects [OF _ l, of "[demo_report]"]
  obtain e where "processReports ?S [demo_report] (ref_state [?p]) = (Some e, (ref_state [?p])\<lparr>st_world := [?p]\<rparr>)"
    "errors_is e ErrPipelineThreshold"
    by (auto simp: ref_scheduler_def)
  then show ?thesis by (intro exI [of _ ?p] exI [of _ e]) (simp add: ref_state_def)
qed

text \<open>
  C6. An event is processed all or nothing. Take a client whose reads change nothing and which lists served policies, and a
  coherent cache. When the threshold is not reached and the policies can be listed: if every report has a string
  action id, the result is nil, and \<open>Create\<close> is called once for each planned pipeline, in order, and for no other; a creation that
  the API server refuses does not fail the event, and is recorded as a warning on the policy that planned it, one for each
  refusal; if one report has no action id, the result is the invalid-report error. In that case, wherever that report stands, and when the
  threshold is reached or policies or pipelines cannot be listed, the event has an error and nothing is created, so that the message can
  be queued again.
\<close>

theorem processReports_all_or_nothing:
  assumes "compiler_model (policyCompiler S) contents R"
    and "coherent (comp_env (policyCompiler S)) R (contents (st_cache st))"
    and "reads_only (mgrClient S)" "lists_served (mgrClient S) R"
  shows "(below_threshold S (st_world st) \<and> fst (cl_list_policies (mgrClient S) (st_world st)) = Inr policies
       \<and> list_all (\<lambda>r. action_id r \<noteq> None) reports \<longrightarrow>
         fst (processReports S reports st) = None
       \<and> st_world (snd (processReports S reports st)) =
           create_run (mgrClient S) (concat (map g_pipelines (planned S policies reports))) (st_world st)
       \<and> failures (snd (processReports S reports st)) =
           failures st @ refusals (mgrClient S) (planned S policies reports) (st_world st))
    \<and> (below_threshold S (st_world st) \<and> fst (cl_list_policies (mgrClient S) (st_world st)) = Inr policies
       \<and> \<not> list_all (\<lambda>r. action_id r \<noteq> None) reports \<longrightarrow>
         fst (processReports S reports st) = Some invalid_report
       \<and> st_world (snd (processReports S reports st)) = st_world st)
    \<and> (\<not> below_threshold S (st_world st) \<or> (\<exists>e. fst (cl_list_policies (mgrClient S) (st_world st)) = Inl e) \<longrightarrow>
         fst (processReports S reports st) \<noteq> None
       \<and> st_world (snd (processReports S reports st)) = st_world st)"
proof -
  let ?cl = "mgrClient S" and ?w = "st_world st"
  have sm: "scheduler_model S (\<lambda>c. coherent (comp_env (policyCompiler S)) R (contents c)) R"
    unfolding scheduler_model_def by (rule compiler_model.get_contract [OF assms(1)])
  have listed: "set ps \<subseteq> R" if "cl_list_policies ?cl (snd (threshold_spec S ?w)) = (Inr ps, w)" for ps w
    by (rule lists_servedD [OF assms(4) that])
  note spec = scheduler_model.processReports_spec(1) [where reports = reports, OF sm assms(2) listed]
    scheduler_model.processReports_failures [where reports = reports, OF sm assms(2) listed]
  have "fst (threshold_spec S ?w) = None \<longleftrightarrow> below_threshold S ?w" "snd (threshold_spec S ?w) = ?w"
    using threshold_spec_quiet [OF assms(3)] by simp_all
  moreover have "snd (cl_list_policies ?cl ?w) = ?w" by (rule reads_onlyD(3) [OF assms(3)])
  ultimately have fails: "failures (snd (processReports S reports st)) = failures st @ refusals ?cl (planned S policies reports) ?w"
    if "below_threshold S ?w" "fst (cl_list_policies ?cl ?w) = Inr policies" "list_all (\<lambda>r. action_id r \<noteq> None) reports"
    using that spec(2) by (simp add: event_refusals_def split_beta event_reads_world [OF assms(3)] Let_def)
  show ?thesis
    using spec(1) event_spec_quiet [OF assms(3), where reports = reports and w = ?w] fails
    by (auto simp: prod_eq_iff)
qed

theorem processReports_all_or_nothing_witness:
  "let S = ref_scheduler 3 5 [demo_policy ''true'' (Some ''_ITEMS'')]; st = ref_state []
   in length (st_world (snd (processReports S [demo_report] st))) = 2
    \<and> failures (snd (processReports S [demo_report] st)) = []
    \<and> fst (processReports S [demo_report, Map.empty] st) = Some invalid_report
    \<and> st_world (snd (processReports S [demo_report, Map.empty] st)) = []"
proof -
  let ?p = "demo_policy ''true'' (Some ''_ITEMS'')" and ?st = "ref_state []"
  let ?S = "ref_scheduler 3 5 [?p]"
  have h: "compiler_model (policyCompiler ?S) lc_contents {?p}"
    "coherent (comp_env (policyCompiler ?S)) {?p} (lc_contents (st_cache ?st))"
    "reads_only (mgrClient ?S)" "lists_served (mgrClient ?S) {?p}"
    using ref_compiler_model ref_client_reads
    by (simp_all add: ref_scheduler_def ref_state_def lists_served_def ref_client_def)
  have l: "below_threshold ?S (st_world ?st) \<and> fst (cl_list_policies (mgrClient ?S) (st_world ?st)) = Inr [?p]"
    by (simp add: ref_scheduler_def ref_state_def below_threshold_def ref_client_def)
  note main = processReports_all_or_nothing [OF h, of "[?p]"]
  have ids: "action_id demo_report = Some ''a1''" "action_id (Map.empty :: rval report) = None"
    by (simp_all add: action_id_def demo_report_def KeyActionID_def)
  from main [of "[demo_report]"] l ids
  have "st_world (snd (processReports ?S [demo_report] ?st))
      = create_run (mgrClient ?S) (concat (map g_pipelines (planned ?S [?p] [demo_report]))) (st_world ?st)"
    "failures (snd (processReports ?S [demo_report] ?st)) = failures ?st @ refusals (mgrClient ?S) (planned ?S [?p] [demo_report]) (st_world ?st)"
    by simp_all
  then have "length (st_world (snd (processReports ?S [demo_report] ?st))) = 2 \<and> failures (snd (processReports ?S [demo_report] ?st)) = []"
    using ids(1)
    by (simp add: planned_def map_filter_simps generates_def within_limit_def ref_run ref_sched_defs
        Matches_def demo_eval_defs build_pipeline_def Let_def failures_def)
  moreover from main [of "[demo_report, Map.empty]"] l ids
  have "fst (processReports ?S [demo_report, Map.empty] ?st) = Some invalid_report"
    "st_world (snd (processReports ?S [demo_report, Map.empty] ?st)) = st_world ?st" by simp_all
  ultimately show ?thesis by (simp add: Let_def) (simp add: ref_state_def)
qed

lemma createPipelines_mem:
  assumes "g \<in> set (fst (createPipelinesForReport S policies a r st))"
  shows "\<exists>p \<in> set policies. \<exists>s. fst (policy_body S a r p s) = Some g"
  using collect_mem [of g "policy_body S a r" policies st "\<lambda>_. True"] assms
  by (simp add: createPipelinesForReport_def)

lemma createPipelines_mem_inv:
  assumes "\<And>p s. p \<in> set policies \<Longrightarrow> I s \<Longrightarrow> I (snd (policy_body S a r p s))" "I st"
    and "g \<in> set (fst (createPipelinesForReport S policies a r st))"
  shows "\<exists>p \<in> set policies. \<exists>s. I s \<and> fst (policy_body S a r p s) = Some g"
  using collect_mem [of g "policy_body S a r" policies st I] assms by (auto simp: createPipelinesForReport_def)

text \<open>
  C33. What a group of generated pipelines is, from a coherent cache: its policy is one of the listed ones and Ready; compiled
  afresh it matches the report and extracts values within the limit; and there is exactly one pipeline for each extracted value, in
  order, which is the policy's template with these changes and no other: the generated name has the action id, the namespace
  is the policy's, the scheduler's label is added (also over a template label of that key, so that the active pipelines the threshold
  counts include it), the extracted parameters follow those of the template, and the target is the extracted one. Kind and name of
  downloader and profile, annotations, other labels and the rest of the specification are the template's.
\<close>

theorem generated_pipeline_shape:
  assumes "compiler_model (policyCompiler S) contents R"
    and "coherent (comp_env (policyCompiler S)) R (contents (st_cache st))" "set policies \<subseteq> R"
    and "g \<in> set (fst (createPipelinesForReport S policies a r st))"
  shows "\<exists>p \<in> set policies. \<exists>cp vs.
      g_policy g = p \<and> g_report g = r \<and> g_actionID g = a \<and> isConditionTrue S (pol_conditions p) ''Ready''
    \<and> compile (comp_env (policyCompiler S)) p = Inr cp \<and> Matches (comp_env (policyCompiler S)) cp r = Inr True
    \<and> Extract (comp_env (policyCompiler S)) cp r = Inr vs
    \<and> (maxPipelinesPerPolicy S \<le> 0 \<or> int (length vs) \<le> maxPipelinesPerPolicy S)
    \<and> list_all2 (\<lambda>v pl. pl =
         \<lparr>pl_generateName = ''chalkular-'' @ a @ ''-'', pl_name = '''', pl_namespace = pol_namespace p,
          pl_labels = (pt_labels (sp_pipelineTemplate (pol_spec p)))
            (''chalk.ocular.crashoverride.run/scheduled-by'' \<mapsto> ''chalkular-controller''),
          pl_annotations = pt_annotations (sp_pipelineTemplate (pol_spec p)),
          pl_spec = (template_spec p)
            \<lparr>sp_downloader := (sp_downloader (template_spec p))
               \<lparr>ref_params := ref_params (sp_downloader (template_spec p)) @ pv_downloaderParams v\<rparr>,
             sp_profile := (sp_profile (template_spec p))
               \<lparr>ref_params := ref_params (sp_profile (template_spec p)) @ pv_profileParams v\<rparr>,
             sp_target := pv_target v\<rparr>,
          pl_startTime = None, pl_completionTime = None\<rparr>) vs (g_pipelines g)"
proof -
  let ?I = "\<lambda>st. coherent (comp_env (policyCompiler S)) R (contents (st_cache st))"
  have sm: "scheduler_model S (\<lambda>c. coherent (comp_env (policyCompiler S)) R (contents c)) R"
    unfolding scheduler_model_def by (rule compiler_model.get_contract [OF assms(1)])
  have "?I (snd (policy_body S a r p s))" if "p \<in> set policies" "?I s" for p s
    using scheduler_model.body_step [OF sm, of p s a r] that assms(3) by auto
  from createPipelines_mem_inv [where I = ?I, OF this assms(2,4)] obtain p s where p: "p \<in> set policies"
    and s: "?I s" and b: "fst (policy_body S a r p s) = Some g" by blast
  from policy_body_Some [OF b] obtain cp vs where ready: "isConditionTrue S (pol_conditions p) ''Ready''"
    and get: "fst (Get (policyCompiler S) p (st_cache s)) = Inr cp"
    and ex: "Matches (comp_env (policyCompiler S)) cp r = Inr True" "Extract (comp_env (policyCompiler S)) cp r = Inr vs"
      "within_limit S (length vs)"
    and g: "g = \<lparr>g_report = r, g_actionID = a, g_policy = p, g_pipelines = map (build_pipeline a p) vs\<rparr>"
    by blast
  from get compiler_model.Get_correct(1) [OF assms(1) s, of p] p assms(3)
  have "compile (comp_env (policyCompiler S)) p = Inr cp" by auto
  with p ready ex g show ?thesis
    by (intro bexI [OF _ p] exI [of _ cp] exI [of _ vs])
       (simp add: within_limit_def list_all2_map2 build_pipeline_def Let_def schedulerLabel_def schedulerValue_def list_all2_same)
qed

theorem generated_pipeline_shape_witness:
  "\<exists>g pl. g \<in> set (fst (createPipelinesForReport (ref_scheduler 0 5 []) [demo_policy ''true'' None]
                    ''a1'' demo_report (ref_state [])))
     \<and> pl \<in> set (g_pipelines g)
     \<and> pl_labels pl = [''team'' \<mapsto> ''sec'', ''chalk.ocular.crashoverride.run/scheduled-by'' \<mapsto> ''chalkular-controller'']
     \<and> pl_namespace pl = ''scan'' \<and> ref_kind (sp_downloader (pl_spec pl)) = ''ClusterDownloader''"
proof -
  let ?S = "ref_scheduler 0 5 []" and ?p = "demo_policy ''true'' None"
  let ?r = "fst (createPipelinesForReport ?S [?p] ''a1'' demo_report (ref_state []))"
  obtain g pl where g: "g \<in> set ?r" "pl \<in> set (g_pipelines g)"
    by (simp add: ref_sched_run ref_run demo_eval_defs Let_def)
  have "compiler_model (policyCompiler ?S) lc_contents {?p}"
    "coherent (comp_env (policyCompiler ?S)) {?p} (lc_contents (st_cache (ref_state [])))" "set [?p] \<subseteq> {?p}"
    using ref_compiler_model by (simp_all add: ref_scheduler_def ref_state_def)
  from generated_pipeline_shape [OF this g(1)] g(2)
  have "pl_labels pl = [''team'' \<mapsto> ''sec'', ''chalk.ocular.crashoverride.run/scheduled-by'' \<mapsto> ''chalkular-controller'']"
    "pl_namespace pl = ''scan''" "ref_kind (sp_downloader (pl_spec pl)) = ''ClusterDownloader''"
    by (auto simp: demo_policy_def demo_template_def list_all2_conv_all_nth in_set_conv_nth)
  with g show ?thesis by blast
qed

lemma group_within_limit:
  assumes "g \<in> set (fst (createPipelinesForReport S policies a r st))" "0 < maxPipelinesPerPolicy S"
  shows "length (g_pipelines g) \<le> nat (maxPipelinesPerPolicy S)"
proof -
  from createPipelines_mem [OF assms(1)] obtain p s where
    "fst (policy_body S a r p s) = Some g" by blast
  from policy_body_Some [OF this] show ?thesis
    using assms(2) by (auto simp: within_limit_def)
qed

lemma createPipelines_length: "length (fst (createPipelinesForReport S policies a r st)) \<le> length policies"
  by (simp add: createPipelinesForReport_def collect_length)

lemma generate_all_bounded:
  assumes "0 < maxPipelinesPerPolicy S" "fst (generate_all S policies reports st) = Inr gs"
  shows "length (concat (map g_pipelines gs)) \<le> length reports * length policies * nat (maxPipelinesPerPolicy S)"
proof -
  have "length gs \<le> length reports * length policies
      \<and> (\<forall>g \<in> set gs. length (g_pipelines g) \<le> nat (maxPipelinesPerPolicy S))"
    using assms(2)
  proof (induction reports arbitrary: st gs)
    case Nil
    then show ?case by simp
  next
    case (Cons r rs)
    from Cons.prems obtain a hs where a: "action_id r = Some a"
      and hs: "fst (generate_all S policies rs (snd (createPipelinesForReport S policies a r st))) = Inr hs"
      and gs: "gs = fst (createPipelinesForReport S policies a r st) @ hs"
      by (auto simp: Let_def split_beta split: option.splits sum.splits)
    from Cons.IH [OF hs] createPipelines_length [of S policies a r st] gs show ?case
      using group_within_limit [OF _ assms(1)] by fastforce
  qed
  moreover have "length (concat (map g_pipelines gs)) \<le> length gs * nat (maxPipelinesPerPolicy S)"
    using calculation length_concat_le [of "map g_pipelines gs" "nat (maxPipelinesPerPolicy S)"] by auto
  ultimately show ?thesis by (meson le_trans mult_le_mono1)
qed

lemma create_run_counted:
  assumes "\<And>p w. amount (snd (cl_create cl p w)) \<le> Suc (amount w)"
  shows "amount (create_run cl ps w) \<le> amount w + length ps"
proof (induction ps arbitrary: w)
  case (Cons p ps)
  from Cons.IH [of "snd (cl_create cl p w)"] assms [of p w] show ?case by simp
qed simp

lemma fold_counted: "(\<And>x w. amount (f x w) \<le> (amount w :: nat)) \<Longrightarrow> amount (fold f xs w) \<le> amount w"
  by (induction xs arbitrary: w) (auto intro: le_trans)

lemma event_reads_counted:
  assumes "\<And>kd n m w. amount (snd (cl_get (mgrClient S) kd n m w)) \<le> (amount w :: nat)"
  shows "amount (event_reads S policies reports w) \<le> amount w"
proof -
  have "amount (policy_reads S p w) \<le> amount w" for p w
    by (simp add: policy_reads_def isProfileValid_def isDownloaderValid_def Let_def assms order_trans [OF assms assms])
  then show ?thesis unfolding event_reads_def by (intro fold_counted) blast
qed

text \<open>
  C15. The limit bounds what an event creates. Take any quantity of the cluster that a \<open>Create\<close> raises by at most one and a \<open>Get\<close> or
  \<open>List\<close> not at all, such as the number of its pipelines, or of the calls of \<open>Create\<close> that it has seen. With a positive \<open>--max-pipelines-per-policy\<close>,
  and when at most \<open>k\<close> policies are ever listed, an event of \<open>n\<close> reports raises it by at most \<open>n * k * limit\<close>, for any state of
  cache and cluster.
\<close>

theorem pipelines_bounded_by_limit:
  fixes amount :: "'w \<Rightarrow> nat" and S :: "('a, 'p, 'v, 'c, 'w, 'x) scheduler"
  assumes "0 < maxPipelinesPerPolicy S"
    and "\<And>w ps. fst (cl_list_policies (mgrClient S) w) = Inr ps \<Longrightarrow> length ps \<le> k"
    and "\<And>p w. amount (snd (cl_create (mgrClient S) p w)) \<le> Suc (amount w)"
    and "\<And>kd n m w. amount (snd (cl_get (mgrClient S) kd n m w)) \<le> amount w"
    and "\<And>l f w. amount (snd (cl_list_pipelines (mgrClient S) l f w)) \<le> amount w"
    and "\<And>w. amount (snd (cl_list_policies (mgrClient S) w)) \<le> amount w"
  shows "amount (st_world (snd (processReports S reports st)))
     \<le> amount (st_world st) + length reports * k * nat (maxPipelinesPerPolicy S)"
proof -
  let ?b = "length reports * k * nat (maxPipelinesPerPolicy S)"
  obtain t st1 where t: "check_threshold S st = (t, st1)" by force
  with check_threshold_spec(2) [of S st] have "st_world st1 = snd (threshold_spec S (st_world st))" by simp
  with assms(5) have c1: "amount (st_world st1) \<le> amount (st_world st)"
    using assms(5) [of "(schedulerLabel, schedulerValue)" "(''status.active'', ''true'')" "st_world st"]
    by (simp add: threshold_spec_def split_beta split: sum.splits)
  obtain l w2 where l: "cl_list_policies (mgrClient S) (st_world st1) = (l, w2)" by force
  with assms(6) [of "st_world st1"] c1 have c2: "amount w2 \<le> amount (st_world st)" by simp
  let ?st2 = "st1\<lparr>st_world := w2\<rparr>"
  have call: "call (cl_list_policies (mgrClient S)) st1 = (l, ?st2)" using l by (simp add: call_def)
  have "amount (st_world (snd (generate_all S ps reports ?st2))) \<le> amount w2" for ps
    using event_reads_counted [of amount S, OF assms(4)] by (simp add: generate_all_reads)
  then have c3: "amount (st_world (snd (generate_all S ps reports ?st2))) \<le> amount (st_world st)" for ps
    using c2 le_trans by blast
  have "amount (st_world (snd (create_all S gs [] st3))) \<le> amount (st_world st3) + ?b"
    if "generate_all S ps reports ?st2 = (Inr gs, st3)" "l = Inr ps" for ps gs st3
  proof -
    have "length ps \<le> k" using assms(2) l that(2) by (metis fst_conv)
    then have "length (concat (map g_pipelines gs)) \<le> ?b"
      using generate_all_bounded [OF assms(1), of ps reports ?st2 gs] that(1)
      by (metis (no_types, lifting) fst_conv le_trans mult_le_mono1 mult_le_mono2)
    with create_run_counted [of amount "mgrClient S", OF assms(3)] show ?thesis
      unfolding create_all_world by (meson add_left_mono le_trans)
  qed
  then have c4: "amount (st_world (snd (create_all S gs [] st3))) \<le> amount (st_world st) + ?b"
    if "generate_all S ps reports ?st2 = (Inr gs, st3)" "l = Inr ps" for ps gs st3
    using that c3 [of ps] by fastforce
  show ?thesis
  proof (cases t)
    case (Some e)
    with t c1 show ?thesis by (simp add: processReports_def)
  next
    case None
    note run = processReports_def [of S reports st] t call None
    show ?thesis
    proof (cases l)
      case (Inl e)
      with run c2 show ?thesis by simp
    next
      case l: (Inr ps)
      obtain gs st3 where g: "generate_all S ps reports ?st2 = (gs, st3)" by force
      with c3 [of ps] c4 [of ps _ st3] run l show ?thesis by (cases gs) simp_all
    qed
  qed
qed

theorem pipelines_bounded_by_limit_witness:
  "let S = ref_scheduler 0 2 [demo_policy ''true'' (Some ''_ITEMS'')];
       w = st_world (snd (processReports S [demo_report] (ref_state [])))
   in length w = 2 \<and> length w \<le> 0 + length [demo_report] * 1 * nat (maxPipelinesPerPolicy S)"
proof -
  let ?S = "ref_scheduler 0 2 [demo_policy ''true'' (Some ''_ITEMS'')]"
  let ?w = "st_world (snd (processReports ?S [demo_report] (ref_state [])))"
  have "length (st_world (snd (processReports ?S [demo_report] (ref_state []))))
      \<le> length (st_world (ref_state [])) + length [demo_report] * 1 * nat (maxPipelinesPerPolicy ?S)"
    by (rule pipelines_bounded_by_limit) (auto simp: ref_sched_defs Let_def)
  moreover have "length ?w = 2"
    by (simp add: processReports_def check_threshold_def ref_sched_run ref_run demo_eval_defs Let_def action_id_def KeyActionID_def
        build_pipeline_def)
  ultimately show ?thesis by (simp add: Let_def ref_state_def)
qed

text \<open>
  The event \<open>PipelinesCreated\<close> states a wrong number: it is recorded before the group's pipelines are
  counted, so its note holds the number created for the groups before. The first policy of an event
  that creates pipelines is told that 0 were created, however many there are.
\<close>

theorem created_event_omits_own_pipelines:
  assumes "fst (create_group S g 0 (g_pipelines g) st) \<noteq> []"
  shows "\<exists>e. st_events (snd (create_all S [g] created st))
           = st_events (snd (create_group S g 0 (g_pipelines g) st)) @ [e]
       \<and> ev_reason e = ''PipelinesCreated''
       \<and> ev_note e = ''report '' @ [CHR 0x27] @ g_actionID g @ [CHR 0x27] @ '' created ''
                      @ show_nat (length created) @ '' pipeline''
       \<and> fst (create_all S [g] created st) = created @ fst (create_group S g 0 (g_pipelines g) st)"
  using assms by (simp add: Let_def split_beta Eventf_def)

theorem created_event_omits_own_pipelines_witness:
  "\<exists>g e. length (fst (create_all (ref_scheduler 0 0 []) [g] [] (ref_state []))) = 1
     \<and> st_events (snd (create_all (ref_scheduler 0 0 []) [g] [] (ref_state []))) = [e]
     \<and> ev_note e = ''report '' @ [CHR 0x27] @ ''a1'' @ [CHR 0x27] @ '' created 0 pipeline''"
proof -
  let ?g = "\<lparr>g_report = demo_report, g_actionID = ''a1'', g_policy = demo_policy ''true'' None,
     g_pipelines = [build_pipeline ''a1'' (demo_policy ''true'' None)
       \<lparr>pv_target = empty_target, pv_downloaderParams = [], pv_profileParams = []\<rparr>]\<rparr>"
  let ?grp = "create_group (ref_scheduler 0 0 []) ?g 0 (g_pipelines ?g) (ref_state [])"
  have grp: "length (fst ?grp) = 1" "st_events (snd ?grp) = []"
    by (simp_all add: ref_sched_defs call_def build_pipeline_def demo_policy_def demo_template_def Let_def)
  then have "fst ?grp \<noteq> []" by auto
  from created_event_omits_own_pipelines [OF this, of "[]"] obtain e where
    "st_events (snd (create_all (ref_scheduler 0 0 []) [?g] [] (ref_state []))) = [e]"
    "ev_note e = ''report '' @ [CHR 0x27] @ ''a1'' @ [CHR 0x27] @ '' created 0 pipeline''"
    "length (fst (create_all (ref_scheduler 0 0 []) [?g] [] (ref_state []))) = 1"
    using grp by (auto simp del: create_group.simps create_all.simps)
  then show ?thesis by blast
qed

subsection \<open>Metrics and results\<close>

definition unused_series :: "sched_metrics \<Rightarrow> bool" where
  "unused_series m \<longleftrightarrow> ran (schedulerPipelinesCreated m) \<subseteq> {0}"

text \<open>The counters that are incremented.\<close>

definition counters :: "sched_metrics \<Rightarrow> nat \<times> nat \<times> nat" where
  "counters m = (schedulerEventsRecieved m, schedulerReportsRecieved m, schedulerReportErrors m)"

lemma created_with_keeps:
  "unused_series m \<Longrightarrow> unused_series (created_with l m)" "counters (created_with l m) = counters m"
  by (auto simp: unused_series_def created_with_def counters_def ran_def split: option.split)

lemma createPipelines_metrics:
  "st_metrics (snd (createPipelinesForReport S policies a r st)) = st_metrics st"
  unfolding createPipelinesForReport_def
  by (rule collect_invariant [where I = "\<lambda>s. st_metrics s = st_metrics st"])
     (simp_all add: policy_body_metrics)

lemma generate_all_metrics: "st_metrics (snd (generate_all S policies reports st)) = st_metrics st"
  by (induction reports arbitrary: st)
    (simp_all add: Let_def split_beta createPipelines_metrics split: option.split sum.split)

lemma create_group_metrics:
  "counters (st_metrics (snd (create_group S g i ps st))) = counters (st_metrics st)
   \<and> (unused_series (st_metrics st) \<longrightarrow> unused_series (st_metrics (snd (create_group S g i ps st))))"
  by (induction ps arbitrary: i st)
    (auto simp: call_def Let_def split_beta created_with_keeps split: sum.split)

lemma create_all_metrics:
  "counters (st_metrics (snd (create_all S gs created st))) = counters (st_metrics st)
   \<and> (unused_series (st_metrics st) \<longrightarrow> unused_series (st_metrics (snd (create_all S gs created st))))"
  by (induction gs arbitrary: created st) (auto simp: Let_def split_beta create_group_metrics)

lemma check_threshold_metrics: "st_metrics (snd (check_threshold S st)) = st_metrics st"
  by (simp add: check_threshold_def call_def split_beta Let_def split: sum.split)

lemma processReports_metrics:
  "counters (st_metrics (snd (processReports S reports st))) = counters (st_metrics st)
   \<and> (unused_series (st_metrics st) \<longrightarrow> unused_series (st_metrics (snd (processReports S reports st))))"
proof -
  obtain e st1 where t: "check_threshold S st = (e, st1)" by force
  then have m1: "st_metrics st1 = st_metrics st" using check_threshold_metrics [of S st] by simp
  obtain l st2 where l: "call (cl_list_policies (mgrClient S)) st1 = (l, st2)" by force
  then have m2: "st_metrics st2 = st_metrics st1"
    using call_frame(3) [of "cl_list_policies (mgrClient S)" st1] by simp
  obtain g st3 where g: "generate_all S (projr l) reports st2 = (g, st3)" by force
  then have m3: "st_metrics st3 = st_metrics st2"
    using generate_all_metrics [of S "projr l" reports st2] by simp
  from t l g m1 m2 m3 create_all_metrics [of S "projr g" "[]" st3] show ?thesis
    by (cases e; cases l; cases g) (simp_all add: processReports_def)
qed

lemma handle_event_metrics:
  "counters (st_metrics (snd (handle_event S reports st))) =
     (schedulerEventsRecieved (st_metrics st) + 1,
      schedulerReportsRecieved (st_metrics st) + length reports,
      schedulerReportErrors (st_metrics st) + (if fst (handle_event S reports st) = None then 0 else 1))
   \<and> (unused_series (st_metrics st) \<longrightarrow> unused_series (st_metrics (snd (handle_event S reports st))))"
proof -
  let ?m = "st_metrics st"
  let ?st1 = "st\<lparr>st_metrics := ?m\<lparr>schedulerEventsRecieved := schedulerEventsRecieved ?m + 1,
       schedulerReportsRecieved := schedulerReportsRecieved ?m + length reports\<rparr>\<rparr>"
  obtain e st2 where p: "processReports S reports ?st1 = (e, st2)" by force
  with processReports_metrics [of S reports ?st1] show ?thesis
    by (auto simp: handle_event_def Let_def counters_def unused_series_def)
qed

text \<open>
  The counter \<open>scheduler_pipelines_created\<close> never counts: the code selects a series by its labels and
  does not increment it, so after any run of the scheduler every series is at 0, whatever was created.
\<close>

theorem pipelines_created_metric_stays_zero:
  assumes "schedulerPipelinesCreated (st_metrics st) = Map.empty"
  shows "ran (schedulerPipelinesCreated (st_metrics (snd (serve S events st)))) \<subseteq> {0}"
proof -
  have "unused_series (st_metrics st)" using assms by (simp add: unused_series_def)
  then have "unused_series (st_metrics (snd (serve S events st)))"
    by (induction events arbitrary: st) (simp_all add: Let_def split_beta handle_event_metrics)
  then show ?thesis by (simp add: unused_series_def)
qed

theorem pipelines_created_metric_stays_zero_witness:
  "ran (schedulerPipelinesCreated (st_metrics (snd (serve
      (ref_scheduler 0 5 [demo_policy ''true'' None]) [[demo_report]] (ref_state []))))) \<subseteq> {0}"
  by (rule pipelines_created_metric_stays_zero) (simp add: ref_state_def)

text \<open>
  Every received event is answered: the loop sends exactly one result per event, in the order of the
  events, and the counters account for it (events received, reports received, and one error per event
  whose result is not nil).
\<close>

theorem serve_accounts_for_events:
  "length (fst (serve S events st)) = length events
   \<and> schedulerEventsRecieved (st_metrics (snd (serve S events st)))
       = schedulerEventsRecieved (st_metrics st) + length events
   \<and> schedulerReportsRecieved (st_metrics (snd (serve S events st)))
       = schedulerReportsRecieved (st_metrics st) + sum_list (map length events)
   \<and> schedulerReportErrors (st_metrics (snd (serve S events st)))
       = schedulerReportErrors (st_metrics st) + length (filter (\<lambda>r. r \<noteq> None) (fst (serve S events st)))"
proof (induction events arbitrary: st)
  case Nil
  then show ?case by simp
next
  case (Cons e es)
  obtain r st1 where h: "handle_event S e st = (r, st1)" by force
  have "counters (st_metrics st1) =
     (schedulerEventsRecieved (st_metrics st) + 1, schedulerReportsRecieved (st_metrics st) + length e,
      schedulerReportErrors (st_metrics st) + (if r = None then 0 else 1))"
    using handle_event_metrics [of S e st] h by simp
  with h Cons.IH [of st1] show ?case
    by (simp add: Let_def split_beta counters_def)
qed

end
