(* ===== verification/Webhook.thy ===== *)
theory Webhook
  imports Scheduler
begin

section \<open>The admission webhooks\<close>

text \<open>
  \<^verbatim>\<open>internal/webhook/v1beta1/chalkreportpolicy_webhook.go\<close>: the defaulter and the validator of
  \<open>ChalkReportPolicy\<close>. An API error is its group, kind, object name and field errors; the warnings are
  always nil.
\<close>

record defaulter =
  df_downloader :: string
  df_downloaderKind :: string

text \<open>\<open>SetupChalkReportPolicyWebhookWithManager\<close> registers this defaulter.\<close>

definition webhook_defaulter :: "string \<Rightarrow> defaulter" where
  "webhook_defaulter clusterDownloaderName =
     \<lparr>df_downloader = clusterDownloaderName, df_downloaderKind = ''ClusterDownloader''\<rparr>"

definition set_downloader :: "defaulter \<Rightarrow> 'x pipeline_spec \<Rightarrow> 'x pipeline_spec" where
  "set_downloader d sp =
     sp\<lparr>sp_downloader := (sp_downloader sp)\<lparr>ref_name := df_downloader d, ref_kind := df_downloaderKind d\<rparr>\<rparr>"

text \<open>\<open>Default\<close> changes the object in place and returns nil.\<close>

definition Default :: "defaulter \<Rightarrow> 'x policy \<Rightarrow> goerr option \<times> 'x policy" where
  "Default d obj =
     (None, if ref_name (sp_downloader (template_spec obj)) = ''''
            then map_template_spec (set_downloader d) obj else obj)"

record field_error =
  fe_path :: "string list"
  fe_value :: target
  fe_detail :: string

record status_error =
  se_group :: string
  se_kind :: string
  se_name :: string
  se_errors :: "field_error list"

definition target_error :: "target \<Rightarrow> field_error" where
  "target_error t = \<lparr>fe_path = [''spec'', ''pipelineTemplate'', ''spec'', ''target''], fe_value = t,
     fe_detail = ''target should not bet set and instead should be specified by '' @ [CHR 0x27]
       @ ''extraction.target'' @ [CHR 0x27]\<rparr>"

definition validate :: "'x policy \<Rightarrow> string list \<times> status_error option" where
  "validate policy =
     (let target = sp_target (template_spec policy);
          allErrs = (if tgt_identifier target \<noteq> '''' \<or> tgt_version target \<noteq> '''' then [target_error target] else [])
      in if length allErrs = 0 then ([], None)
         else ([], Some \<lparr>se_group = ''chalk.ocular.crashoverride.run'', se_kind = ''ChalkReportPolicy'',
                         se_name = pol_name policy, se_errors = allErrs\<rparr>))"

definition ValidateCreate :: "'x policy \<Rightarrow> string list \<times> status_error option" where
  "ValidateCreate obj = validate obj"

definition ValidateUpdate :: "'x policy \<Rightarrow> 'x policy \<Rightarrow> string list \<times> status_error option" where
  "ValidateUpdate oldObj newObj =
     (case validate newObj of
        (warnings, Some err) \<Rightarrow> (warnings, Some err)
      | (_, None) \<Rightarrow> ([], None))"

definition ValidateDelete :: "'x policy \<Rightarrow> string list \<times> status_error option" where
  "ValidateDelete obj = ([], None)"

lemmas webhook_defs = Default_def set_downloader_def webhook_defaulter_def validate_def Let_def
  ValidateCreate_def ValidateUpdate_def ValidateDelete_def

lemma template_spec_set_downloader:
  "sp_downloader (set_downloader d sp) =
     (sp_downloader sp)\<lparr>ref_name := df_downloader d, ref_kind := df_downloaderKind d\<rparr>"
  "sp_profile (set_downloader d sp) = sp_profile sp"
  "sp_target (set_downloader d sp) = sp_target sp"
  "sp_rest (set_downloader d sp) = sp_rest sp"
  by (simp_all add: set_downloader_def)

text \<open>
  Admission: creating and updating are admitted exactly when the template's target is unset, an update
  is judged by the new object alone, and deleting is always admitted; a rejection names the object and
  the one offending field.
\<close>

theorem validation_admits_unset_target:
  "(snd (ValidateCreate p) = None \<longleftrightarrow> sp_target (template_spec p) = empty_target)
   \<and> ValidateUpdate q p = ValidateCreate p \<and> snd (ValidateDelete p) = None
   \<and> (\<forall>e. snd (ValidateCreate p) = Some e \<longrightarrow>
        se_name e = pol_name p \<and> map fe_value (se_errors e) = [sp_target (template_spec p)])"
  by (cases "sp_target (template_spec p)")
     (auto simp: webhook_defs empty_target_def target_error_def split: option.split)

theorem validation_admits_unset_target_witness:
  "let p = map_template_spec (\<lambda>s. s\<lparr>sp_target := \<lparr>tgt_identifier = ''img'', tgt_version = []\<rparr>\<rparr>)
             (demo_policy ''true'' None)
   in \<exists>e. snd (ValidateCreate p) = Some e \<and> se_name e = ''docker''"
proof -
  let ?p = "map_template_spec (\<lambda>s. s\<lparr>sp_target := \<lparr>tgt_identifier = ''img'', tgt_version = []\<rparr>\<rparr>)
             (demo_policy ''true'' None)"
  have "sp_target (template_spec ?p) \<noteq> empty_target" by (simp add: empty_target_def)
  with validation_admits_unset_target [of ?p] obtain e where e: "snd (ValidateCreate ?p) = Some e" by auto
  with validation_admits_unset_target [of ?p] have "se_name e = pol_name ?p" by blast
  with e show ?thesis by (simp add: Let_def demo_policy_def)
qed

text \<open>
  Defaulting: it never fails, is idempotent, changes nothing when a downloader is named, and otherwise
  sets the name and kind of the downloader reference and nothing else: the reference's parameters, the
  profile, the target, the expressions and the rest of the specification are kept.
\<close>

theorem default_sets_only_downloader:
  assumes "df_downloader d \<noteq> ''''"
  shows "fst (Default d p) = None
    \<and> Default d (snd (Default d p)) = (None, snd (Default d p))
    \<and> (ref_name (sp_downloader (template_spec p)) \<noteq> '''' \<longrightarrow> snd (Default d p) = p)
    \<and> ref_name (sp_downloader (template_spec (snd (Default d p)))) \<noteq> ''''
    \<and> ref_params (sp_downloader (template_spec (snd (Default d p))))
        = ref_params (sp_downloader (template_spec p))
    \<and> sp_profile (template_spec (snd (Default d p))) = sp_profile (template_spec p)
    \<and> sp_target (template_spec (snd (Default d p))) = sp_target (template_spec p)
    \<and> sp_rest (template_spec (snd (Default d p))) = sp_rest (template_spec p)
    \<and> sp_matchCondition (pol_spec (snd (Default d p))) = sp_matchCondition (pol_spec p)
    \<and> sp_extraction (pol_spec (snd (Default d p))) = sp_extraction (pol_spec p)"
  using assms by (simp add: Default_def template_spec_set_downloader)

theorem default_sets_only_downloader_witness:
  "let p = map_template_spec (\<lambda>s. s\<lparr>sp_downloader := \<lparr>ref_name = [], ref_kind = [], ref_params = []\<rparr>\<rparr>)
             (demo_policy ''true'' None);
       q = snd (Default (webhook_defaulter ''chalkular-report'') p)
   in ref_name (sp_downloader (template_spec q)) \<noteq> [] \<and> snd (Default (webhook_defaulter ''x'') q) = q"
proof -
  let ?d = "webhook_defaulter ''chalkular-report''"
  let ?p = "map_template_spec (\<lambda>s. s\<lparr>sp_downloader := \<lparr>ref_name = [], ref_kind = [], ref_params = []\<rparr>\<rparr>)
             (demo_policy ''true'' None)"
  have d: "df_downloader ?d \<noteq> []" "df_downloader (webhook_defaulter ''x'') \<noteq> []"
    by (simp_all add: webhook_defaulter_def)
  have n: "ref_name (sp_downloader (template_spec (snd (Default ?d ?p)))) \<noteq> []"
    using default_sets_only_downloader [OF d(1), of ?p] by blast
  with default_sets_only_downloader [OF d(2), of "snd (Default ?d ?p)"] show ?thesis
    unfolding Let_def by blast
qed

text \<open>
  Default and scheduler agree on what a default downloader is: for a policy that named none, the
  scheduler's check after defaulting looks up the configured cluster downloader, with no namespace.
\<close>

theorem default_downloader_is_looked_up:
  assumes "ref_name (sp_downloader (template_spec p)) = ''''"
  shows "isDownloaderValid S (snd (Default (webhook_defaulter name) p)) w
       = cl_get (mgrClient S) ''ClusterDownloader'' '''' name w"
  using assms
  by (simp add: Default_def template_spec_set_downloader webhook_defaulter_def isDownloaderValid_def)

theorem default_downloader_is_looked_up_witness:
  "isDownloaderValid (ref_scheduler 0 0 []\<lparr>mgrClient := (ref_client [])\<lparr>cl_get :=
       (\<lambda>k n m w. (if (k, n, m) = (''ClusterDownloader'', [], ''art'') then None else Some (ErrMsg ''missing''), w))\<rparr>\<rparr>)
     (snd (Default (webhook_defaulter ''art'')
       (map_template_spec (\<lambda>s. s\<lparr>sp_downloader := \<lparr>ref_name = [], ref_kind = [], ref_params = []\<rparr>\<rparr>)
          (demo_policy ''true'' None)))) [] = (None, [])"
  by (subst default_downloader_is_looked_up) simp_all

end
