(* ===== verification/Reconciler.thy ===== *)
theory Reconciler
  imports Policy_Compiler
begin

section \<open>The policy controller\<close>

text \<open>
  \<^verbatim>\<open>internal/controller/chalkreportpolicy_controller.go\<close>: \<open>Reconcile\<close> and its finalizer. The API server is
  an external world \<open>'w\<close> behind the client's calls, the compiler's cache is the other part of the state;
  the helpers of controller-runtime and apimachinery that edit finalizers and conditions are parameters
  with their documented laws. \<open>ctrl.Result{}\<close> is always empty: the result is the error alone. A
  deletion timestamp is \<open>None\<close> where \<open>IsZero\<close> holds; a condition's transition time is left out.
\<close>

subsection \<open>Libraries\<close>

record object_util =
  ou_contains :: "string list \<Rightarrow> string \<Rightarrow> bool"
  ou_add :: "string list \<Rightarrow> string \<Rightarrow> string list"
  ou_remove :: "string list \<Rightarrow> string \<Rightarrow> string list"
  ou_setCondition :: "condition list \<Rightarrow> condition \<Rightarrow> bool \<times> condition list"

text \<open>\<open>rc_ignoreNotFound\<close> is \<open>client.IgnoreNotFound\<close>.\<close>

record ('w, 'x) rclient =
  rc_get :: "string \<times> string \<Rightarrow> 'w \<Rightarrow> 'x policy res \<times> 'w"
  rc_update :: "'x policy \<Rightarrow> 'w \<Rightarrow> goerr option \<times> 'w"
  rc_statusUpdate :: "'x policy \<Rightarrow> 'w \<Rightarrow> goerr option \<times> 'w"
  rc_ignoreNotFound :: "goerr \<Rightarrow> goerr option"

definition find_condition :: "condition list \<Rightarrow> string \<Rightarrow> condition option" where
  "find_condition cs t = find (\<lambda>c. cd_type c = t) cs"

text \<open>
  The documented behaviour of \<open>controllerutil\<close> (\<open>ContainsFinalizer\<close>, \<open>AddFinalizer\<close>, \<open>RemoveFinalizer\<close>)
  and of \<open>meta.SetStatusCondition\<close>: it stores the condition under its type, leaves the other types
  alone and answers whether anything changed.
\<close>

locale object_utils =
  fixes U :: object_util
  assumes contains: "ou_contains U fs f \<longleftrightarrow> f \<in> set fs"
    and set_add: "set (ou_add U fs f) = insert f (set fs)"
    and set_remove: "set (ou_remove U fs f) = set fs - {f}"
    and find_set: "find_condition (snd (ou_setCondition U cs c)) (cd_type c) = Some c"
    and find_other: "t \<noteq> cd_type c \<Longrightarrow>
      find_condition (snd (ou_setCondition U cs c)) t = find_condition cs t"
    and unchanged: "\<not> fst (ou_setCondition U cs c) \<Longrightarrow> snd (ou_setCondition U cs c) = cs"
    and same: "find_condition cs (cd_type c) = Some c \<Longrightarrow> \<not> fst (ou_setCondition U cs c)"
begin

text \<open>Setting a condition a second time reports no change.\<close>

lemma set_twice: "\<not> fst (ou_setCondition U (snd (ou_setCondition U cs c)) c)"
  by (rule same) (rule find_set)

lemma remove_other: "g \<noteq> f \<Longrightarrow> g \<in> set (ou_remove U fs f) \<longleftrightarrow> g \<in> set fs"
  by (simp add: set_remove)

end

text \<open>
  The API server, as an abstract map from namespace and name to the stored object. A read answers the
  stored object or an error, and only a missing object gives an error that \<open>IgnoreNotFound\<close> drops. A write
  that succeeds is the object sent, for the two kinds of write the controller makes: \<open>Update\<close> of an object
  that differs from the stored one in its finalizers only, where an object under deletion disappears
  with its last finalizer, and a status update of one that differs in its conditions only.
\<close>

abbreviation policy_key :: "'x policy \<Rightarrow> string \<times> string" where
  "policy_key p \<equiv> (pol_namespace p, pol_name p)"

locale object_store =
  fixes K :: "('w, 'x) rclient" and objs :: "'w \<Rightarrow> (string \<times> string \<rightharpoonup> 'x policy)"
  assumes get_objs: "objs (snd (rc_get K k w)) = objs w"
    and get_found: "fst (rc_get K k w) = Inr p \<Longrightarrow> objs w k = Some p"
    and get_error: "objs w k \<noteq> None \<Longrightarrow> fst (rc_get K k w) = Inl e \<Longrightarrow> rc_ignoreNotFound K e = Some e"
    and get_key: "objs w k = Some p \<Longrightarrow> policy_key p = k"
    and update_finalizers:
      "objs w (policy_key p) = Some p \<Longrightarrow> fst (rc_update K (p\<lparr>pol_finalizers := fs\<rparr>) w) = None \<Longrightarrow>
       objs (snd (rc_update K (p\<lparr>pol_finalizers := fs\<rparr>) w)) =
         (objs w)(policy_key p :=
            (if pol_deletionTimestamp p \<noteq> None \<and> fs = [] then None else Some (p\<lparr>pol_finalizers := fs\<rparr>)))"
    and update_conditions:
      "objs w (policy_key p) = Some p \<Longrightarrow> fst (rc_statusUpdate K (p\<lparr>pol_conditions := cs\<rparr>) w) = None \<Longrightarrow>
       objs (snd (rc_statusUpdate K (p\<lparr>pol_conditions := cs\<rparr>) w)) =
         (objs w)(policy_key p \<mapsto> p\<lparr>pol_conditions := cs\<rparr>)"

subsection \<open>Reconcile\<close>

record ('a, 'p, 'v, 'c, 'w, 'x) reconciler =
  rr_client :: "('w, 'x) rclient"
  rr_util :: object_util
  rr_compiler :: "('a, 'p, 'v, 'c) compiler"

text \<open>What the library's builder collects of a controller, and \<open>Complete\<close>, which registers it.\<close>

record controller_builder =
  cb_For :: string
  cb_Named :: string
  cb_Owns :: "string list"

definition SetupWithManager :: "(controller_builder \<Rightarrow> goerr option) \<Rightarrow> goerr option" where
  "SetupWithManager Complete =
     Complete \<lparr>cb_For = ''ChalkReportPolicy'', cb_Named = ''chalkreportpolicy'', cb_Owns = [''Profile'', ''Downloader'']\<rparr>"

definition policyCacheFinalizer :: string where
  "policyCacheFinalizer = ''chalk.ocular.crashoverride.run/cel-cache''"

definition ready_condition :: "'p compiled_policy res \<Rightarrow> 'x policy \<Rightarrow> condition" where
  "ready_condition r reportPolicy =
     (case r of
        Inl err \<Rightarrow> \<lparr>cd_type = ''Ready'', cd_status = ''False'', cd_reason = ''CELCompileFailed'',
                    cd_message = err_text err, cd_generation = pol_generation reportPolicy\<rparr>
      | Inr _ \<Rightarrow> \<lparr>cd_type = ''Ready'', cd_status = ''True'', cd_reason = ''CELCompiled'',
                  cd_message = '''', cd_generation = pol_generation reportPolicy\<rparr>)"

definition Reconcile ::
  "('a, 'p, 'v, 'c, 'w, 'x) reconciler \<Rightarrow> string \<times> string \<Rightarrow> 'c \<times> 'w \<Rightarrow> goerr option \<times> 'c \<times> 'w" where
  "Reconcile r req cw =
     (let c = fst cw; K = rr_client r; U = rr_util r in
      case rc_get K req (snd cw) of
        (Inl err, w) \<Rightarrow> (rc_ignoreNotFound K err, c, w)
      | (Inr reportPolicy, w) \<Rightarrow>
          if pol_deletionTimestamp reportPolicy \<noteq> None then
            (case Remove (rr_compiler r) reportPolicy c of
               (Some err, c1) \<Rightarrow> (Some err, c1, w)
             | (None, c1) \<Rightarrow>
                 let (err, w1) = rc_update K
                       (reportPolicy\<lparr>pol_finalizers := ou_remove U (pol_finalizers reportPolicy) policyCacheFinalizer\<rparr>) w
                 in (err, c1, w1))
          else if \<not> ou_contains U (pol_finalizers reportPolicy) policyCacheFinalizer then
            (let (err, w1) = rc_update K
                   (reportPolicy\<lparr>pol_finalizers := ou_add U (pol_finalizers reportPolicy) policyCacheFinalizer\<rparr>) w
             in (err, c, w1))
          else
            (let (compiled, c1) = Get (rr_compiler r) reportPolicy c;
                 (metaChanged, cs) = ou_setCondition U (pol_conditions reportPolicy)
                                       (ready_condition compiled reportPolicy)
             in if metaChanged then
                  (let (err, w1) = rc_statusUpdate K (reportPolicy\<lparr>pol_conditions := cs\<rparr>) w in (err, c1, w1))
                else (None, c1, w)))"

lemma ready_condition_type [simp]: "cd_type (ready_condition r p) = ''Ready''"
  by (simp add: ready_condition_def split: sum.split)

lemma ready_condition_True: "cd_status (ready_condition r p) = ''True'' \<longleftrightarrow> (\<exists>cp. r = Inr cp)"
  by (simp add: ready_condition_def split: sum.split)

lemma ready_condition_frame [simp]:
  "ready_condition r (p\<lparr>pol_conditions := cs\<rparr>) = ready_condition r p"
  "ready_condition r (p\<lparr>pol_finalizers := fs\<rparr>) = ready_condition r p"
  by (simp_all add: ready_condition_def split: sum.split)

lemma compile_frame [simp]:
  "compile env (p\<lparr>pol_conditions := cs\<rparr>) = compile env p"
  "compile env (p\<lparr>pol_finalizers := fs\<rparr>) = compile env p"
  by (rule compile_cong; simp)+

text \<open>What \<open>Reconcile\<close> does on each of its branches.\<close>

lemma Reconcile_error [branch_simps]:
  "rc_get (rr_client r) req w = (Inl e, w1) \<Longrightarrow>
   Reconcile r req (c, w) = (rc_ignoreNotFound (rr_client r) e, c, w1)"
  by (simp add: Reconcile_def)

lemma Reconcile_deleted [branch_simps]:
  assumes "rc_get (rr_client r) req w = (Inr p, w1)" "pol_deletionTimestamp p \<noteq> None"
  shows "Reconcile r req (c, w) =
    (let u = rc_update (rr_client r)
               (p\<lparr>pol_finalizers := ou_remove (rr_util r) (pol_finalizers p) policyCacheFinalizer\<rparr>) w1
     in (fst u, snd (Remove (rr_compiler r) p c), snd u))"
  using assms by (simp add: Reconcile_def Remove_def Let_def split_beta)

lemma Reconcile_unmarked [branch_simps]:
  assumes "rc_get (rr_client r) req w = (Inr p, w1)" "pol_deletionTimestamp p = None"
    and "\<not> ou_contains (rr_util r) (pol_finalizers p) policyCacheFinalizer"
  shows "Reconcile r req (c, w) =
    (let u = rc_update (rr_client r)
               (p\<lparr>pol_finalizers := ou_add (rr_util r) (pol_finalizers p) policyCacheFinalizer\<rparr>) w1
     in (fst u, c, snd u))"
  using assms by (simp add: Reconcile_def Let_def split_beta)

lemma Reconcile_compiled [branch_simps]:
  assumes "rc_get (rr_client r) req w = (Inr p, w1)" "pol_deletionTimestamp p = None"
    and "ou_contains (rr_util r) (pol_finalizers p) policyCacheFinalizer"
    and "ou_setCondition (rr_util r) (pol_conditions p)
           (ready_condition (fst (Get (rr_compiler r) p c)) p) = (changed, cs)"
  shows "Reconcile r req (c, w) =
    (if changed then
       (let u = rc_statusUpdate (rr_client r) (p\<lparr>pol_conditions := cs\<rparr>) w1
        in (fst u, snd (Get (rr_compiler r) p c), snd u))
     else (None, snd (Get (rr_compiler r) p c), w1))"
  using assms by (simp add: Reconcile_def Let_def split_beta)

subsection \<open>The controller over a store\<close>

text \<open>The three contracts together: what holds of one call of \<open>Reconcile\<close>.\<close>

locale reconciler_model =
  ou: object_utils "rr_util r" + st: object_store "rr_client r" objs
  + cm: compiler_model "rr_compiler r" contents R
  for r :: "('a, 'p, 'v, 'c, 'w, 'x) reconciler" and objs :: "'w \<Rightarrow> (string \<times> string \<rightharpoonup> 'x policy)"
    and contents :: "'c \<Rightarrow> (string \<rightharpoonup> 'p cached)" and R :: "'x policy set"
begin

text \<open>A successful call on a stored object has read that object.\<close>

lemma read_stored:
  assumes "fst (Reconcile r k (c, w)) = None" "objs w k = Some p"
  obtains w1 where "rc_get (rr_client r) k w = (Inr p, w1)" "objs w1 = objs w"
proof -
  obtain q w1 where g: "rc_get (rr_client r) k w = (q, w1)" by force
  with st.get_objs [of k w] have o: "objs w1 = objs w" by simp
  show thesis
  proof (cases q)
    case (Inl e)
    with g st.get_error [of w k e] assms(2) have "rc_ignoreNotFound (rr_client r) e = Some e" by simp
    with g Inl assms(1) show thesis by (simp add: branch_simps)
  next
    case (Inr p')
    with g st.get_found [of k w p'] assms(2) have "p' = p" by simp
    with g o Inr show thesis by (intro that [of w1]) simp_all
  qed
qed

lemma Reconcile_deleted_objs:
  assumes "fst (Reconcile r k (c, w)) = None" "objs w k = Some p" "pol_deletionTimestamp p \<noteq> None"
  shows "objs (snd (snd (Reconcile r k (c, w)))) =
           (objs w)(k := (let fs = ou_remove (rr_util r) (pol_finalizers p) policyCacheFinalizer in
                          if fs = [] then None else Some (p\<lparr>pol_finalizers := fs\<rparr>)))"
    and "fst (snd (Reconcile r k (c, w))) = snd (Remove (rr_compiler r) p c)"
proof -
  from read_stored [OF assms(1,2)] obtain w1 where g: "rc_get (rr_client r) k w = (Inr p, w1)"
    and o: "objs w1 = objs w" by blast
  note R = Reconcile_deleted [OF g assms(3), of c]
  have k: "policy_key p = k" by (rule st.get_key [OF assms(2)])
  have "fst (rc_update (rr_client r)
      (p\<lparr>pol_finalizers := ou_remove (rr_util r) (pol_finalizers p) policyCacheFinalizer\<rparr>) w1) = None"
    using assms(1) by (simp add: R Let_def)
  from st.update_finalizers [OF _ this] show "objs (snd (snd (Reconcile r k (c, w)))) =
           (objs w)(k := (let fs = ou_remove (rr_util r) (pol_finalizers p) policyCacheFinalizer in
                          if fs = [] then None else Some (p\<lparr>pol_finalizers := fs\<rparr>)))"
    using assms(2,3) by (simp add: R o k Let_def)
  show "fst (snd (Reconcile r k (c, w))) = snd (Remove (rr_compiler r) p c)"
    by (simp add: R Let_def)
qed

lemma Reconcile_unmarked_objs:
  assumes "fst (Reconcile r k (c, w)) = None" "objs w k = Some p"
    and "pol_deletionTimestamp p = None" "policyCacheFinalizer \<notin> set (pol_finalizers p)"
  shows "objs (snd (snd (Reconcile r k (c, w)))) =
           (objs w)(k \<mapsto> p\<lparr>pol_finalizers := ou_add (rr_util r) (pol_finalizers p) policyCacheFinalizer\<rparr>)"
    and "fst (snd (Reconcile r k (c, w))) = c"
proof -
  from read_stored [OF assms(1,2)] obtain w1 where g: "rc_get (rr_client r) k w = (Inr p, w1)"
    and o: "objs w1 = objs w" by blast
  note R = Reconcile_unmarked [OF g assms(3), of c, unfolded ou.contains, OF assms(4)]
  have k: "policy_key p = k" by (rule st.get_key [OF assms(2)])
  have "fst (rc_update (rr_client r)
      (p\<lparr>pol_finalizers := ou_add (rr_util r) (pol_finalizers p) policyCacheFinalizer\<rparr>) w1) = None"
    using assms(1) by (simp add: R Let_def)
  from st.update_finalizers [OF _ this] show "objs (snd (snd (Reconcile r k (c, w)))) =
           (objs w)(k \<mapsto> p\<lparr>pol_finalizers := ou_add (rr_util r) (pol_finalizers p) policyCacheFinalizer\<rparr>)"
    using assms(2,3) by (simp add: R o k Let_def)
  show "fst (snd (Reconcile r k (c, w))) = c"
    by (simp add: R Let_def)
qed

lemma Reconcile_ready_objs:
  assumes "fst (Reconcile r k (c, w)) = None" "objs w k = Some p"
    and "pol_deletionTimestamp p = None" "policyCacheFinalizer \<in> set (pol_finalizers p)"
    and "cm.inv c" "p \<in> R"
  shows "\<exists>cs. objs (snd (snd (Reconcile r k (c, w)))) = (objs w)(k \<mapsto> p\<lparr>pol_conditions := cs\<rparr>)
       \<and> find_condition cs ''Ready'' =
           Some (ready_condition (compile (comp_env (rr_compiler r)) p) p)
       \<and> (\<forall>t. t \<noteq> ''Ready'' \<longrightarrow> find_condition cs t = find_condition (pol_conditions p) t)"
proof -
  let ?d = "ready_condition (compile (comp_env (rr_compiler r)) p) p"
  from read_stored [OF assms(1,2)] obtain w1 where g: "rc_get (rr_client r) k w = (Inr p, w1)"
    and o: "objs w1 = objs w" by blast
  have k: "policy_key p = k" by (rule st.get_key [OF assms(2)])
  obtain ch cs where s: "ou_setCondition (rr_util r) (pol_conditions p) ?d = (ch, cs)" by force
  have f: "find_condition cs ''Ready'' = Some ?d"
    using ou.find_set [of "pol_conditions p" ?d] by (simp add: s)
  have t: "\<forall>t. t \<noteq> ''Ready'' \<longrightarrow> find_condition cs t = find_condition (pol_conditions p) t"
    using ou.find_other [of _ ?d "pol_conditions p"] by (simp add: s)
  note R = Reconcile_compiled [OF g assms(3), unfolded ou.contains, OF assms(4),
      of c, unfolded cm.Get_correct(1) [OF assms(5,6)], OF s]
  have "objs (snd (snd (Reconcile r k (c, w)))) = (objs w)(k \<mapsto> p\<lparr>pol_conditions := cs\<rparr>)"
  proof (cases ch)
    case True
    then have "fst (rc_statusUpdate (rr_client r) (p\<lparr>pol_conditions := cs\<rparr>) w1) = None"
      using assms(1) by (simp add: R Let_def)
    from st.update_conditions [OF _ this] show ?thesis
      using assms(2) True by (simp add: R o k Let_def)
  next
    case False
    with ou.unchanged [of "pol_conditions p" ?d] have "cs = pol_conditions p" by (simp add: s)
    with False assms(2) show ?thesis by (simp add: R o fun_upd_idem)
  qed
  with f t show ?thesis by blast
qed

text \<open>On an object that carries the finalizer and its condition, \<open>Reconcile\<close> reads and writes nothing.\<close>

lemma Reconcile_settled:
  assumes "fst (Reconcile r k (c, w)) = None" "objs w k = Some p"
    and "pol_deletionTimestamp p = None" "policyCacheFinalizer \<in> set (pol_finalizers p)"
    and "cm.inv c" "p \<in> R"
    and "find_condition (pol_conditions p) ''Ready'' =
           Some (ready_condition (compile (comp_env (rr_compiler r)) p) p)"
  shows "snd (snd (Reconcile r k (c, w))) = snd (rc_get (rr_client r) k w)"
proof -
  let ?d = "ready_condition (compile (comp_env (rr_compiler r)) p) p"
  from read_stored [OF assms(1,2)] obtain w1 where g: "rc_get (rr_client r) k w = (Inr p, w1)" by blast
  obtain ch cs where s: "ou_setCondition (rr_util r) (pol_conditions p) ?d = (ch, cs)" by force
  with ou.same [of "pol_conditions p" ?d] assms(7) have "\<not> ch" by simp
  note R = Reconcile_compiled [OF g assms(3), unfolded ou.contains, OF assms(4),
      of c, unfolded cm.Get_correct(1) [OF assms(5,6)], OF s]
  from R \<open>\<not> ch\<close> show ?thesis by (simp add: g)
qed

text \<open>The cache stays coherent, whatever the client answers.\<close>

lemma Reconcile_inv:
  assumes "cm.inv c" "\<And>p. objs w k = Some p \<Longrightarrow> p \<in> R"
  shows "cm.inv (fst (snd (Reconcile r k (c, w))))"
proof -
  obtain q w1 where g: "rc_get (rr_client r) k w = (q, w1)" by force
  show ?thesis
  proof (cases q)
    case (Inl e)
    with g assms(1) show ?thesis by (simp add: branch_simps)
  next
    case (Inr p)
    with g st.get_found [of k w p] assms(2) have p: "p \<in> R" by simp
    from g Inr cm.Remove_inv [OF assms(1), of p] cm.Get_correct(2) [OF assms(1) p] assms(1)
    show ?thesis by (simp add: Reconcile_def Let_def split_beta Remove_def)
  qed
qed

end

subsection \<open>A reference store and reference helpers\<close>

definition ref_util :: object_util where
  "ref_util = \<lparr>ou_contains = (\<lambda>fs f. f \<in> set fs),
     ou_add = (\<lambda>fs f. if f \<in> set fs then fs else fs @ [f]),
     ou_remove = (\<lambda>fs f. filter (\<lambda>g. g \<noteq> f) fs),
     ou_setCondition = (\<lambda>cs c.
       if find_condition cs (cd_type c) = Some c then (False, cs)
       else if find_condition cs (cd_type c) = None then (True, cs @ [c])
       else (True, map (\<lambda>d. if cd_type d = cd_type c then c else d) cs))\<rparr>"

lemma find_append_None: "find P cs = None \<Longrightarrow> find P (cs @ ds) = find P ds"
  by (induction cs) (auto split: if_splits)

lemma find_append_other: "\<not> P c \<Longrightarrow> find P (cs @ [c]) = find P cs"
  by (induction cs) auto

lemma find_replace_same:
  "find_condition cs (cd_type c) \<noteq> None \<Longrightarrow>
   find_condition (map (\<lambda>d. if cd_type d = cd_type c then c else d) cs) (cd_type c) = Some c"
  by (induction cs) (auto simp: find_condition_def)

lemma find_replace_other:
  "t \<noteq> cd_type c \<Longrightarrow>
   find_condition (map (\<lambda>d. if cd_type d = cd_type c then c else d) cs) t = find_condition cs t"
  by (induction cs) (auto simp: find_condition_def)

lemma ref_util_laws: "object_utils ref_util"
proof
  fix fs f and cs :: "condition list" and c :: condition and t
  show "ou_contains ref_util fs f \<longleftrightarrow> f \<in> set fs" by (simp add: ref_util_def)
  show "set (ou_add ref_util fs f) = insert f (set fs)" by (auto simp: ref_util_def)
  show "set (ou_remove ref_util fs f) = set fs - {f}" by (auto simp: ref_util_def)
  show "find_condition (snd (ou_setCondition ref_util cs c)) (cd_type c) = Some c"
    by (simp add: ref_util_def find_replace_same)
       (simp add: find_condition_def find_append_None)
  show "t \<noteq> cd_type c \<Longrightarrow>
      find_condition (snd (ou_setCondition ref_util cs c)) t = find_condition cs t"
    by (auto simp: ref_util_def find_replace_other) (simp add: find_condition_def find_append_other)
  show "\<not> fst (ou_setCondition ref_util cs c) \<Longrightarrow> snd (ou_setCondition ref_util cs c) = cs"
    by (simp add: ref_util_def split: if_splits)
  show "find_condition cs (cd_type c) = Some c \<Longrightarrow> \<not> fst (ou_setCondition ref_util cs c)"
    by (simp add: ref_util_def)
qed

text \<open>The world is the store itself; an object is found under its own key only.\<close>

type_synonym 'x ref_store = "string \<times> string \<rightharpoonup> 'x policy"

definition ref_objs :: "'x ref_store \<Rightarrow> (string \<times> string \<rightharpoonup> 'x policy)" where
  "ref_objs w k = (case w k of None \<Rightarrow> None | Some p \<Rightarrow> if policy_key p = k then Some p else None)"

definition ref_rclient :: "('x ref_store, 'x) rclient" where
  "ref_rclient = \<lparr>
     rc_get = (\<lambda>k w. (case ref_objs w k of None \<Rightarrow> Inl (ErrMsg ''not found'') | Some p \<Rightarrow> Inr p, w)),
     rc_update = (\<lambda>p w. (None, w(policy_key p :=
        (if pol_deletionTimestamp p \<noteq> None \<and> pol_finalizers p = [] then None else Some p)))),
     rc_statusUpdate = (\<lambda>p w. (None, w(policy_key p \<mapsto> p))),
     rc_ignoreNotFound = (\<lambda>e. if e = ErrMsg ''not found'' then None else Some e)\<rparr>"

lemma ref_objs_upd: "policy_key p = k \<Longrightarrow> ref_objs (w(k \<mapsto> p)) = (ref_objs w)(k \<mapsto> p)"
  by (auto simp: ref_objs_def fun_eq_iff)

lemma ref_objs_del: "ref_objs (w(k := None)) = (ref_objs w)(k := None)"
  by (auto simp: ref_objs_def fun_eq_iff)

lemma ref_store_laws: "object_store ref_rclient ref_objs"
proof
  fix k and w :: "'x ref_store" and p :: "'x policy" and e fs cs
  show "ref_objs (snd (rc_get ref_rclient k w)) = ref_objs w" by (simp add: ref_rclient_def)
  show "fst (rc_get ref_rclient k w) = Inr p \<Longrightarrow> ref_objs w k = Some p"
    by (simp add: ref_rclient_def split: option.splits)
  show "ref_objs w k \<noteq> None \<Longrightarrow> fst (rc_get ref_rclient k w) = Inl e \<Longrightarrow>
      rc_ignoreNotFound ref_rclient e = Some e"
    by (simp add: ref_rclient_def split: option.splits)
  show "ref_objs w k = Some p \<Longrightarrow> policy_key p = k"
    by (simp add: ref_objs_def split: option.splits if_splits)
  show "ref_objs w (policy_key p) = Some p \<Longrightarrow>
       fst (rc_update ref_rclient (p\<lparr>pol_finalizers := fs\<rparr>) w) = None \<Longrightarrow>
       ref_objs (snd (rc_update ref_rclient (p\<lparr>pol_finalizers := fs\<rparr>) w)) =
         (ref_objs w)(policy_key p :=
            (if pol_deletionTimestamp p \<noteq> None \<and> fs = [] then None else Some (p\<lparr>pol_finalizers := fs\<rparr>)))"
    by (simp add: ref_rclient_def ref_objs_upd ref_objs_del)
  show "ref_objs w (policy_key p) = Some p \<Longrightarrow>
       fst (rc_statusUpdate ref_rclient (p\<lparr>pol_conditions := cs\<rparr>) w) = None \<Longrightarrow>
       ref_objs (snd (rc_statusUpdate ref_rclient (p\<lparr>pol_conditions := cs\<rparr>) w)) =
         (ref_objs w)(policy_key p \<mapsto> p\<lparr>pol_conditions := cs\<rparr>)"
    by (simp add: ref_rclient_def ref_objs_upd)
qed

interpretation refu: object_utils ref_util
  by (rule ref_util_laws)

interpretation refs: object_store "ref_rclient :: ('x ref_store, 'x) rclient" ref_objs
  by (rule ref_store_laws)

text \<open>The contract of the controller holds of the model's \<open>Reconcile\<close> over the reference libraries.\<close>

interpretation rr: reconciler_model
  "\<lparr>rr_client = ref_rclient, rr_util = ref_util, rr_compiler = \<lparr>comp_env = env, comp_lru = list_lru\<rparr>\<rparr>"
  ref_objs lc_contents "{p. pol_spec p = f (pol_uid p) (pol_generation p)}"
  for env :: "('a, 'p, 'v) cel" and f :: "string \<Rightarrow> int \<Rightarrow> 'x policy_spec"
  by (intro reconciler_model.intro compiler_model.intro compiler_model_axioms.intro)
     (simp_all add: ref_util_laws ref_store_laws list_lru_laws generation_stable_by)

abbreviation ref_reconciler ::
  "(string, string, rval, string cached list_cache, unit ref_store, unit) reconciler" where
  "ref_reconciler \<equiv> \<lparr>rr_client = ref_rclient, rr_util = ref_util, rr_compiler = ref_compiler\<rparr>"

lemmas ref_rec_run = Reconcile_def ref_rclient_def ref_util_def ref_objs_def Let_def Remove_def Get_def
  compile_and_add_def cacheKey_def list_lru_def ready_condition_def policyCacheFinalizer_def
  find_condition_def lc_trim_def

lemma reconciler_modelI:
  "object_utils (rr_util r) \<Longrightarrow> object_store (rr_client r) objs \<Longrightarrow> compiler_model (rr_compiler r) contents R \<Longrightarrow>
   reconciler_model r objs contents R"
  by (rule reconciler_model.intro)

lemma ref_reconciler_model:
  "generation_stable R \<Longrightarrow> reconciler_model ref_reconciler ref_objs lc_contents R"
  by (rule reconciler_modelI)
     (simp_all add: ref_util_laws ref_store_laws list_lru_laws compiler_model.intro compiler_model_axioms.intro)

subsection \<open>Properties of the controller\<close>

text \<open>
  C29. The Ready condition tells whether the policy compiles. A successful \<open>Reconcile\<close> of a live policy
  that carries the finalizer leaves it stored with the condition \<open>Ready\<close> of the current generation,
  True exactly when the expressions compile, else False with the compile error as its message; the
  other conditions, the specification and every other object are as before.
\<close>

theorem reconcile_ready_iff_compiles:
  assumes "reconciler_model r objs contents R"
    and "coherent (comp_env (rr_compiler r)) R (contents c)" "p \<in> R"
    and "fst (Reconcile r k (c, w)) = None" "objs w k = Some p"
    and "pol_deletionTimestamp p = None" "policyCacheFinalizer \<in> set (pol_finalizers p)"
  shows "\<exists>cs. objs (snd (snd (Reconcile r k (c, w)))) = (objs w)(k \<mapsto> p\<lparr>pol_conditions := cs\<rparr>)
     \<and> (\<exists>d. find_condition cs ''Ready'' = Some d \<and> cd_generation d = pol_generation p
         \<and> (case compile (comp_env (rr_compiler r)) p of
              Inr _ \<Rightarrow> cd_status d = ''True''
            | Inl e \<Rightarrow> cd_status d = ''False'' \<and> cd_message d = err_text e))
     \<and> (\<forall>t. t \<noteq> ''Ready'' \<longrightarrow> find_condition cs t = find_condition (pol_conditions p) t)"
proof -
  from reconciler_model.Reconcile_ready_objs [OF assms(1,4-7,2,3)] obtain cs where cs:
    "objs (snd (snd (Reconcile r k (c, w)))) = (objs w)(k \<mapsto> p\<lparr>pol_conditions := cs\<rparr>)"
    "find_condition cs ''Ready'' = Some (ready_condition (compile (comp_env (rr_compiler r)) p) p)"
    "\<forall>t. t \<noteq> ''Ready'' \<longrightarrow> find_condition cs t = find_condition (pol_conditions p) t" by blast
  have "case compile (comp_env (rr_compiler r)) p of
      Inr _ \<Rightarrow> cd_status (ready_condition (compile (comp_env (rr_compiler r)) p) p) = ''True''
    | Inl e \<Rightarrow> cd_status (ready_condition (compile (comp_env (rr_compiler r)) p) p) = ''False''
        \<and> cd_message (ready_condition (compile (comp_env (rr_compiler r)) p) p) = err_text e"
    by (simp add: ready_condition_def split: sum.split)
  moreover have "cd_generation (ready_condition (compile (comp_env (rr_compiler r)) p) p) = pol_generation p"
    by (simp add: ready_condition_def split: sum.split)
  ultimately show ?thesis using cs by blast
qed

definition demo_stored :: "string \<Rightarrow> string list \<Rightarrow> int option \<Rightarrow> unit policy" where
  "demo_stored matchExpr fs del =
     (demo_policy matchExpr None)\<lparr>pol_finalizers := fs, pol_conditions := [], pol_deletionTimestamp := del\<rparr>"

lemma demo_stored_frame [simp]:
  "pol_name (demo_stored m fs d) = ''docker''" "pol_namespace (demo_stored m fs d) = ''scan''"
  "pol_finalizers (demo_stored m fs d) = fs" "pol_deletionTimestamp (demo_stored m fs d) = d"
  "pol_uid (demo_stored m fs d) = ''u1''"
  by (simp_all add: demo_stored_def demo_policy_def)

lemma generation_stable_single [simp]: "generation_stable {p}"
  by (simp add: generation_stable_def)

theorem reconcile_ready_iff_compiles_witness:
  "let p = demo_stored ''!x'' [policyCacheFinalizer] None
   in \<exists>q d. ref_objs (snd (snd (Reconcile ref_reconciler (''scan'', ''docker'')
            ((0, []), [(''scan'', ''docker'') \<mapsto> p])))) (''scan'', ''docker'') = Some q
        \<and> find_condition (pol_conditions q) ''Ready'' = Some d \<and> cd_status d = ''False''"
proof -
  let ?p = "demo_stored ''!x'' [policyCacheFinalizer] None"
  let ?w = "[(''scan'', ''docker'') \<mapsto> ?p]"
  have c: "compile ref_cel ?p = Inl (ErrWrap ''matchCondition: '' (ErrMsg ''Syntax error'') [])"
    by (simp add: ref_run demo_stored_def)
  have o: "ref_objs ?w (''scan'', ''docker'') = Some ?p" by (simp add: ref_objs_def)
  have ok: "fst (Reconcile ref_reconciler (''scan'', ''docker'') ((0, []), ?w)) = None"
    by (simp add: Reconcile_def ref_rclient_def ref_util_def o Let_def split_beta)
  from reconcile_ready_iff_compiles [OF ref_reconciler_model [of "{?p}"], of "(0, [])" ?p
      "(''scan'', ''docker'')" ?w, OF generation_stable_single _ _ ok o] c
  obtain cs d where
    "ref_objs (snd (snd (Reconcile ref_reconciler (''scan'', ''docker'') ((0, []), ?w))))
       = (ref_objs ?w)((''scan'', ''docker'') \<mapsto> ?p\<lparr>pol_conditions := cs\<rparr>)"
    "find_condition cs ''Ready'' = Some d" "cd_status d = ''False''"
    by auto
  then show ?thesis unfolding Let_def by (intro exI [of _ "?p\<lparr>pol_conditions := cs\<rparr>"] exI [of _ d]) simp
qed

text \<open>
  C30. Deletion leaves nothing behind. A successful \<open>Reconcile\<close> of a policy under deletion empties the
  compiler's cache entry for it and touches no other entry, and takes the controller's finalizer off
  the object: the object is gone when that was the last one, and else it keeps every other finalizer
  and all its other fields. No other object changes.
\<close>

theorem reconcile_deletion_forgets:
  assumes "reconciler_model r objs contents R"
    and "fst (Reconcile r k (c, w)) = None" "objs w k = Some p" "pol_deletionTimestamp p \<noteq> None"
  shows "contents (fst (snd (Reconcile r k (c, w)))) = (contents c)(pol_uid p := None)
     \<and> (\<exists>fs. set fs = set (pol_finalizers p) - {policyCacheFinalizer}
         \<and> objs (snd (snd (Reconcile r k (c, w)))) =
             (objs w)(k := (if fs = [] then None else Some (p\<lparr>pol_finalizers := fs\<rparr>))))"
proof -
  have lru: "lru_cache (comp_lru (rr_compiler r)) contents"
    using assms(1) by (simp add: reconciler_model_def compiler_model_def)
  have U: "object_utils (rr_util r)" using assms(1) by (simp add: reconciler_model_def)
  note d = reconciler_model.Reconcile_deleted_objs [OF assms]
  have "contents (fst (snd (Reconcile r k (c, w)))) = (contents c)(pol_uid p := None)"
    unfolding d by (simp add: Remove_def cacheKey_def lru_cache.contents_remove [OF lru])
  moreover have "objs (snd (snd (Reconcile r k (c, w)))) =
      (objs w)(k := (if ou_remove (rr_util r) (pol_finalizers p) policyCacheFinalizer = [] then None
        else Some (p\<lparr>pol_finalizers := ou_remove (rr_util r) (pol_finalizers p) policyCacheFinalizer\<rparr>)))"
    unfolding d Let_def by (rule refl)
  ultimately show ?thesis using object_utils.set_remove [OF U] by blast
qed

theorem reconcile_deletion_forgets_witness:
  "let p = demo_stored ''true'' [policyCacheFinalizer, ''other''] (Some 5)
   in lc_contents (fst (snd (Reconcile ref_reconciler (''scan'', ''docker'')
        ((0, [(''u1'', CForeign ''x''), (''u2'', CForeign ''y'')]), [(''scan'', ''docker'') \<mapsto> p]))))
      = [''u2'' \<mapsto> CForeign ''y'']"
proof -
  let ?p = "demo_stored ''true'' [policyCacheFinalizer, ''other''] (Some 5)"
  let ?w = "[(''scan'', ''docker'') \<mapsto> ?p]"
  let ?c = "(0, [(''u1'', CForeign ''x''), (''u2'', CForeign ''y'')]) :: string cached list_cache"
  have o: "ref_objs ?w (''scan'', ''docker'') = Some ?p" by (simp add: ref_objs_def)
  have ok: "fst (Reconcile ref_reconciler (''scan'', ''docker'') (?c, ?w)) = None"
    by (simp add: Reconcile_def ref_rclient_def ref_util_def o Let_def split_beta Remove_def)
  from reconcile_deletion_forgets [OF ref_reconciler_model [of "{?p}"], OF generation_stable_single ok o]
  show ?thesis by (auto simp: Let_def)
qed

text \<open>
  The finalizer comes before the cache. A live policy without the finalizer is given it, in front of
  nothing else: \<open>Reconcile\<close> neither compiles it nor touches the cache or its conditions, so no cache
  entry is made for an object whose deletion the controller would miss.
\<close>

theorem reconcile_marks_before_caching:
  assumes "reconciler_model r objs contents R"
    and "fst (Reconcile r k (c, w)) = None" "objs w k = Some p"
    and "pol_deletionTimestamp p = None" "policyCacheFinalizer \<notin> set (pol_finalizers p)"
  shows "fst (snd (Reconcile r k (c, w))) = c
     \<and> (\<exists>fs. set fs = insert policyCacheFinalizer (set (pol_finalizers p))
         \<and> objs (snd (snd (Reconcile r k (c, w)))) = (objs w)(k \<mapsto> p\<lparr>pol_finalizers := fs\<rparr>))"
proof -
  have U: "object_utils (rr_util r)" using assms(1) by (simp add: reconciler_model_def)
  note d = reconciler_model.Reconcile_unmarked_objs [OF assms]
  show ?thesis using object_utils.set_add [OF U] unfolding d by blast
qed

theorem reconcile_marks_before_caching_witness:
  "let p = demo_stored ''true'' [''other''] None; k = (''scan'', ''docker'')
   in \<exists>q. ref_objs (snd (snd (Reconcile ref_reconciler k ((0, []), [k \<mapsto> p])))) k = Some q
        \<and> policyCacheFinalizer \<in> set (pol_finalizers q) \<and> pol_conditions q = []"
proof -
  let ?p = "demo_stored ''true'' [''other''] None"
  let ?w = "[(''scan'', ''docker'') \<mapsto> ?p]"
  have o: "ref_objs ?w (''scan'', ''docker'') = Some ?p" by (simp add: ref_objs_def)
  have n: "policyCacheFinalizer \<notin> set (pol_finalizers ?p)" by (simp add: policyCacheFinalizer_def)
  then have ok: "fst (Reconcile ref_reconciler (''scan'', ''docker'') ((0, []), ?w)) = None"
    by (simp add: Reconcile_def ref_rclient_def ref_util_def o Let_def split_beta)
  from reconcile_marks_before_caching [OF ref_reconciler_model [of "{?p}"], OF generation_stable_single ok o _ n]
  obtain fs where "policyCacheFinalizer \<in> set fs"
    "ref_objs (snd (snd (Reconcile ref_reconciler (''scan'', ''docker'') ((0, []), ?w))))
       = (ref_objs ?w)((''scan'', ''docker'') \<mapsto> ?p\<lparr>pol_finalizers := fs\<rparr>)" by auto
  then show ?thesis unfolding Let_def
    by (intro exI [of _ "?p\<lparr>pol_finalizers := fs\<rparr>"]) (simp add: demo_stored_def)
qed

text \<open>
  C16. The controller converges. For a live policy, two successful calls settle it: whatever it looked like
  before, a third call reads the object and writes nothing.
\<close>

theorem reconcile_converges:
  fixes r :: "('a, 'p, 'v, 'c, 'w, 'x) reconciler"
  assumes "reconciler_model r objs contents R"
    and "coherent (comp_env (rr_compiler r)) R (contents c)"
    and "objs w k = Some p" "pol_deletionTimestamp p = None"
    and "\<forall>q. pol_uid q = pol_uid p \<and> pol_generation q = pol_generation p \<and> pol_spec q = pol_spec p \<longrightarrow> q \<in> R"
    and "Reconcile r k (c, w) = (None, s1)" "Reconcile r k s1 = (None, s2)" "Reconcile r k s2 = (None, s3)"
  shows "snd s3 = snd (rc_get (rr_client r) k (snd s2))"
proof -
  let ?env = "comp_env (rr_compiler r)"
  let ?inv = "\<lambda>c. coherent ?env R (contents c)"
  let ?good = "\<lambda>q. pol_uid q = pol_uid p \<and> pol_generation q = pol_generation p \<and> pol_spec q = pol_spec p
                  \<and> pol_deletionTimestamp q = None"
  let ?marked = "\<lambda>q. policyCacheFinalizer \<in> set (pol_finalizers q)"
  let ?settled = "\<lambda>q. find_condition (pol_conditions q) ''Ready'' = Some (ready_condition (compile ?env q) q)"
  have U: "object_utils (rr_util r)" using assms(1) by (simp add: reconciler_model_def)
  have R: "q \<in> R" if "?good q" for q using assms(5) that by blast
  have step: "\<exists>q'. objs w' k = Some q' \<and> ?good q' \<and> ?marked q' \<and> (?marked q \<longrightarrow> ?settled q') \<and> ?inv c'"
    if "Reconcile r k (b, v) = (None, c', w')" "objs v k = Some q" "?good q" "?inv b" for b v c' w' q
  proof -
    have ok: "fst (Reconcile r k (b, v)) = None" using that(1) by simp
    have inv: "?inv c'"
      using reconciler_model.Reconcile_inv [OF assms(1) that(4), of v k] that R by simp
    show ?thesis
    proof (cases "?marked q")
      case True
      from reconciler_model.Reconcile_ready_objs [OF assms(1) ok that(2) _ True that(4)] that R inv True
      obtain cs where "objs w' k = Some (q\<lparr>pol_conditions := cs\<rparr>)"
        "find_condition cs ''Ready'' = Some (ready_condition (compile ?env q) q)" by auto
      with that(3) True inv show ?thesis by simp
    next
      case False
      from reconciler_model.Reconcile_unmarked_objs(1) [OF assms(1) ok that(2) _ False] that
      have "objs w' k = Some (q\<lparr>pol_finalizers := ou_add (rr_util r) (pol_finalizers q) policyCacheFinalizer\<rparr>)"
        by simp
      with that(3) False inv object_utils.set_add [OF U] show ?thesis by simp
    qed
  qed
  obtain c1 w1 c2 w2 where s: "s1 = (c1, w1)" "s2 = (c2, w2)" by force
  from step [of c w c1 w1 p] assms(2-4,6) obtain q1 where q1:
    "objs w1 k = Some q1" "?good q1" "?marked q1" "?inv c1" unfolding s by blast
  from step [of c1 w1 c2 w2 q1] assms(7) q1 obtain q2 where q2:
    "objs w2 k = Some q2" "?good q2" "?marked q2" "?settled q2" "?inv c2" unfolding s by blast
  have ok: "fst (Reconcile r k (c2, w2)) = None" using assms(8) by (simp add: s)
  from reconciler_model.Reconcile_settled [OF assms(1) ok q2(1) _ q2(3,5) R q2(4)] q2(2)
  show ?thesis using assms(8) by (simp add: s)
qed

theorem reconcile_converges_witness:
  "let p = demo_stored ''true'' [] None; k = (''scan'', ''docker'');
       s2 = snd (Reconcile ref_reconciler k (snd (Reconcile ref_reconciler k ((0, []), [k \<mapsto> p]))));
       s3 = snd (Reconcile ref_reconciler k s2)
   in snd s3 = snd s2"
proof -
  let ?p = "demo_stored ''true'' [] None" and ?k = "(''scan'', ''docker'')"
  let ?R = "{q. pol_spec q = pol_spec ?p}"
  let ?s0 = "((0, []), [?k \<mapsto> ?p])"
  let ?s1 = "snd (Reconcile ref_reconciler ?k ?s0)"
  let ?s2 = "snd (Reconcile ref_reconciler ?k ?s1)"
  let ?s3 = "snd (Reconcile ref_reconciler ?k ?s2)"
  have m: "reconciler_model ref_reconciler ref_objs lc_contents ?R"
    by (rule ref_reconciler_model) (simp add: generation_stable_def)
  have o: "ref_objs [?k \<mapsto> ?p] ?k = Some ?p" by (simp add: ref_objs_def)
  have r: "fst (Reconcile ref_reconciler ?k (c, w)) = None" for c w
    by (simp add: Reconcile_def ref_rclient_def ref_util_def Let_def split_beta Remove_def
        split: option.split)
  have e: "Reconcile ref_reconciler ?k s = (None, snd (Reconcile ref_reconciler ?k s))" for s
    using r [of "fst s" "snd s"] by (simp add: prod_eq_iff)
  have "snd ?s3 = snd (rc_get (rr_client ref_reconciler) ?k (snd ?s2))"
    by (rule reconcile_converges [OF m _ o _ _ e e e]) simp_all
  then show ?thesis by (simp add: Let_def ref_rclient_def)
qed

end
