(* ===== verification/Go_Json.thy ===== *)
theory Go_Json
  imports Api_Types
begin

section \<open>Strings and JSON of the Go standard library\<close>

text \<open>
  What the code uses of \<^verbatim>\<open>net/url\<close> and \<^verbatim>\<open>encoding/json\<close>. JSON is modelled from the syntax tree on: how a
  tree is decoded into a map, a slice or a struct, with the errors decoding records and goes on from
  and those it stops at. Lexical matters (the text of a tree, floating-point and time literals, quoting
  in messages) are the record \<open>jlib\<close>.
\<close>

subsection \<open>Trees\<close>

text \<open>A number keeps its literal, and its \<open>float64\<close> bits unless it is out of range.\<close>

datatype json =
    JNull
  | JBool bool
  | JNum string "64 word option"
  | JStr string
  | JArr "json list"
  | JObj "(string \<times> json) list"

text \<open>
  \<open>jl_parse\<close> reads a text that is one JSON value, \<open>jl_first\<close> the first value of a stream (\<open>Decoder.Decode\<close>);
  \<open>jl_typeError\<close> is \<open>UnmarshalTypeError\<close> for a value and a Go type, \<open>jl_time\<close> the error of a time literal,
  \<open>jl_quote\<close> is \<open>strconv.Quote\<close>.
\<close>

record jlib =
  jl_parse :: "string \<Rightarrow> json res"
  jl_first :: "string \<Rightarrow> json res"
  jl_typeError :: "string \<Rightarrow> string \<Rightarrow> goerr"
  jl_time :: "string \<Rightarrow> goerr option"
  jl_quote :: "string \<Rightarrow> string"

fun json_kind :: "json \<Rightarrow> string" where
  "json_kind JNull = ''null''"
| "json_kind (JBool _) = ''bool''"
| "json_kind (JNum s _) = ''number '' @ s"
| "json_kind (JStr _) = ''string''"
| "json_kind (JArr _) = ''array''"
| "json_kind (JObj _) = ''object''"

subsection \<open>Decoding into interface values\<close>

text \<open>A key that occurs twice has its last value; a number out of range becomes nil and is an error.\<close>

fun any_of :: "json \<Rightarrow> 'v any" where
  "any_of JNull = ANil"
| "any_of (JBool b) = ABool b"
| "any_of (JNum s f) = (case f of None \<Rightarrow> ANil | Some w \<Rightarrow> AFloat64 w)"
| "any_of (JStr s) = AString s"
| "any_of (JArr xs) = ASlice (map any_of xs)"
| "any_of (JObj kvs) = AMap (map_of (rev (map (\<lambda>(k, v). (k, any_of v)) kvs)))"

text \<open>The literals of the numbers out of range, in the order of the text.\<close>

fun bad_numbers :: "json \<Rightarrow> string list" where
  "bad_numbers (JNum s f) = (if f = None then [s] else [])"
| "bad_numbers (JArr xs) = concat (map bad_numbers xs)"
| "bad_numbers (JObj kvs) = concat (map (\<lambda>(k, v). bad_numbers v) kvs)"
| "bad_numbers _ = []"

definition number_error :: "jlib \<Rightarrow> json \<Rightarrow> goerr option" where
  "number_error J j =
     (case bad_numbers j of [] \<Rightarrow> None | s # _ \<Rightarrow> Some (jl_typeError J (''number '' @ s) ''float64''))"

text \<open>Decoding into a \<open>map[string]any\<close> that is empty: the map, and the first error.\<close>

definition decode_report :: "jlib \<Rightarrow> json \<Rightarrow> 'v report \<times> goerr option" where
  "decode_report J j =
     (case j of
        JNull \<Rightarrow> (Map.empty, None)
      | JObj kvs \<Rightarrow> (map_of (rev (map (\<lambda>(k, v). (k, any_of v)) kvs)), number_error J j)
      | _ \<Rightarrow> (Map.empty, Some (jl_typeError J (json_kind j) ''map[string]interface {}'')))"

text \<open>\<open>json.Unmarshal(text, &report)\<close> on an empty map.\<close>

definition unmarshal_report :: "jlib \<Rightarrow> string \<Rightarrow> 'v report \<times> goerr option" where
  "unmarshal_report J text =
     (case jl_parse J text of Inl e \<Rightarrow> (Map.empty, Some e) | Inr j \<Rightarrow> decode_report J j)"

text \<open>Decoding into a nil \<open>[]map[string]any\<close>: every element is decoded, the first error is kept.\<close>

definition first_error :: "goerr option list \<Rightarrow> goerr option" where
  "first_error es = (case filter (\<lambda>e. e \<noteq> None) es of [] \<Rightarrow> None | e # _ \<Rightarrow> e)"

definition decode_reports :: "jlib \<Rightarrow> json \<Rightarrow> 'v report list \<times> goerr option" where
  "decode_reports J j =
     (case j of
        JNull \<Rightarrow> ([], None)
      | JArr xs \<Rightarrow> (map (fst \<circ> decode_report J) xs,
                   first_error (map (\<lambda>x. snd (decode_report J x :: 'v report \<times> goerr option)) xs))
      | _ \<Rightarrow> ([], Some (jl_typeError J (json_kind j) ''[]map[string]interface {}'')))"

lemma first_error_None: "first_error es = None \<longleftrightarrow> (\<forall>e \<in> set es. e = None)"
  by (auto simp: first_error_def filter_empty_conv split: list.split dest: filter_eq_ConsD)

text \<open>\<open>json.NewDecoder(body).Decode(&reports)\<close>: the values after the first one are not looked at.\<close>

definition decode_reports_stream :: "jlib \<Rightarrow> string \<Rightarrow> 'v report list \<times> goerr option" where
  "decode_reports_stream J text =
     (case jl_first J text of Inl e \<Rightarrow> ([], Some e) | Inr j \<Rightarrow> decode_reports J j)"

subsection \<open>Decoding into structs\<close>

text \<open>
  A decoder changes the value it decodes into. \<open>Abort\<close> is an error that stops decoding (from an
  \<open>UnmarshalJSON\<close> method); \<open>Done r e\<close> ends with the value \<open>r\<close> and the first recorded type error \<open>e\<close>.
\<close>

datatype 'r dec = Abort goerr | Done 'r "goerr option"

fun dec_result :: "'r dec \<Rightarrow> 'r res" where
  "dec_result (Abort e) = Inl e"
| "dec_result (Done r (Some e)) = Inl e"
| "dec_result (Done r None) = Inr r"

definition dec_then :: "'r dec \<Rightarrow> ('r \<Rightarrow> 'r dec) \<Rightarrow> 'r dec" where
  "dec_then d f =
     (case d of
        Abort e \<Rightarrow> Abort e
      | Done r e \<Rightarrow> (case f r of Abort e2 \<Rightarrow> Abort e2
                             | Done r2 e2 \<Rightarrow> Done r2 (if e = None then e2 else e)))"

definition on_field ::
  "('r \<Rightarrow> 'f) \<Rightarrow> ('r \<Rightarrow> 'f \<Rightarrow> 'r) \<Rightarrow> (json \<Rightarrow> 'f \<Rightarrow> 'f dec) \<Rightarrow> json \<Rightarrow> 'r \<Rightarrow> 'r dec" where
  "on_field get upd d j r =
     (case d j (get r) of Abort e \<Rightarrow> Abort e | Done x e \<Rightarrow> Done (upd r x) e)"

text \<open>ASCII \<open>strings.ToLower\<close>; field names are matched exactly first, then ignoring case.\<close>

definition to_lower_char :: "char \<Rightarrow> char" where
  "to_lower_char c = (let n = of_char c :: nat in if 65 \<le> n \<and> n \<le> 90 then char_of (n + 32) else c)"

definition ToLower :: "string \<Rightarrow> string" where
  "ToLower s = map to_lower_char s"

definition find_field :: "(string \<times> 'd) list \<Rightarrow> string \<Rightarrow> 'd option" where
  "find_field fs k =
     (case map_of fs k of
        Some d \<Rightarrow> Some d
      | None \<Rightarrow> map_of (map (\<lambda>(n, d). (ToLower n, d)) fs) (ToLower k))"

text \<open>The members of an object in order; an unknown one is skipped.\<close>

fun decode_fields :: "(string \<times> (json \<Rightarrow> 'r \<Rightarrow> 'r dec)) list \<Rightarrow> (string \<times> json) list \<Rightarrow> 'r \<Rightarrow> 'r dec" where
  "decode_fields fs [] r = Done r None"
| "decode_fields fs ((k, v) # kvs) r =
     (case find_field fs k of
        None \<Rightarrow> decode_fields fs kvs r
      | Some d \<Rightarrow> dec_then (d v r) (decode_fields fs kvs))"

definition decode_struct ::
  "jlib \<Rightarrow> string \<Rightarrow> (string \<times> (json \<Rightarrow> 'r \<Rightarrow> 'r dec)) list \<Rightarrow> json \<Rightarrow> 'r \<Rightarrow> 'r dec" where
  "decode_struct J ty fs j r =
     (case j of
        JNull \<Rightarrow> Done r None
      | JObj kvs \<Rightarrow> decode_fields fs kvs r
      | _ \<Rightarrow> Done r (Some (jl_typeError J (json_kind j) ty)))"

definition d_string :: "jlib \<Rightarrow> json \<Rightarrow> string \<Rightarrow> string dec" where
  "d_string J j r =
     (case j of
        JNull \<Rightarrow> Done r None
      | JStr s \<Rightarrow> Done s None
      | _ \<Rightarrow> Done r (Some (jl_typeError J (json_kind j) ''string'')))"

text \<open>\<open>strconv.ParseInt(s, 10, 64)\<close> on a JSON number literal.\<close>

fun digits_value :: "string \<Rightarrow> int \<Rightarrow> int option" where
  "digits_value [] n = Some n"
| "digits_value (c # s) n =
     (let d = of_char c :: int in
      if 48 \<le> d \<and> d \<le> 57 then digits_value s (10 * n + (d - 48)) else None)"

definition parse_int64 :: "string \<Rightarrow> int option" where
  "parse_int64 s =
     (let r = (case s of
                 CHR 0x2D # t \<Rightarrow> if t = [] then None else map_option uminus (digits_value t 0)
               | _ \<Rightarrow> if s = [] then None else digits_value s 0)
      in case r of
           None \<Rightarrow> None
         | Some n \<Rightarrow> if - (2 ^ 63) \<le> n \<and> n < 2 ^ 63 then Some n else None)"

definition d_int64 :: "jlib \<Rightarrow> json \<Rightarrow> int \<Rightarrow> int dec" where
  "d_int64 J j r =
     (let bad = Done r (Some (jl_typeError J (json_kind j) ''int64'')) in
      case j of
        JNull \<Rightarrow> Done r None
      | JNum s _ \<Rightarrow> (case parse_int64 s of None \<Rightarrow> bad | Some n \<Rightarrow> Done n None)
      | _ \<Rightarrow> bad)"

text \<open>\<open>time.Time\<close> has an \<open>UnmarshalJSON\<close>, so its errors stop decoding. A time is its literal.\<close>

definition d_time :: "jlib \<Rightarrow> json \<Rightarrow> string \<Rightarrow> string dec" where
  "d_time J j r =
     (case j of
        JNull \<Rightarrow> Done r None
      | JStr s \<Rightarrow> (case jl_time J s of Some e \<Rightarrow> Abort e | None \<Rightarrow> Done s None)
      | _ \<Rightarrow> Abort (ErrMsg ''Time.UnmarshalJSON: input is not a JSON string''))"

fun d_entries :: "jlib \<Rightarrow> (string \<times> json) list \<Rightarrow> (string \<rightharpoonup> string) \<Rightarrow> (string \<rightharpoonup> string) dec" where
  "d_entries J [] m = Done m None"
| "d_entries J ((k, v) # kvs) m =
     dec_then (on_field (\<lambda>m. '''') (\<lambda>m x. m(k \<mapsto> x)) (d_string J) v m) (d_entries J kvs)"

definition d_strmap :: "jlib \<Rightarrow> json \<Rightarrow> (string \<rightharpoonup> string) \<Rightarrow> (string \<rightharpoonup> string) dec" where
  "d_strmap J j r =
     (case j of
        JNull \<Rightarrow> Done Map.empty None
      | JObj kvs \<Rightarrow> d_entries J kvs r
      | _ \<Rightarrow> Done r (Some (jl_typeError J (json_kind j) ''map[string]string'')))"

text \<open>A pointer: null makes it nil, any other value is decoded into what it points to, or into \<open>zero\<close>.\<close>

definition d_ptr :: "'r \<Rightarrow> (json \<Rightarrow> 'r \<Rightarrow> 'r dec) \<Rightarrow> json \<Rightarrow> 'r option \<Rightarrow> 'r option dec" where
  "d_ptr zero d j r =
     (if j = JNull then Done None None
      else on_field (\<lambda>r. case r of None \<Rightarrow> zero | Some x \<Rightarrow> x) (\<lambda>r x. Some x) d j r)"

text \<open>A slice: the \<open>i\<close>-th element is decoded into the \<open>i\<close>-th one there was, or into \<open>zero\<close>.\<close>

fun d_elems :: "'r \<Rightarrow> (json \<Rightarrow> 'r \<Rightarrow> 'r dec) \<Rightarrow> json list \<Rightarrow> 'r list \<Rightarrow> 'r list dec" where
  "d_elems zero d [] old = Done [] None"
| "d_elems zero d (x # xs) old =
     (case d x (case old of [] \<Rightarrow> zero | r # _ \<Rightarrow> r) of
        Abort e \<Rightarrow> Abort e
      | Done y e \<Rightarrow>
          (case d_elems zero d xs (tl old) of
             Abort e2 \<Rightarrow> Abort e2
           | Done ys e2 \<Rightarrow> Done (y # ys) (if e = None then e2 else e)))"

definition d_slice ::
  "jlib \<Rightarrow> string \<Rightarrow> 'r \<Rightarrow> (json \<Rightarrow> 'r \<Rightarrow> 'r dec) \<Rightarrow> json \<Rightarrow> 'r list \<Rightarrow> 'r list dec" where
  "d_slice J ty zero d j r =
     (case j of
        JNull \<Rightarrow> Done [] None
      | JArr xs \<Rightarrow> d_elems zero d xs r
      | _ \<Rightarrow> Done r (Some (jl_typeError J (json_kind j) ty)))"

subsection \<open>Query escapes\<close>

definition unhex :: "char \<Rightarrow> nat option" where
  "unhex c =
     (let n = of_char c :: nat in
      if 48 \<le> n \<and> n \<le> 57 then Some (n - 48)
      else if 97 \<le> n \<and> n \<le> 102 then Some (n - 87)
      else if 65 \<le> n \<and> n \<le> 70 then Some (n - 55)
      else None)"

definition escape_error :: "jlib \<Rightarrow> string \<Rightarrow> goerr" where
  "escape_error J s = ErrMsg (''invalid URL escape '' @ jl_quote J (take 3 s))"

text \<open>\<open>url.QueryUnescape\<close>: \<open>%AB\<close> is a byte, \<open>+\<close> a space; a malformed escape is an error.\<close>

fun QueryUnescape :: "jlib \<Rightarrow> string \<Rightarrow> string res" where
  "QueryUnescape J [] = Inr []"
| "QueryUnescape J (c # s) =
     (if c = CHR ''%'' then
        (case s of
           a # b # t \<Rightarrow>
             (case (unhex a, unhex b) of
                (Some x, Some y) \<Rightarrow>
                  (case QueryUnescape J t of
                     Inl e \<Rightarrow> Inl e | Inr r \<Rightarrow> Inr (char_of (16 * x + y) # r))
              | _ \<Rightarrow> Inl (escape_error J (c # s)))
         | _ \<Rightarrow> Inl (escape_error J (c # s)))
      else
        (case QueryUnescape J s of
           Inl e \<Rightarrow> Inl e | Inr r \<Rightarrow> Inr ((if c = CHR ''+'' then CHR '' '' else c) # r)))"

text \<open>
  The escaping it inverts: letters, digits and \<open>-_.~\<close> stand for themselves, a space is \<open>+\<close>, every other
  byte is \<open>%\<close> and two hexadecimal digits.
\<close>

definition hex_char :: "nat \<Rightarrow> char" where
  "hex_char n = char_of (if n < 10 then 48 + n else 55 + n)"

definition unreserved :: "char \<Rightarrow> bool" where
  "unreserved c \<longleftrightarrow>
     (let n = of_char c :: nat in
      48 \<le> n \<and> n \<le> 57 \<or> 65 \<le> n \<and> n \<le> 90 \<or> 97 \<le> n \<and> n \<le> 122 \<or> n \<in> {45, 46, 95, 126})"

fun query_escape :: "string \<Rightarrow> string" where
  "query_escape [] = []"
| "query_escape (c # s) =
     (if unreserved c then [c]
      else if c = CHR '' '' then ''+''
      else [CHR ''%'', hex_char (of_char c div 16), hex_char (of_char c mod 16)]) @ query_escape s"

lemma unhex_hex_char: "n < 16 \<Longrightarrow> unhex (hex_char n) = Some n"
  by (simp add: unhex_def hex_char_def Let_def)

lemma unreserved_plain: "unreserved c \<Longrightarrow> c \<noteq> CHR ''%'' \<and> c \<noteq> CHR ''+''"
  by (auto simp: unreserved_def Let_def)

lemma of_char_less: "(of_char c :: nat) < 256"
  using of_char_mod_256 [of c] by (metis mod_less_divisor zero_less_numeral)

lemma hex_pair: "char_of (16 * (of_char c div 16) + of_char c mod (16 :: nat)) = c"
  by simp

lemma query_round_trip: "QueryUnescape J (query_escape s) = Inr s"
proof (induction s)
  case Nil
  then show ?case by simp
next
  case (Cons c s)
  have "(of_char c :: nat) div 16 < 16"
    by (rule less_mult_imp_div_less) (use of_char_less [of c] in simp)
  then show ?case
    using Cons unreserved_plain [of c] by (auto simp: unhex_hex_char hex_pair)
qed

end
