(* ===== verification/Sqs_Parsers.thy ===== *)
theory Sqs_Parsers
  imports Go_Json Policy_Compiler
begin

section \<open>Reports in queue messages\<close>

text \<open>
  \<^verbatim>\<open>api/v1beta1/sqs/s3.go\<close> (the S3 event and how it is decoded) and \<^verbatim>\<open>internal/reports/sqs/parsers.go\<close>
  (the two parsers of a message). The S3 client acts on an external world \<open>'w\<close>; an object's body is the
  text read from it. \<open>multierror\<close> is a library: its operations are the record \<open>multi\<close>.
\<close>

subsection \<open>S3 events\<close>

record s3_bucket =
  bk_name :: string
  bk_owner :: string
  bk_arn :: string

record s3_object =
  ob_key :: string
  ob_size :: int
  ob_urlDecodedKey :: string
  ob_versionId :: string
  ob_eTag :: string
  ob_sequencer :: string

record s3_entity =
  en_schemaVersion :: string
  en_configurationId :: string
  en_bucket :: s3_bucket
  en_object :: s3_object

text \<open>The restore data of \<open>glacierEventData\<close> is behind two pointers.\<close>

record s3_restore =
  rs_expiryTime :: string
  rs_storageClass :: string

record s3_replication =
  rp_ruleId :: string
  rp_bucket :: string
  rp_operation :: string
  rp_requestTime :: string
  rp_failureReason :: string

record s3_event_record =
  er_eventVersion :: string
  er_eventSource :: string
  er_awsRegion :: string
  er_eventTime :: string
  er_eventName :: string
  er_userIdentity :: string
  er_sourceIP :: string
  er_responseElements :: "string \<rightharpoonup> string"
  er_s3 :: s3_entity
  er_glacier :: "s3_restore option option"
  er_restore :: "s3_restore option"
  er_replication :: "s3_replication option"
  er_tiering :: "string option"
  er_lifecycle :: "string option option"

type_synonym s3_event = "s3_event_record list"

definition zero_bucket :: s3_bucket where
  "zero_bucket = \<lparr>bk_name = [], bk_owner = [], bk_arn = []\<rparr>"

definition zero_object :: s3_object where
  "zero_object = \<lparr>ob_key = [], ob_size = 0, ob_urlDecodedKey = [], ob_versionId = [], ob_eTag = [],
                  ob_sequencer = []\<rparr>"

definition zero_restore :: s3_restore where
  "zero_restore = \<lparr>rs_expiryTime = [], rs_storageClass = []\<rparr>"

definition zero_replication :: s3_replication where
  "zero_replication = \<lparr>rp_ruleId = [], rp_bucket = [], rp_operation = [], rp_requestTime = [],
                       rp_failureReason = []\<rparr>"

definition zero_record :: s3_event_record where
  "zero_record = \<lparr>er_eventVersion = [], er_eventSource = [], er_awsRegion = [], er_eventTime = [],
     er_eventName = [], er_userIdentity = [], er_sourceIP = [], er_responseElements = Map.empty,
     er_s3 = \<lparr>en_schemaVersion = [], en_configurationId = [], en_bucket = zero_bucket,
              en_object = zero_object\<rparr>,
     er_glacier = None, er_restore = None, er_replication = None, er_tiering = None, er_lifecycle = None\<rparr>"

subsection \<open>Decoding an event\<close>

text \<open>A struct with one string field is that string.\<close>

definition d_single :: "jlib \<Rightarrow> string \<Rightarrow> string \<Rightarrow> json \<Rightarrow> string \<Rightarrow> string dec" where
  "d_single J ty name = decode_struct J ty [(name, d_string J)]"

text \<open>\<open>rawS3Object\<close>: the object without its \<open>UnmarshalJSON\<close> method.\<close>

definition d_rawS3Object :: "jlib \<Rightarrow> json \<Rightarrow> s3_object \<Rightarrow> s3_object dec" where
  "d_rawS3Object J = decode_struct J ''sqs.rawS3Object''
     [(''key'', on_field ob_key (\<lambda>ob x. ob\<lparr>ob_key := x\<rparr>) (d_string J)),
      (''size'', on_field ob_size (\<lambda>ob x. ob\<lparr>ob_size := x\<rparr>) (d_int64 J)),
      (''urlDecodedKey'', on_field ob_urlDecodedKey (\<lambda>ob x. ob\<lparr>ob_urlDecodedKey := x\<rparr>) (d_string J)),
      (''versionId'', on_field ob_versionId (\<lambda>ob x. ob\<lparr>ob_versionId := x\<rparr>) (d_string J)),
      (''eTag'', on_field ob_eTag (\<lambda>ob x. ob\<lparr>ob_eTag := x\<rparr>) (d_string J)),
      (''sequencer'', on_field ob_sequencer (\<lambda>ob x. ob\<lparr>ob_sequencer := x\<rparr>) (d_string J))]"

text \<open>\<open>S3Object.UnmarshalJSON\<close>: its error, or the object with the decoded key.\<close>

definition S3Object_UnmarshalJSON :: "jlib \<Rightarrow> json \<Rightarrow> s3_object \<Rightarrow> s3_object res" where
  "S3Object_UnmarshalJSON J data ob =
     (case dec_result (d_rawS3Object J data ob) of
        Inl err \<Rightarrow> Inl err
      | Inr o1 \<Rightarrow>
          (case QueryUnescape J (ob_key o1) of
             Inl err \<Rightarrow> Inl err
           | Inr key \<Rightarrow> Inr (o1\<lparr>ob_urlDecodedKey := key\<rparr>)))"

definition d_s3Object :: "jlib \<Rightarrow> json \<Rightarrow> s3_object \<Rightarrow> s3_object dec" where
  "d_s3Object J j ob =
     (case S3Object_UnmarshalJSON J j ob of Inl e \<Rightarrow> Abort e | Inr o1 \<Rightarrow> Done o1 None)"

definition d_bucket :: "jlib \<Rightarrow> json \<Rightarrow> s3_bucket \<Rightarrow> s3_bucket dec" where
  "d_bucket J = decode_struct J ''sqs.S3Bucket''
     [(''name'', on_field bk_name (\<lambda>b x. b\<lparr>bk_name := x\<rparr>) (d_string J)),
      (''ownerIdentity'', on_field bk_owner (\<lambda>b x. b\<lparr>bk_owner := x\<rparr>) (d_single J ''sqs.S3UserIdentity'' ''principalId'')),
      (''arn'', on_field bk_arn (\<lambda>b x. b\<lparr>bk_arn := x\<rparr>) (d_string J))]"

definition d_entity :: "jlib \<Rightarrow> json \<Rightarrow> s3_entity \<Rightarrow> s3_entity dec" where
  "d_entity J = decode_struct J ''sqs.S3Entity''
     [(''s3SchemaVersion'', on_field en_schemaVersion (\<lambda>e x. e\<lparr>en_schemaVersion := x\<rparr>) (d_string J)),
      (''configurationId'', on_field en_configurationId (\<lambda>e x. e\<lparr>en_configurationId := x\<rparr>) (d_string J)),
      (''bucket'', on_field en_bucket (\<lambda>e x. e\<lparr>en_bucket := x\<rparr>) (d_bucket J)),
      (''object'', on_field en_object (\<lambda>e x. e\<lparr>en_object := x\<rparr>) (d_s3Object J))]"

definition d_restore :: "jlib \<Rightarrow> json \<Rightarrow> s3_restore \<Rightarrow> s3_restore dec" where
  "d_restore J = decode_struct J ''sqs.S3RestoreEventData''
     [(''lifecycleRestorationExpiryTime'', on_field rs_expiryTime (\<lambda>r x. r\<lparr>rs_expiryTime := x\<rparr>) (d_time J)),
      (''lifecycleRestoreStorageClass'', on_field rs_storageClass (\<lambda>r x. r\<lparr>rs_storageClass := x\<rparr>) (d_string J))]"

definition d_replication :: "jlib \<Rightarrow> json \<Rightarrow> s3_replication \<Rightarrow> s3_replication dec" where
  "d_replication J = decode_struct J ''sqs.S3ReplicationEventData''
     [(''replicationRuleId'', on_field rp_ruleId (\<lambda>r x. r\<lparr>rp_ruleId := x\<rparr>) (d_string J)),
      (''destinationBucket'', on_field rp_bucket (\<lambda>r x. r\<lparr>rp_bucket := x\<rparr>) (d_string J)),
      (''s3Operation'', on_field rp_operation (\<lambda>r x. r\<lparr>rp_operation := x\<rparr>) (d_string J)),
      (''requestTime'', on_field rp_requestTime (\<lambda>r x. r\<lparr>rp_requestTime := x\<rparr>) (d_time J)),
      (''failureReason'', on_field rp_failureReason (\<lambda>r x. r\<lparr>rp_failureReason := x\<rparr>) (d_string J))]"

definition d_record :: "jlib \<Rightarrow> json \<Rightarrow> s3_event_record \<Rightarrow> s3_event_record dec" where
  "d_record J = decode_struct J ''sqs.S3EventRecord''
     [(''eventVersion'', on_field er_eventVersion (\<lambda>r x. r\<lparr>er_eventVersion := x\<rparr>) (d_string J)),
      (''eventSource'', on_field er_eventSource (\<lambda>r x. r\<lparr>er_eventSource := x\<rparr>) (d_string J)),
      (''awsRegion'', on_field er_awsRegion (\<lambda>r x. r\<lparr>er_awsRegion := x\<rparr>) (d_string J)),
      (''eventTime'', on_field er_eventTime (\<lambda>r x. r\<lparr>er_eventTime := x\<rparr>) (d_time J)),
      (''eventName'', on_field er_eventName (\<lambda>r x. r\<lparr>er_eventName := x\<rparr>) (d_string J)),
      (''userIdentity'', on_field er_userIdentity (\<lambda>r x. r\<lparr>er_userIdentity := x\<rparr>)
         (d_single J ''sqs.S3UserIdentity'' ''principalId'')),
      (''requestParameters'', on_field er_sourceIP (\<lambda>r x. r\<lparr>er_sourceIP := x\<rparr>)
         (d_single J ''sqs.S3RequestParameters'' ''sourceIPAddress'')),
      (''responseElements'', on_field er_responseElements (\<lambda>r x. r\<lparr>er_responseElements := x\<rparr>) (d_strmap J)),
      (''s3'', on_field er_s3 (\<lambda>r x. r\<lparr>er_s3 := x\<rparr>) (d_entity J)),
      (''glacierEventData'', on_field er_glacier (\<lambda>r x. r\<lparr>er_glacier := x\<rparr>)
         (d_ptr None (decode_struct J ''sqs.S3GlacierEventData''
            [(''restoreEventData'', d_ptr zero_restore (d_restore J))]))),
      (''restoreEventData'', on_field er_restore (\<lambda>r x. r\<lparr>er_restore := x\<rparr>)
         (d_ptr zero_restore (d_restore J))),
      (''replicationEventData'', on_field er_replication (\<lambda>r x. r\<lparr>er_replication := x\<rparr>)
         (d_ptr zero_replication (d_replication J))),
      (''intelligentTieringEventData'', on_field er_tiering (\<lambda>r x. r\<lparr>er_tiering := x\<rparr>)
         (d_ptr [] (d_single J ''sqs.S3IntelligentTieringEventData'' ''destinationAccessTier''))),
      (''lifecycleEventData'', on_field er_lifecycle (\<lambda>r x. r\<lparr>er_lifecycle := x\<rparr>)
         (d_ptr None (decode_struct J ''sqs.S3LifecycleEventData''
            [(''transitionEventData'',
              d_ptr [] (d_single J ''sqs.S3TransitionEventData'' ''destinationStorageClass''))])))]"

definition d_event :: "jlib \<Rightarrow> json \<Rightarrow> s3_event \<Rightarrow> s3_event dec" where
  "d_event J = decode_struct J ''sqs.S3Event''
     [(''Records'', d_slice J ''[]sqs.S3EventRecord'' zero_record (d_record J))]"

definition unmarshal_event :: "jlib \<Rightarrow> string \<Rightarrow> s3_event res" where
  "unmarshal_event J text =
     (case jl_parse J text of Inl e \<Rightarrow> Inl e | Inr j \<Rightarrow> dec_result (d_event J j []))"

subsection \<open>Messages and parsers\<close>

text \<open>A message of the queue: pointers may be nil. Its attributes are only logged.\<close>

record message =
  ms_body :: "string option"
  ms_id :: "string option"
  ms_receipt :: "string option"

text \<open>A parser gives reports and an error, and may panic.\<close>

type_synonym ('v, 'w) parser =
  "message \<Rightarrow> 'w \<Rightarrow> ('v report list \<times> goerr option) outcome \<times> 'w"

text \<open>\<open>*msg.Body\<close> panics on a nil pointer. The one report is returned with an error too.\<close>

definition RawReportParser :: "jlib \<Rightarrow> ('v, 'w) parser" where
  "RawReportParser J msg w =
     (case ms_body msg of
        None \<Rightarrow> (Panic, w)
      | Some body \<Rightarrow> (let (report, err) = unmarshal_report J body in (Return ([report], err), w)))"

record get_input =
  gi_bucket :: string
  gi_key :: string
  gi_ifMatch :: string

text \<open>
  \<open>mu_append err errs\<close> is \<open>multierror.Append\<close>, \<open>mu_errors\<close> the errors a \<open>*multierror.Error\<close> holds,
  \<open>mu_errorOrNil\<close> its \<open>ErrorOrNil\<close>; \<open>mu_is\<close> tells the errors that are themselves multierrors.
\<close>

record 'm multi =
  mu_append :: "goerr \<Rightarrow> goerr list \<Rightarrow> 'm"
  mu_errors :: "'m \<Rightarrow> goerr list"
  mu_errorOrNil :: "'m \<Rightarrow> goerr option"
  mu_is :: "goerr \<Rightarrow> bool"

locale multierror =
  fixes M :: "'m multi"
  assumes append_plain: "\<not> mu_is M e \<Longrightarrow> \<forall>x \<in> set es. \<not> mu_is M x \<Longrightarrow> mu_errors M (mu_append M e es) = e # es"
    and errorOrNil: "mu_errorOrNil M m = None \<longleftrightarrow> mu_errors M m = []"
begin

text \<open>What the parser appends is never a nil error, and holds the one error twice.\<close>

lemma append_twice: "\<not> mu_is M e \<Longrightarrow> mu_errors M (mu_append M e [e]) = [e, e]"
  by (simp add: append_plain)

lemma append_error: "\<not> mu_is M e \<Longrightarrow> mu_errorOrNil M (mu_append M e [e]) \<noteq> None"
  by (simp add: errorOrNil append_plain)

end

record ('w, 'm) s3_env =
  s3_json :: jlib
  s3_multi :: "'m multi"
  s3_getObject :: "get_input \<Rightarrow> 'w \<Rightarrow> string res \<times> 'w"

definition object_input :: "s3_event_record \<Rightarrow> get_input" where
  "object_input record =
     (let object = en_object (er_s3 record); bucket = en_bucket (er_s3 record)
      in \<lparr>gi_bucket = bk_name bucket, gi_key = ob_urlDecodedKey object, gi_ifMatch = ob_eTag object\<rparr>)"

text \<open>
  The loop over the records: the state is \<open>merr\<close> (\<open>None\<close> for nil) and the reports so far. \<open>Append\<close> gets
  the record's own error twice, not \<open>merr\<close>.
\<close>

fun s3_records ::
  "('w, 'm) s3_env \<Rightarrow> s3_event_record list \<Rightarrow> 'm option \<times> 'v report list \<Rightarrow> 'w
     \<Rightarrow> ('m option \<times> 'v report list) \<times> 'w" where
  "s3_records E [] acc w = (acc, w)"
| "s3_records E (record # records) (merr, reports) w =
     (case s3_getObject E (object_input record) w of
        (Inl err, w1) \<Rightarrow>
          s3_records E records (Some (mu_append (s3_multi E) err [err]), reports) w1
      | (Inr body, w1) \<Rightarrow>
          (case decode_reports_stream (s3_json E) body of
             (_, Some err) \<Rightarrow>
               s3_records E records (Some (mu_append (s3_multi E) err [err]), reports) w1
           | (objectReports, None) \<Rightarrow>
               s3_records E records (merr, reports @ objectReports) w1))"

text \<open>\<open>aws.ToString\<close> makes nil the empty string; \<open>ErrorOrNil\<close> of a nil pointer is nil.\<close>

definition S3EventReportParser :: "('w, 'm) s3_env \<Rightarrow> ('v, 'w) parser" where
  "S3EventReportParser E msg w =
     (case unmarshal_event (s3_json E) (case ms_body msg of None \<Rightarrow> [] | Some s \<Rightarrow> s) of
        Inl err \<Rightarrow> (Return ([], Some (ErrWrap ''error parsing S3 event: '' err '''')), w)
      | Inr event \<Rightarrow>
          (let ((merr, reports), w1) = s3_records E event (None, []) w
           in (Return (reports, case merr of None \<Rightarrow> None | Some m \<Rightarrow> mu_errorOrNil (s3_multi E) m), w1)))"

subsection \<open>What the loop over the records computes\<close>

text \<open>What one record gives: the reports of its object, or an error.\<close>

definition record_result :: "('w, 'm) s3_env \<Rightarrow> s3_event_record \<Rightarrow> 'w \<Rightarrow> 'v report list res \<times> 'w" where
  "record_result E record w =
     (case s3_getObject E (object_input record) w of
        (Inl err, w1) \<Rightarrow> (Inl err, w1)
      | (Inr body, w1) \<Rightarrow>
          ((case decode_reports_stream (s3_json E) body of
              (_, Some err) \<Rightarrow> Inl err
            | (rs, None) \<Rightarrow> Inr rs), w1))"

fun s3_results :: "('w, 'm) s3_env \<Rightarrow> s3_event_record list \<Rightarrow> 'w \<Rightarrow> 'v report list res list \<times> 'w" where
  "s3_results E [] w = ([], w)"
| "s3_results E (record # records) w =
     (let (x, w1) = record_result E record w; (xs, w2) = s3_results E records w1 in (x # xs, w2))"

definition good_reports :: "'v report list res list \<Rightarrow> 'v report list" where
  "good_reports xs = concat (List.map_filter (\<lambda>x. case x of Inl e \<Rightarrow> None | Inr rs \<Rightarrow> Some rs) xs)"

definition last_error :: "'a res list \<Rightarrow> goerr option" where
  "last_error xs = foldl (\<lambda>acc x. case x of Inl e \<Rightarrow> Some e | Inr _ \<Rightarrow> acc) None xs"

lemma good_reports_simps [simp]:
  "good_reports [] = []"
  "good_reports (Inl e # xs) = good_reports xs"
  "good_reports (Inr rs # xs) = rs @ good_reports xs"
  by (simp_all add: good_reports_def map_filter_simps)

lemma foldl_error:
  "foldl (\<lambda>acc x. case x of Inl e \<Rightarrow> Some e | Inr _ \<Rightarrow> acc) acc xs =
     (case last_error xs of None \<Rightarrow> acc | Some e \<Rightarrow> Some e)"
proof (induction xs arbitrary: acc)
  case Nil
  then show ?case by (simp add: last_error_def)
next
  case (Cons x xs)
  show ?case
  proof (cases x)
    case (Inl e)
    then show ?thesis
      using Cons [of "Some e"] unfolding last_error_def by (simp split: option.split)
  next
    case (Inr y)
    then show ?thesis
      using Cons [of acc] unfolding last_error_def by simp
  qed
qed

lemma last_error_simps [simp]:
  "last_error [] = None"
  "last_error (Inr y # xs) = last_error xs"
  "last_error (Inl e # xs) = (case last_error xs of None \<Rightarrow> Some e | Some e2 \<Rightarrow> Some e2)"
  by (simp_all add: last_error_def) (use foldl_error [of "Some e" xs] in \<open>simp add: last_error_def\<close>)

lemma last_error_None: "last_error xs = None \<longleftrightarrow> (\<forall>x \<in> set xs. \<exists>y. x = Inr y)"
proof (induction xs)
  case Nil
  then show ?case by simp
next
  case (Cons x xs)
  then show ?case by (cases x) (auto split: option.splits)
qed

lemma last_error_mem: "last_error xs = Some e \<Longrightarrow> Inl e \<in> set xs"
proof (induction xs)
  case Nil
  then show ?case by simp
next
  case (Cons x xs)
  then show ?case by (cases x) (auto split: option.splits)
qed

lemma s3_records_spec:
  fixes reports :: "'v report list"
  shows "s3_records E records (merr, reports) w =
     (let (xs, w1) = s3_results E records w
      in ((case last_error xs of None \<Rightarrow> merr | Some e \<Rightarrow> Some (mu_append (s3_multi E) e [e]),
           reports @ good_reports xs), w1))"
proof (induction records arbitrary: merr reports w)
  case Nil
  then show ?case by simp
next
  case (Cons r rs)
  obtain x :: "'v report list res" and w1 where x: "record_result E r w = (x, w1)" by force
  obtain xs :: "'v report list res list" and w2 where xs: "s3_results E rs w1 = (xs, w2)" by force
  have step: "s3_records E (r # rs) (merr, reports) w =
      (case x of Inl e \<Rightarrow> s3_records E rs (Some (mu_append (s3_multi E) e [e]), reports) w1
              | Inr ys \<Rightarrow> s3_records E rs (merr, reports @ ys) w1)"
    using x by (auto simp: record_result_def split: prod.splits sum.splits option.splits)
  show ?case
    unfolding step Cons.IH using x xs by (simp split: sum.split option.split)
qed

lemma S3EventReportParser_event:
  fixes w :: 'w and E :: "('w, 'm) s3_env"
  assumes "unmarshal_event (s3_json E) (case ms_body msg of None \<Rightarrow> [] | Some s \<Rightarrow> s) = Inr event"
    and "s3_results E event w = ((xs :: 'v report list res list), w1)"
  shows "S3EventReportParser E msg w =
    (Return (good_reports xs,
       case last_error xs of None \<Rightarrow> None | Some e \<Rightarrow> mu_errorOrNil (s3_multi E) (mu_append (s3_multi E) e [e])), w1)"
  using assms
  by (simp add: S3EventReportParser_def s3_records_spec split: option.split)

subsection \<open>Messages that carry no records\<close>

text \<open>\<open>S3TestEvent\<close>, what S3 sends when notifications are set up, and the members of its JSON object.\<close>

record s3_test_event =
  te_service :: string
  te_bucket :: string
  te_event :: string
  te_time :: string
  te_requestID :: string
  te_hostID :: string

definition test_event_members :: "s3_test_event \<Rightarrow> (string \<times> json) list" where
  "test_event_members t =
     [(''Service'', JStr (te_service t)), (''Bucket'', JStr (te_bucket t)), (''Event'', JStr (te_event t)),
      (''Time'', JStr (te_time t)), (''RequestId'', JStr (te_requestID t)), (''HostId'', JStr (te_hostID t))]"

lemma decode_fields_unknown:
  "\<forall>(k, v) \<in> set kvs. find_field fs k = None \<Longrightarrow> decode_fields fs kvs r = Done r None"
  by (induction kvs) (auto split: option.split)

lemma no_records_field:
  assumes "ToLower k \<noteq> ''records''"
  shows "find_field [(''Records'', d)] k = None"
proof -
  have "ToLower ''Records'' = ''records''" by code_simp
  with assms show ?thesis by (auto simp: find_field_def)
qed

lemma unmarshal_event_no_records:
  assumes "jl_parse J text = Inr (JObj kvs)" "\<forall>(k, v) \<in> set kvs. ToLower k \<noteq> ''records''"
  shows "unmarshal_event J text = Inr []"
proof -
  have "\<forall>(k, v) \<in> set kvs. find_field [(''Records'', d_slice J ''[]sqs.S3EventRecord'' zero_record (d_record J))] k = None"
    using assms(2) by (auto simp: no_records_field)
  from decode_fields_unknown [OF this] assms(1) show ?thesis
    by (simp add: unmarshal_event_def d_event_def decode_struct_def)
qed

text \<open>
  A message without records, such as S3's test event, is no error: the parser gives no reports, asks for no object, and the
  listener goes on to send an empty event.
\<close>

theorem s3_test_event_parsed:
  assumes "ms_body msg = Some body" "jl_parse (s3_json E) body = Inr (JObj (test_event_members t))"
  shows "S3EventReportParser E msg w = (Return ([], None), w)"
proof -
  have "\<forall>(k, v) \<in> set (test_event_members t). ToLower k \<noteq> ''records''"
  proof -
    have "ToLower ''Service'' \<noteq> ''records''" by code_simp
    then show ?thesis by (simp add: test_event_members_def) (simp add: ToLower_def)
  qed
  from unmarshal_event_no_records [OF assms(2) this] assms(1) show ?thesis
    by (simp add: S3EventReportParser_def)
qed

subsection \<open>The contract of a parser\<close>

text \<open>
  What the listener relies on: the answer depends on the message's body only (not on its id or receipt
  handle), and a message with a body does not make the parser panic.
\<close>

locale report_parser =
  fixes parse :: "('v, 'w) parser"
  assumes body_only: "ms_body m = ms_body m' \<Longrightarrow> parse m w = parse m' w"
    and no_panic: "ms_body m \<noteq> None \<Longrightarrow> fst (parse m w) \<noteq> Panic"
begin

text \<open>A message that is delivered again, under a new receipt handle, is parsed as before.\<close>

lemma redelivered: "parse (m\<lparr>ms_receipt := h\<rparr>) w = parse m w"
  by (rule body_only) simp

lemma parsed: "ms_body m \<noteq> None \<Longrightarrow> \<exists>rs e. fst (parse m w) = Return (rs, e)"
  using no_panic [of m w] by (cases "fst (parse m w)") auto

end

interpretation raw: report_parser "RawReportParser J" for J
  by unfold_locales (auto simp: RawReportParser_def split_beta Let_def)

lemma S3EventReportParser_Return: "\<exists>rs e w'. S3EventReportParser E msg w = (Return (rs, e), w')"
  by (simp add: S3EventReportParser_def split_beta Let_def split: sum.split)

interpretation s3p: report_parser "S3EventReportParser E" for E
proof
  fix m m' :: message and w
  show "ms_body m = ms_body m' \<Longrightarrow> S3EventReportParser E m w = S3EventReportParser E m' w"
    unfolding S3EventReportParser_def by simp
  show "ms_body m \<noteq> None \<Longrightarrow> fst (S3EventReportParser E m w) \<noteq> Panic"
    by (metis S3EventReportParser_Return fst_conv outcome.distinct(1))
qed

subsection \<open>Reference libraries\<close>

text \<open>
  Executable instances for the witnesses: a JSON library that knows three texts, a store of objects by
  key, and multierrors as lists.
\<close>

definition ref_multi :: "goerr list multi" where
  "ref_multi = \<lparr>mu_append = (\<lambda>e es. e # es), mu_errors = (\<lambda>m. m),
     mu_errorOrNil = (\<lambda>m. if m = [] then None else Some (ErrMsg ''errors occurred'')), mu_is = (\<lambda>e. False)\<rparr>"

interpretation refm: multierror ref_multi
  by unfold_locales (simp_all add: ref_multi_def)

definition demo_record :: "string \<Rightarrow> json" where
  "demo_record key = JObj [(''s3'', JObj [(''bucket'', JObj [(''name'', JStr ''bk'')]),
     (''object'', JObj [(''key'', JStr key), (''eTag'', JStr ''tag'')])])]"

definition ref_jlib :: jlib where
  "ref_jlib = \<lparr>
     jl_parse = (\<lambda>t. if t = ''event'' then Inr (JObj [(''Records'', JArr [demo_record ''a+b'', demo_record ''c'', demo_record ''d''])])
                    else if t = ''report'' then Inr (JObj [(''_ACTION_ID'', JStr ''7'')])
                    else Inl (ErrMsg ''invalid character'')),
     jl_first = (\<lambda>t. if t = ''reports'' then Inr (JArr [JObj [(''_ACTION_ID'', JStr ''1'')]])
                    else Inl (ErrMsg ''invalid character'')),
     jl_typeError = (\<lambda>v t. ErrMsg (''json: cannot unmarshal '' @ v @ '' into Go value of type '' @ t)),
     jl_time = (\<lambda>s. None), jl_quote = (\<lambda>s. [CHR 0x22] @ s @ [CHR 0x22])\<rparr>"

definition ref_s3 :: "(string \<rightharpoonup> string, goerr list) s3_env" where
  "ref_s3 = \<lparr>s3_json = ref_jlib, s3_multi = ref_multi,
     s3_getObject = (\<lambda>i w. (case w (gi_key i) of None \<Rightarrow> Inl (ErrMsg (''NoSuchKey: '' @ gi_key i)) | Some b \<Rightarrow> Inr b, w))\<rparr>"

lemmas ref_s3_defs = ref_s3_def ref_jlib_def ref_multi_def

lemmas decode_defs = decode_struct_def on_field_def dec_then_def find_field_def d_string_def d_slice_def
  d_event_def d_record_def d_entity_def d_bucket_def d_s3Object_def d_rawS3Object_def
  S3Object_UnmarshalJSON_def zero_record_def zero_bucket_def zero_object_def

definition demo_er :: "string \<Rightarrow> s3_event_record" where
  "demo_er key = zero_record\<lparr>er_s3 := (er_s3 zero_record)\<lparr>en_bucket := zero_bucket\<lparr>bk_name := ''bk''\<rparr>,
     en_object := zero_object\<lparr>ob_key := key, ob_urlDecodedKey := (if key = ''a+b'' then ''a b'' else key), ob_eTag := ''tag''\<rparr>\<rparr>\<rparr>"

lemma demo_record_decodes:
  "key \<in> {''a+b'', ''c'', ''d''} \<Longrightarrow> d_record ref_jlib (demo_record key) zero_record = Done (demo_er key) None"
  by (auto simp: demo_record_def demo_er_def decode_defs)

lemma demo_event_decodes:
  "unmarshal_event ref_jlib ''event'' = Inr [demo_er ''a+b'', demo_er ''c'', demo_er ''d'']"
proof -
  have p: "jl_parse ref_jlib ''event'' =
      Inr (JObj [(''Records'', JArr [demo_record ''a+b'', demo_record ''c'', demo_record ''d''])])"
    by (simp add: ref_jlib_def)
  have "d_event ref_jlib (JObj [(''Records'', JArr [demo_record ''a+b'', demo_record ''c'', demo_record ''d''])]) []
      = Done [demo_er ''a+b'', demo_er ''c'', demo_er ''d''] None"
    by (simp add: d_event_def decode_struct_def find_field_def d_slice_def demo_record_decodes dec_then_def)
  with p show ?thesis by (simp add: unmarshal_event_def)
qed

subsection \<open>Properties of the parsers\<close>

text \<open>
  C17. An S3 event gives the reports of all objects that can be fetched and decoded, in the order of the
  records, also when others fail; and its error is nil exactly when every record succeeded, so a
  partial result is never taken for a complete one.
\<close>

theorem s3_parser_result:
  fixes w :: 'w and E :: "('w, 'm) s3_env"
  assumes "multierror (s3_multi E)"
    and "ms_body msg = Some body" "unmarshal_event (s3_json E) body = Inr event"
    and "s3_results E event w = ((xs :: 'v report list res list), w1)"
    and "\<forall>e. Inl e \<in> set xs \<longrightarrow> \<not> mu_is (s3_multi E) e"
  shows "\<exists>err. S3EventReportParser E msg w = (Return (good_reports xs, err), w1)
           \<and> (err = None \<longleftrightarrow> (\<forall>x \<in> set xs. \<exists>rs. x = Inr rs))"
proof -
  note p = S3EventReportParser_event [of E msg event w xs w1]
  have e: "mu_errorOrNil (s3_multi E) (mu_append (s3_multi E) e [e]) \<noteq> None" if "last_error xs = Some e" for e
    using last_error_mem [OF that] assms(5) multierror.append_error [OF assms(1)] by blast
  show ?thesis
    using p assms(2-4) e last_error_None [of xs] by (cases "last_error xs") auto
qed

definition demo_store :: "string \<rightharpoonup> string" where
  "demo_store = [''a b'' \<mapsto> ''reports'', ''c'' \<mapsto> ''garbage'']"

definition demo_message :: "string \<Rightarrow> message" where
  "demo_message body = \<lparr>ms_body = Some body, ms_id = None, ms_receipt = Some ''h''\<rparr>"

abbreviation demo_chalk :: "rval report" where
  "demo_chalk \<equiv> [''_ACTION_ID'' \<mapsto> AString ''1'']"

lemma demo_results:
  "s3_results ref_s3 [demo_er ''a+b'', demo_er ''c'', demo_er ''d''] demo_store =
     ([Inr [demo_chalk], Inl (ErrMsg ''invalid character''), Inl (ErrMsg ''NoSuchKey: d'')], demo_store)"
  by (simp add: record_result_def ref_s3_defs demo_store_def demo_er_def object_input_def
      decode_reports_stream_def decode_reports_def decode_report_def number_error_def first_error_def Let_def)

theorem s3_parser_result_witness:
  "\<exists>err. S3EventReportParser ref_s3 (demo_message ''event'') demo_store
     = (Return ([demo_chalk], err), demo_store) \<and> err \<noteq> None"
proof -
  have m: "multierror (s3_multi ref_s3)" by (simp add: ref_s3_def refm.multierror_axioms)
  have u: "unmarshal_event (s3_json ref_s3) ''event'' = Inr [demo_er ''a+b'', demo_er ''c'', demo_er ''d'']"
    using demo_event_decodes by (simp add: ref_s3_def)
  have b: "ms_body (demo_message ''event'') = Some ''event''" by (simp add: demo_message_def)
  from s3_parser_result [OF m b u demo_results] show ?thesis by (simp add: ref_s3_defs)
qed

text \<open>
  The error of an event with failures is the last failing record's error, twice. The code appends the
  error to itself instead of to the collected one, so the errors of all other failing records are
  dropped from what the listener logs.
\<close>

theorem s3_parser_reports_last_error_twice:
  fixes w :: 'w and E :: "('w, 'm) s3_env"
  assumes "multierror (s3_multi E)"
    and "s3_results E event w = ((xs :: 'v report list res list), w1)"
    and "last_error xs = Some e" "\<not> mu_is (s3_multi E) e"
  shows "\<exists>m rs. s3_records E event (None, [] :: 'v report list) w = ((Some m, rs), w1)
           \<and> mu_errors (s3_multi E) m = [e, e]"
  using assms multierror.append_twice [OF assms(1)] by (simp add: s3_records_spec)

theorem s3_parser_reports_last_error_twice_witness:
  "\<exists>m rs. s3_records ref_s3 [demo_er ''a+b'', demo_er ''c'', demo_er ''d''] (None, [] :: rval report list) demo_store
       = ((Some m, rs), demo_store)
     \<and> mu_errors ref_multi m = [ErrMsg ''NoSuchKey: d'', ErrMsg ''NoSuchKey: d'']
     \<and> ErrMsg ''invalid character'' \<notin> set (mu_errors ref_multi m)"
proof -
  have m: "multierror (s3_multi ref_s3)" by (simp add: ref_s3_def refm.multierror_axioms)
  from s3_parser_reports_last_error_twice [OF m demo_results, of "ErrMsg ''NoSuchKey: d''"]
  obtain m rs where "s3_records ref_s3 [demo_er ''a+b'', demo_er ''c'', demo_er ''d''] (None, [] :: rval report list) demo_store
       = ((Some m, rs), demo_store)" "mu_errors ref_multi m = [ErrMsg ''NoSuchKey: d'', ErrMsg ''NoSuchKey: d'']"
    by (auto simp: ref_s3_defs)
  then show ?thesis by auto
qed

text \<open>
  C34. The object that is fetched is the object that was stored: S3 puts the query-escaped key into its
  event, and decoding an object whose \<open>key\<close> member is the escaped form of \<open>k\<close> gives exactly \<open>k\<close> as the
  key asked for, for every byte string \<open>k\<close>, and changes no other member.
\<close>

theorem s3_object_key_roundtrip:
  assumes "dec_result (d_rawS3Object J data obj) = Inr raw" "ob_key raw = query_escape k"
  shows "S3Object_UnmarshalJSON J data obj = Inr (raw\<lparr>ob_urlDecodedKey := k\<rparr>)
    \<and> gi_key (object_input (r\<lparr>er_s3 := (er_s3 r)\<lparr>en_object := raw\<lparr>ob_urlDecodedKey := k\<rparr>\<rparr>\<rparr>)) = k"
  using assms by (simp add: S3Object_UnmarshalJSON_def query_round_trip object_input_def Let_def)

theorem s3_object_key_roundtrip_witness:
  "S3Object_UnmarshalJSON ref_jlib (JObj [(''key'', JStr ''a+b%2Fc'')]) zero_object
     = Inr (zero_object\<lparr>ob_key := ''a+b%2Fc'', ob_urlDecodedKey := ''a b/c''\<rparr>)"
proof -
  have e: "query_escape ''a b/c'' = ''a+b%2Fc''"
    by (simp add: unreserved_def hex_char_def Let_def char_of_def bit_iff_odd)
  have d: "dec_result (d_rawS3Object ref_jlib (JObj [(''key'', JStr ''a+b%2Fc'')]) zero_object)
      = Inr (zero_object\<lparr>ob_key := ''a+b%2Fc''\<rparr>)"
    by (simp add: d_rawS3Object_def decode_struct_def find_field_def d_string_def on_field_def dec_then_def)
  from s3_object_key_roundtrip [OF d, of "''a b/c''"] e show ?thesis by simp
qed

text \<open>
  The parser of message bodies panics exactly on a message without a body, where the S3 parser reports
  an error; with a body it always gives one report, empty when the text is no JSON object.
\<close>

theorem raw_parser_panics_without_body:
  "(fst (RawReportParser J msg w) = Panic \<longleftrightarrow> ms_body msg = None)
   \<and> (\<exists>rs e. fst (S3EventReportParser E msg w2) = Return (rs, e))
   \<and> (\<forall>body. ms_body msg = Some body \<longrightarrow>
        (\<exists>r e. RawReportParser J msg w = (Return ([r], e), w) \<and> (r, e) = unmarshal_report J body
             \<and> (jl_parse J body = Inr JNull \<longrightarrow> e = None \<and> r = Map.empty)))"
proof -
  have "\<exists>rs e. fst (S3EventReportParser E msg w2) = Return (rs, e)"
    by (metis S3EventReportParser_Return fst_conv)
  then show ?thesis
    by (auto simp: RawReportParser_def split_beta Let_def unmarshal_report_def decode_report_def
        split: option.splits)
qed

theorem raw_parser_panics_without_body_witness:
  "\<exists>r e. RawReportParser ref_jlib (demo_message ''report'') () = (Return ([r :: rval report], e), ())
     \<and> (r, e) = unmarshal_report ref_jlib ''report''"
  using raw_parser_panics_without_body [of ref_jlib "demo_message ''report''" "()" ref_s3 Map.empty]
  by (auto simp: demo_message_def)

end
