(* ===== verification/Transitions.thy ===== *)
theory Transitions
  imports Prelude
begin

section \<open>Transition systems\<close>

text \<open>
  The goroutines of the controller are modelled as a transition system: actions that are enabled or not
  (\<open>exec a s\<close> is \<open>None\<close> when \<open>a\<close> cannot happen in \<open>s\<close>), the step relation, the reachable states, runs by
  a set of actions, and the invariant rule as a contract.
\<close>

inductive step_of :: "('act \<Rightarrow> 's \<Rightarrow> 's option) \<Rightarrow> 's \<Rightarrow> 's \<Rightarrow> bool" for exec where
  act: "exec a s = Some s' \<Longrightarrow> step_of exec s s'"

inductive reach :: "('s \<Rightarrow> bool) \<Rightarrow> ('act \<Rightarrow> 's \<Rightarrow> 's option) \<Rightarrow> 's \<Rightarrow> bool" for init exec where
  start: "init s \<Longrightarrow> reach init exec s"
| move: "reach init exec s \<Longrightarrow> step_of exec s s' \<Longrightarrow> reach init exec s'"

inductive_cases step_ofE: "step_of exec s s'"

text \<open>A schedule: a list of actions, each of which must be enabled.\<close>

fun run_acts :: "('act \<Rightarrow> 's \<Rightarrow> 's option) \<Rightarrow> 'act list \<Rightarrow> 's \<Rightarrow> 's option" where
  "run_acts exec [] s = Some s"
| "run_acts exec (a # as) s =
     (case exec a s of None \<Rightarrow> None | Some s' \<Rightarrow> run_acts exec as s')"

lemma run_acts_reach: "reach init exec s \<Longrightarrow> run_acts exec as s = Some s' \<Longrightarrow> reach init exec s'"
proof (induction as arbitrary: s)
  case Nil
  then show ?case by simp
next
  case (Cons a as)
  then obtain s1 where s1: "exec a s = Some s1" "run_acts exec as s1 = Some s'"
    by (auto split: option.splits)
  from reach.move [OF Cons.prems(1) step_of.act [where exec = exec, OF s1(1)]] s1(2)
  show ?case by (rule Cons.IH)
qed

lemma reach_mono: "reach init exec s \<Longrightarrow> (\<And>s. init s \<Longrightarrow> init' s) \<Longrightarrow> reach init' exec s"
  by (induction rule: reach.induct) (auto intro: reach.intros)

lemma run_acts_append:
  "run_acts exec (as @ bs) s = (case run_acts exec as s of None \<Rightarrow> None | Some s' \<Rightarrow> run_acts exec bs s')"
  by (induction as arbitrary: s) (auto split: option.splits)

text \<open>A property that holds initially and that every action keeps.\<close>

locale inductive_invariant =
  fixes init :: "'s \<Rightarrow> bool" and exec :: "'act \<Rightarrow> 's \<Rightarrow> 's option" and inv :: "'s \<Rightarrow> bool"
  assumes inv_init: "init s \<Longrightarrow> inv s"
    and inv_exec: "inv s \<Longrightarrow> exec a s = Some s' \<Longrightarrow> inv s'"
begin

lemma reach_inv: "reach init exec s \<Longrightarrow> inv s"
  by (induction rule: reach.induct) (auto intro: inv_init inv_exec elim: step_ofE)

lemma run_inv: "inv s \<Longrightarrow> run_acts exec as s = Some s' \<Longrightarrow> inv s'"
  by (induction as arbitrary: s) (auto split: option.splits intro: inv_exec)

end

text \<open>
  A system that drains: while an invariant holds and the system is not blocked, some action of \<open>busy\<close>
  is enabled unless all work is done, and every such action does some.
\<close>

locale draining = inductive_invariant +
  fixes busy :: "'act \<Rightarrow> bool" and work :: "'s \<Rightarrow> nat" and blocked :: "'s \<Rightarrow> bool"
  assumes progress: "inv s \<Longrightarrow> \<not> blocked s \<Longrightarrow> 0 < work s \<Longrightarrow> \<exists>a s'. busy a \<and> exec a s = Some s'"
    and decrease: "inv s \<Longrightarrow> busy a \<Longrightarrow> exec a s = Some s' \<Longrightarrow> work s' < work s"
begin

text \<open>A schedule of busy actions is never longer than the work there was.\<close>

lemma busy_bounded:
  "inv s \<Longrightarrow> list_all busy as \<Longrightarrow> run_acts exec as s = Some s' \<Longrightarrow> length as + work s' \<le> work s"
proof (induction as arbitrary: s)
  case Nil
  then show ?case by simp
next
  case (Cons a as)
  then obtain s1 where s1: "exec a s = Some s1" "run_acts exec as s1 = Some s'"
    by (auto split: option.splits)
  have "length as + work s' \<le> work s1"
    by (rule Cons.IH [OF inv_exec [OF Cons.prems(1) s1(1)] _ s1(2)]) (use Cons.prems(2) in simp)
  moreover have "work s1 < work s"
    by (rule decrease [OF Cons.prems(1) _ s1(1)]) (use Cons.prems(2) in simp)
  ultimately show ?case by simp
qed

lemma drains:
  "inv s \<Longrightarrow> \<exists>as s'. list_all busy as \<and> length as \<le> work s \<and> run_acts exec as s = Some s'
      \<and> (blocked s' \<or> work s' = 0)"
proof (induction "work s" arbitrary: s rule: less_induct)
  case less
  show ?case
  proof (cases "blocked s \<or> work s = 0")
    case True
    then show ?thesis by (intro exI [of _ "[]"] exI [of _ s]) simp
  next
    case False
    with progress [OF less.prems] obtain a s1 where a: "busy a" "exec a s = Some s1" by auto
    from decrease [OF less.prems a] have w: "work s1 < work s" .
    from less.hyps [OF w inv_exec [OF less.prems a(2)]] obtain as s' where
      "list_all busy as" "length as \<le> work s1" "run_acts exec as s1 = Some s'"
      "blocked s' \<or> work s' = 0" by blast
    with a w show ?thesis by (intro exI [of _ "a # as"] exI [of _ s']) simp
  qed
qed

end

text \<open>
  Two systems in lockstep: where an invariant of the first holds, an action is enabled in one exactly when it is enabled
  in the other, and \<open>proj\<close> takes the state after it to the state after it. Runs correspond one to one.
\<close>

locale lockstep = inductive_invariant +
  fixes exec' :: "'b \<Rightarrow> 't \<Rightarrow> 't option" and proj :: "'a \<Rightarrow> 't"
  assumes same_step: "inv s \<Longrightarrow> exec' a (proj s) = map_option proj (exec a s)"
begin

lemma same_runs: "inv s \<Longrightarrow> run_acts exec' as (proj s) = map_option proj (run_acts exec as s)"
  by (induction as arbitrary: s) (auto simp: same_step split: option.split intro: inv_exec)

end

end
