(* ===== verification/Sqs_Listener.thy ===== *)
theory Sqs_Listener
  imports Scheduler Sqs_Parsers Transitions
begin

section \<open>The event bus and the queue listener\<close>

text \<open>
  \<^verbatim>\<open>internal/reports/client.go\<close> (the event bus), \<^verbatim>\<open>internal/reports/sqs/listener.go\<close> and the loop of
  \<^verbatim>\<open>internal/reports/scheduler.go\<close>, as goroutines that run side by side: the listener's loop, one goroutine
  per enqueued message, the HTTP handlers that enqueue, and the scheduler. The bus is an unbuffered
  channel: a send and the scheduler's receive are one step. A result channel has room for its one value.
\<close>

subsection \<open>The listener\<close>

text \<open>Durations are nanoseconds.\<close>

definition Second :: int where
  "Second = 1000000000"

definition Minute :: int where
  "Minute = 60 * Second"

record receive_input =
  ri_queueUrl :: string
  ri_maxMessages :: int
  ri_waitSeconds :: int
  ri_visibility :: int

text \<open>\<open>sc_delete queueURL receiptHandle\<close>.\<close>

record 'q sqs_client =
  sc_receive :: "receive_input \<Rightarrow> 'q \<Rightarrow> message list res \<times> 'q"
  sc_delete :: "string \<Rightarrow> string option \<Rightarrow> 'q \<Rightarrow> goerr option \<times> 'q"

record ('v, 'q) listener =
  li_sqsClient :: "'q sqs_client"
  li_queueURL :: string
  li_waitTime :: int
  li_visibilityTime :: int
  li_reportParser :: "('v, 'q) parser"

definition NewListener ::
  "'q sqs_client \<Rightarrow> string \<Rightarrow> ('v, 'q) parser option \<Rightarrow> ('v, 'q) listener res" where
  "NewListener sqsClient queueURL reportParser =
     (case reportParser of
        None \<Rightarrow> Inl (ErrMsg ''no chalk report parser supplied'')
      | Some p \<Rightarrow> Inr \<lparr>li_sqsClient = sqsClient, li_queueURL = queueURL, li_waitTime = Second * 20,
                       li_visibilityTime = Minute, li_reportParser = p\<rparr>)"

definition receive_input_of :: "('v, 'q) listener \<Rightarrow> receive_input" where
  "receive_input_of L =
     \<lparr>ri_queueUrl = li_queueURL L, ri_maxMessages = 10,
      ri_waitSeconds = li_waitTime L div Second, ri_visibility = li_visibilityTime L div Second\<rparr>"

subsection \<open>The state of the process\<close>

record sqs_metrics =
  sqsMessagesReceivedTotal :: nat
  sqsMessagesProcessedFailure :: nat
  sqsMessagesProcessedSuccess :: nat
  sqsMessagesDeletedTotal :: nat
  sqsReceiveErrorsTotal :: nat

text \<open>
  Where the listener's loop is: before polling, in the loop over a batch, blocked in \<open>Enqueue\<close>, returned,
  or in a panic of the parser, which ends the process (with the messages of the batch that are left).
\<close>

datatype 'v main =
    MPoll
  | MBatch "message list"
  | MSend message "'v report list" "message list"
  | MDone
  | MCrashed "message list"

text \<open>The scheduler: waiting for an event, processing the event of a result channel, or returned.\<close>

datatype 'v sched = SIdle | SBusy "'v report list" nat | SStop

text \<open>History: an event sent (with its message, when it came from the queue), processed, a deletion asked for.\<close>

datatype 'v happening =
    Sent nat "message option" "'v report list"
  | Processed nat "'v report list" "goerr option"
  | DeleteCall message "goerr option"

text \<open>
  \<open>sy_await\<close> are the goroutines that wait for a result, \<open>sy_delete\<close> those that are about to call
  \<open>DeleteMessage\<close>, \<open>sy_http\<close> the HTTP handlers blocked in \<open>Enqueue\<close>; \<open>sy_chans\<close> the values in the result
  channels, of which \<open>sy_next\<close> is the next new one; \<open>sy_log\<close> is the history, newest last.
\<close>

record ('v, 'c, 'w, 'q) sys =
  sy_cancelled :: bool
  sy_main :: "'v main"
  sy_sched :: "'v sched"
  sy_state :: "('c, 'w) sstate"
  sy_chans :: "nat \<rightharpoonup> goerr option"
  sy_next :: nat
  sy_await :: "(nat \<times> message) list"
  sy_delete :: "message list"
  sy_http :: "'v report list list"
  sy_aws :: 'q
  sy_metrics :: sqs_metrics
  sy_log :: "'v happening list"

definition remove_nth :: "nat \<Rightarrow> 'b list \<Rightarrow> 'b list" where
  "remove_nth i xs = take i xs @ drop (Suc i) xs"

subsection \<open>Steps\<close>

definition add_received :: "nat \<Rightarrow> sqs_metrics \<Rightarrow> sqs_metrics" where
  "add_received n m = m\<lparr>sqsMessagesReceivedTotal := sqsMessagesReceivedTotal m + n\<rparr>"

definition add_processed :: "bool \<Rightarrow> sqs_metrics \<Rightarrow> sqs_metrics" where
  "add_processed success m =
     (if success then m\<lparr>sqsMessagesProcessedSuccess := sqsMessagesProcessedSuccess m + 1\<rparr>
      else m\<lparr>sqsMessagesProcessedFailure := sqsMessagesProcessedFailure m + 1\<rparr>)"

text \<open>\<open>MPoll\<close>: \<open>select\<close> on the context, one call of \<open>ReceiveMessage\<close>. The five seconds after an error pass.\<close>

definition poll_step ::
  "('v, 'q) listener \<Rightarrow> ('v, 'c, 'w, 'q) sys \<Rightarrow> ('v, 'c, 'w, 'q) sys" where
  "poll_step L s =
     (if sy_cancelled s then s\<lparr>sy_main := MDone\<rparr>
      else
        (case sc_receive (li_sqsClient L) (receive_input_of L) (sy_aws s) of
           (Inl err, q) \<Rightarrow>
             (let m = sy_metrics s
              in s\<lparr>sy_aws := q, sy_metrics := m\<lparr>sqsReceiveErrorsTotal := sqsReceiveErrorsTotal m + 1\<rparr>\<rparr>)
         | (Inr messages, q) \<Rightarrow>
             if length messages = 0 then s\<lparr>sy_aws := q\<rparr>
             else s\<lparr>sy_aws := q, sy_metrics := add_received (length messages) (sy_metrics s),
                   sy_main := MBatch messages\<rparr>))"

text \<open>The body of the loop over a batch, up to \<open>Enqueue\<close>.\<close>

fun batch_step ::
  "('v, 'q) listener \<Rightarrow> message list \<Rightarrow> ('v, 'c, 'w, 'q) sys \<Rightarrow> ('v, 'c, 'w, 'q) sys" where
  "batch_step L [] s = s\<lparr>sy_main := MPoll\<rparr>"
| "batch_step L (msg # msgs) s =
     (case li_reportParser L msg (sy_aws s) of
        (Panic, q) \<Rightarrow> s\<lparr>sy_aws := q, sy_main := MCrashed (msg # msgs)\<rparr>
      | (Return (rs, Some err), q) \<Rightarrow>
          s\<lparr>sy_aws := q, sy_metrics := add_processed False (sy_metrics s), sy_main := MBatch msgs\<rparr>
      | (Return (rs, None), q) \<Rightarrow> s\<lparr>sy_aws := q, sy_main := MSend msg rs msgs\<rparr>)"

text \<open>\<open>Enqueue\<close>: the send on the bus meets the scheduler's receive, and a new result channel is made.\<close>

definition bus_send ::
  "message option \<Rightarrow> 'v report list \<Rightarrow> ('v, 'c, 'w, 'q) sys \<Rightarrow> ('v, 'c, 'w, 'q) sys" where
  "bus_send src rs s =
     s\<lparr>sy_sched := SBusy rs (sy_next s), sy_next := sy_next s + 1,
       sy_log := sy_log s @ [Sent (sy_next s) src rs]\<rparr>"

text \<open>The scheduler processes its event, puts the result into the event's channel and waits again.\<close>

definition sched_step ::
  "('a, 'p, 'v, 'c, 'w, 'x) scheduler \<Rightarrow> 'v report list \<Rightarrow> nat \<Rightarrow> ('v, 'c, 'w, 'q) sys
     \<Rightarrow> ('v, 'c, 'w, 'q) sys" where
  "sched_step S rs n s =
     (let (err, st) = handle_event S rs (sy_state s)
      in s\<lparr>sy_state := st, sy_chans := (sy_chans s)(n \<mapsto> err), sy_sched := SIdle,
           sy_log := sy_log s @ [Processed n rs err]\<rparr>)"

text \<open>The goroutine of a message: its result arrives.\<close>

definition await_step ::
  "nat \<Rightarrow> nat \<Rightarrow> message \<Rightarrow> goerr option \<Rightarrow> ('v, 'c, 'w, 'q) sys \<Rightarrow> ('v, 'c, 'w, 'q) sys" where
  "await_step i n msg messageErr s =
     (let s1 = s\<lparr>sy_await := remove_nth i (sy_await s), sy_chans := (sy_chans s)(n := None)\<rparr> in
      if messageErr \<noteq> None then s1\<lparr>sy_metrics := add_processed False (sy_metrics s)\<rparr>
      else s1\<lparr>sy_metrics := add_processed True (sy_metrics s), sy_delete := sy_delete s @ [msg]\<rparr>)"

text \<open>The goroutine of a message: the call of \<open>DeleteMessage\<close> after a success.\<close>

definition delete_step ::
  "('v, 'q) listener \<Rightarrow> nat \<Rightarrow> message \<Rightarrow> ('v, 'c, 'w, 'q) sys \<Rightarrow> ('v, 'c, 'w, 'q) sys" where
  "delete_step L i msg s =
     (let (err, q) = sc_delete (li_sqsClient L) (li_queueURL L) (ms_receipt msg) (sy_aws s);
          m = sy_metrics s
      in s\<lparr>sy_aws := q, sy_delete := remove_nth i (sy_delete s),
           sy_metrics := (if err \<noteq> None then m else m\<lparr>sqsMessagesDeletedTotal := sqsMessagesDeletedTotal m + 1\<rparr>),
           sy_log := sy_log s @ [DeleteCall msg err]\<rparr>)"

datatype 'v action =
    APoll
  | ABatch
  | ASend
  | ASched
  | AAwait nat
  | ADelete nat
  | AHttp "'v report list"
  | AHttpSend nat
  | ACancel
  | ASchedStop

text \<open>
  Which actions are enabled. A crash ends the process; the scheduler looks at its context between
  events only; a send waits until the scheduler is in its \<open>select\<close>.
\<close>

fun exec ::
  "('v, 'q) listener \<Rightarrow> ('a, 'p, 'v, 'c, 'w, 'x) scheduler \<Rightarrow> 'v action
     \<Rightarrow> ('v, 'c, 'w, 'q) sys \<Rightarrow> ('v, 'c, 'w, 'q) sys option" where
  "exec L S a s =
     (case sy_main s of
        MCrashed _ \<Rightarrow> None
      | _ \<Rightarrow>
     (case a of
        APoll \<Rightarrow> (case sy_main s of MPoll \<Rightarrow> Some (poll_step L s) | _ \<Rightarrow> None)
      | ABatch \<Rightarrow> (case sy_main s of MBatch msgs \<Rightarrow> Some (batch_step L msgs s) | _ \<Rightarrow> None)
      | ASend \<Rightarrow>
          (case sy_main s of
             MSend msg rs msgs \<Rightarrow>
               if sy_sched s = SIdle
               then Some ((bus_send (Some msg) rs s)\<lparr>sy_main := MBatch msgs,
                            sy_await := sy_await s @ [(sy_next s, msg)]\<rparr>)
               else None
           | _ \<Rightarrow> None)
      | ASched \<Rightarrow>
          (case sy_sched s of SBusy rs n \<Rightarrow> Some (sched_step S rs n s) | _ \<Rightarrow> None)
      | AAwait i \<Rightarrow>
          if i < length (sy_await s) then
            (case sy_chans s (fst (sy_await s ! i)) of
               Some err \<Rightarrow> Some (await_step i (fst (sy_await s ! i)) (snd (sy_await s ! i)) err s)
             | None \<Rightarrow> None)
          else None
      | ADelete i \<Rightarrow>
          if i < length (sy_delete s) then Some (delete_step L i (sy_delete s ! i) s) else None
      | AHttp rs \<Rightarrow> Some (s\<lparr>sy_http := sy_http s @ [rs]\<rparr>)
      | AHttpSend i \<Rightarrow>
          if i < length (sy_http s) \<and> sy_sched s = SIdle
          then Some ((bus_send None (sy_http s ! i) s)\<lparr>sy_http := remove_nth i (sy_http s)\<rparr>)
          else None
      | ACancel \<Rightarrow> Some (s\<lparr>sy_cancelled := True\<rparr>)
      | ASchedStop \<Rightarrow>
          if sy_cancelled s \<and> sy_sched s = SIdle then Some (s\<lparr>sy_sched := SStop\<rparr>) else None))"

declare exec.simps [simp del]

text \<open>The process at its start, over any state of the outside world and of the cache.\<close>

definition sys_init :: "('v, 'c, 'w, 'q) sys \<Rightarrow> bool" where
  "sys_init s \<longleftrightarrow>
     sy_main s = MPoll \<and> sy_sched s = SIdle \<and> sy_chans s = Map.empty \<and> sy_await s = [] \<and> sy_delete s = []
   \<and> sy_http s = [] \<and> sy_log s = []
   \<and> sy_metrics s = \<lparr>sqsMessagesReceivedTotal = 0, sqsMessagesProcessedFailure = 0,
        sqsMessagesProcessedSuccess = 0, sqsMessagesDeletedTotal = 0, sqsReceiveErrorsTotal = 0\<rparr>"

subsection \<open>The steps as cases\<close>

lemma set_remove_nth: "set (remove_nth i xs) \<subseteq> set xs"
  by (auto simp: remove_nth_def dest: in_set_takeD in_set_dropD)

lemma length_remove_nth: "i < length xs \<Longrightarrow> Suc (length (remove_nth i xs)) = length xs"
  by (simp add: remove_nth_def)

lemma exec_cases [consumes 1, case_names poll batch send sched await delete http http_send cancel stop]:
  assumes "exec L S a s = Some s'"
  obtains
    "sy_main s = MPoll" "a = APoll" "s' = poll_step L s"
  | msgs where "sy_main s = MBatch msgs" "a = ABatch" "s' = batch_step L msgs s"
  | msg rs msgs where "sy_main s = MSend msg rs msgs" "sy_sched s = SIdle" "a = ASend"
      "s' = (bus_send (Some msg) rs s)\<lparr>sy_main := MBatch msgs, sy_await := sy_await s @ [(sy_next s, msg)]\<rparr>"
  | rs n where "sy_sched s = SBusy rs n" "a = ASched" "s' = sched_step S rs n s"
  | i err where "i < length (sy_await s)" "sy_chans s (fst (sy_await s ! i)) = Some err"
      "a = AAwait i" "s' = await_step i (fst (sy_await s ! i)) (snd (sy_await s ! i)) err s"
  | i msg where "i < length (sy_delete s)" "sy_delete s ! i = msg" "a = ADelete i" "s' = delete_step L i msg s"
  | rs where "a = AHttp rs" "s' = s\<lparr>sy_http := sy_http s @ [rs]\<rparr>"
  | i where "i < length (sy_http s)" "sy_sched s = SIdle" "a = AHttpSend i"
      "s' = (bus_send None (sy_http s ! i) s)\<lparr>sy_http := remove_nth i (sy_http s)\<rparr>"
  | "a = ACancel" "s' = s\<lparr>sy_cancelled := True\<rparr>"
  | "a = ASchedStop" "sy_cancelled s" "sy_sched s = SIdle" "s' = s\<lparr>sy_sched := SStop\<rparr>"
  using assms
  by (cases a; cases "sy_main s")
     (auto simp: exec.simps split: if_splits option.splits sched.splits prod.splits intro: that)

lemma exec_crashed: "sy_main s = MCrashed msgs \<Longrightarrow> exec L S a s = None"
  by (simp add: exec.simps)

text \<open>What polling and the loop over a batch can do to the state.\<close>

lemma poll_step_cases:
  obtains (stop) "sy_cancelled s" "poll_step L s = s\<lparr>sy_main := MDone\<rparr>"
  | (error) q where "poll_step L s = s\<lparr>sy_aws := q, sy_metrics := (sy_metrics s)\<lparr>
        sqsReceiveErrorsTotal := sqsReceiveErrorsTotal (sy_metrics s) + 1\<rparr>\<rparr>"
  | (none) q where "poll_step L s = s\<lparr>sy_aws := q\<rparr>"
  | (some) q msgs where "msgs \<noteq> []" "poll_step L s = s\<lparr>sy_aws := q,
        sy_metrics := add_received (length msgs) (sy_metrics s), sy_main := MBatch msgs\<rparr>"
proof (cases "sy_cancelled s")
  case True
  then show ?thesis by (intro stop) (simp_all add: poll_step_def)
next
  case False
  obtain r q where r: "sc_receive (li_sqsClient L) (receive_input_of L) (sy_aws s) = (r, q)" by force
  show ?thesis
  proof (cases r)
    case (Inl e)
    with r False show ?thesis by (intro error [of q]) (simp add: poll_step_def Let_def)
  next
    case (Inr msgs)
    with r False show ?thesis
      by (cases "msgs = []") (auto simp: poll_step_def intro: none [of q] some [of msgs q])
  qed
qed

lemma batch_step_cases:
  obtains (finished) "msgs = []" "batch_step L msgs s = s\<lparr>sy_main := MPoll\<rparr>"
  | (crash) m ms q where "msgs = m # ms" "batch_step L msgs s = s\<lparr>sy_aws := q, sy_main := MCrashed msgs\<rparr>"
      "fst (li_reportParser L m (sy_aws s)) = Panic"
  | (bad) m ms q where "msgs = m # ms"
      "batch_step L msgs s = s\<lparr>sy_aws := q, sy_metrics := add_processed False (sy_metrics s), sy_main := MBatch ms\<rparr>"
  | (good) m ms q rs where "msgs = m # ms" "fst (li_reportParser L m (sy_aws s)) = Return (rs, None)"
      "batch_step L msgs s = s\<lparr>sy_aws := q, sy_main := MSend m rs ms\<rparr>"
proof (cases msgs)
  case Nil
  then show ?thesis by (intro finished) simp_all
next
  case (Cons m ms)
  obtain r q where r: "li_reportParser L m (sy_aws s) = (r, q)" by force
  show ?thesis
  proof (cases r)
    case Panic
    with r Cons show ?thesis by (intro crash [of m ms q]) simp_all
  next
    case (Return x)
    obtain rs e where x: "x = (rs, e)" by force
    show ?thesis
    proof (cases e)
      case None
      with r Cons Return x show ?thesis by (intro good [of m ms rs q]) simp_all
    next
      case (Some err)
      with r Cons Return x show ?thesis by (intro bad [of m ms q]) simp_all
    qed
  qed
qed

subsection \<open>The safety invariant\<close>

text \<open>A message is settled when an event made from it was processed with the result nil.\<close>

definition settled :: "'v happening list \<Rightarrow> message \<Rightarrow> bool" where
  "settled log m \<longleftrightarrow> (\<exists>n rs. Sent n (Some m) rs \<in> set log \<and> Processed n rs None \<in> set log)"

definition parsed_to :: "('v, 'q) listener \<Rightarrow> message \<Rightarrow> 'v report list \<Rightarrow> bool" where
  "parsed_to L m rs \<longleftrightarrow> (\<exists>q. fst (li_reportParser L m q) = Return (rs, None))"

definition log_ok ::
  "('v, 'q) listener \<Rightarrow> ('a, 'p, 'v, 'c, 'w, 'x) scheduler \<Rightarrow> nat \<Rightarrow> 'v happening list \<Rightarrow> bool" where
  "log_ok L S n0 log \<longleftrightarrow>
     (\<forall>n src rs. Sent n src rs \<in> set log \<longrightarrow> n < n0 \<and> (\<forall>m. src = Some m \<longrightarrow> parsed_to L m rs)
        \<and> (\<forall>src' rs'. Sent n src' rs' \<in> set log \<longrightarrow> src' = src \<and> rs' = rs))
   \<and> (\<forall>n rs e. Processed n rs e \<in> set log \<longrightarrow>
        (\<exists>src. Sent n src rs \<in> set log) \<and> (\<exists>st. e = fst (handle_event S rs st)))
   \<and> (\<forall>m e. DeleteCall m e \<in> set log \<longrightarrow> settled log m)"

definition sys_ok ::
  "('v, 'q) listener \<Rightarrow> ('a, 'p, 'v, 'c, 'w, 'x) scheduler \<Rightarrow> ('v, 'c, 'w, 'q) sys \<Rightarrow> bool" where
  "sys_ok L S s \<longleftrightarrow>
     log_ok L S (sy_next s) (sy_log s)
   \<and> (\<forall>m rs ms. sy_main s = MSend m rs ms \<longrightarrow> parsed_to L m rs)
   \<and> (\<forall>rs n. sy_sched s = SBusy rs n \<longrightarrow> (\<exists>src. Sent n src rs \<in> set (sy_log s)))
   \<and> (\<forall>n e. sy_chans s n = Some e \<longrightarrow> (\<exists>rs. Processed n rs e \<in> set (sy_log s)))
   \<and> (\<forall>n m. (n, m) \<in> set (sy_await s) \<longrightarrow> (\<exists>rs. Sent n (Some m) rs \<in> set (sy_log s)))
   \<and> (\<forall>m \<in> set (sy_delete s). settled (sy_log s) m)"

lemma settled_mono: "settled log m \<Longrightarrow> set log \<subseteq> set log' \<Longrightarrow> settled log' m"
  by (auto simp: settled_def)

lemma settled_append: "settled log m \<Longrightarrow> settled (log @ xs) m"
  by (rule settled_mono) auto

lemma settled_all: "\<forall>m \<in> ms. settled log m \<Longrightarrow> \<forall>m \<in> ms. settled (log @ xs) m"
  by (simp add: settled_append)

lemma sys_okD:
  assumes "sys_ok L S s"
  shows "log_ok L S (sy_next s) (sy_log s)"
    and "sy_main s = MSend m rs ms \<Longrightarrow> parsed_to L m rs"
    and "sy_sched s = SBusy rs n \<Longrightarrow> \<exists>src. Sent n src rs \<in> set (sy_log s)"
    and "sy_chans s n = Some e \<Longrightarrow> \<exists>rs. Processed n rs e \<in> set (sy_log s)"
    and "(n, m) \<in> set (sy_await s) \<Longrightarrow> \<exists>rs. Sent n (Some m) rs \<in> set (sy_log s)"
    and "\<forall>m \<in> set (sy_delete s). settled (sy_log s) m"
  using assms unfolding sys_ok_def by blast+

lemma log_ok_Sent:
  assumes "log_ok L S n log" "\<And>m. src = Some m \<Longrightarrow> parsed_to L m rs"
  shows "log_ok L S (n + 1) (log @ [Sent n src rs])"
proof -
  have "settled (log @ [Sent n src rs]) m" if "settled log m" for m
    using that by (rule settled_mono) auto
  with assms show ?thesis unfolding log_ok_def by (fastforce simp: less_Suc_eq)
qed

lemma log_ok_Processed:
  assumes "log_ok L S n0 log" "Sent n src rs \<in> set log" "e = fst (handle_event S rs st)"
  shows "log_ok L S n0 (log @ [Processed n rs e])"
proof -
  have "settled (log @ [Processed n rs e]) m" if "settled log m" for m
    using that by (rule settled_mono) auto
  with assms show ?thesis unfolding log_ok_def by auto
qed

lemma log_ok_DeleteCall:
  assumes "log_ok L S n0 log" "settled log m"
  shows "log_ok L S n0 (log @ [DeleteCall m e])"
proof -
  have "settled (log @ [DeleteCall m e]) m'" if "settled log m'" for m'
    using that by (rule settled_mono) auto
  with assms show ?thesis unfolding log_ok_def by auto
qed

text \<open>A step that leaves the history alone and adds no goroutine keeps the invariant.\<close>

lemma sys_ok_frame:
  assumes "sys_ok L S s"
    and "sy_log s' = sy_log s" "sy_next s' = sy_next s" "sy_chans s' \<subseteq>\<^sub>m sy_chans s"
    and "set (sy_await s') \<subseteq> set (sy_await s)" "\<forall>m \<in> set (sy_delete s'). settled (sy_log s) m"
    and "sy_sched s' = sy_sched s \<or> sy_sched s' = SStop"
    and "\<forall>m rs ms. sy_main s' = MSend m rs ms \<longrightarrow> parsed_to L m rs"
  shows "sys_ok L S s'"
proof -
  have "sy_chans s n = Some e" if "sy_chans s' n = Some e" for n e
    using assms(4) that by (auto simp: map_le_def dom_def)
  with assms show ?thesis unfolding sys_ok_def by (auto simp: subset_iff)
qed

lemma sys_ok_poll:
  assumes "sys_ok L S s" "sy_main s = MPoll"
  shows "sys_ok L S (poll_step L s)"
proof -
  have "\<forall>m \<in> set (sy_delete s). settled (sy_log s) m" using assms(1) by (simp add: sys_ok_def)
  with assms show ?thesis
    by (cases rule: poll_step_cases [where L = L and s = s]) (auto intro: sys_ok_frame [OF assms(1)])
qed

lemma sys_ok_batch:
  assumes "sys_ok L S s"
  shows "sys_ok L S (batch_step L msgs s)"
proof -
  have d: "\<forall>m \<in> set (sy_delete s). settled (sy_log s) m" using assms by (simp add: sys_ok_def)
  show ?thesis
  proof (cases rule: batch_step_cases [where L = L and msgs = msgs and s = s])
    case (good m ms q rs)
    then have "parsed_to L m rs" unfolding parsed_to_def by blast
    with good d show ?thesis by (intro sys_ok_frame [OF assms]) auto
  qed (use d in \<open>auto intro: sys_ok_frame [OF assms]\<close>)
qed

lemma sys_ok_send:
  assumes "sys_ok L S s" "sy_main s = MSend msg rs msgs"
  shows "sys_ok L S ((bus_send (Some msg) rs s)\<lparr>sy_main := MBatch msgs,
           sy_await := sy_await s @ [(sy_next s, msg)]\<rparr>)"
proof -
  let ?log = "sy_log s @ [Sent (sy_next s) (Some msg) rs]"
  have "parsed_to L msg rs" using assms by (simp add: sys_ok_def)
  then have "log_ok L S (sy_next s + 1) ?log"
    using assms(1) by (intro log_ok_Sent) (simp_all add: sys_ok_def)
  moreover have "\<forall>m \<in> set (sy_delete s). settled ?log m"
    by (rule settled_all [OF sys_okD(6) [OF assms(1)]])
  ultimately show ?thesis
    using assms(1) unfolding sys_ok_def bus_send_def by (simp add: all_conj_distrib) (metis Un_iff)
qed

lemma sys_ok_http_send:
  assumes "sys_ok L S s"
  shows "sys_ok L S ((bus_send None rs s)\<lparr>sy_http := h\<rparr>)"
proof -
  let ?log = "sy_log s @ [Sent (sy_next s) None rs]"
  have "log_ok L S (sy_next s + 1) ?log"
    using assms(1) by (intro log_ok_Sent) (simp_all add: sys_ok_def)
  moreover have "\<forall>m \<in> set (sy_delete s). settled ?log m"
    by (rule settled_all [OF sys_okD(6) [OF assms(1)]])
  ultimately show ?thesis
    using assms(1) unfolding sys_ok_def bus_send_def by (simp add: all_conj_distrib) (metis Un_iff)
qed

lemma sys_ok_sched:
  assumes "sys_ok L S s" "sy_sched s = SBusy rs n"
  shows "sys_ok L S (sched_step S rs n s)"
proof -
  obtain e st where h: "handle_event S rs (sy_state s) = (e, st)" by force
  let ?log = "sy_log s @ [Processed n rs e]"
  obtain src where "Sent n src rs \<in> set (sy_log s)" using assms by (auto simp: sys_ok_def)
  then have "log_ok L S (sy_next s) ?log"
    using assms(1) h by (intro log_ok_Processed [where st = "sy_state s"]) (simp_all add: sys_ok_def)
  moreover have "\<forall>m \<in> set (sy_delete s). settled ?log m"
    by (rule settled_all [OF sys_okD(6) [OF assms(1)]])
  moreover have "\<exists>rs'. Processed n' rs' e' \<in> set ?log" if "((sy_chans s)(n \<mapsto> e)) n' = Some e'" for n' e'
    using that assms(1) by (auto simp: sys_ok_def split: if_splits)
  ultimately show ?thesis
    using assms(1) h unfolding sys_ok_def sched_step_def by (simp add: all_conj_distrib)
qed

lemma sys_ok_await:
  assumes "sys_ok L S s" "i < length (sy_await s)" "sy_await s ! i = (n, msg)" "sy_chans s n = Some err"
  shows "sys_ok L S (await_step i n msg err s)"
proof -
  have d: "\<forall>m \<in> set (sy_delete s). settled (sy_log s) m" using assms(1) by (simp add: sys_ok_def)
  have "(n, msg) \<in> set (sy_await s)" using assms(2,3) by (metis nth_mem)
  from sys_okD(5) [OF assms(1) this] obtain rs where snt: "Sent n (Some msg) rs \<in> set (sy_log s)" ..
  from sys_okD(4) [OF assms(1,4)] obtain rs' where prc: "Processed n rs' err \<in> set (sy_log s)" ..
  have "settled (sy_log s) msg" if "err = None"
  proof -
    have ok: "log_ok L S (sy_next s) (sy_log s)" using assms(1) by (simp add: sys_ok_def)
    from prc ok obtain src where "Sent n src rs' \<in> set (sy_log s)" unfolding log_ok_def by blast
    with snt ok have "rs' = rs" unfolding log_ok_def by blast
    with snt prc that show ?thesis unfolding settled_def by blast
  qed
  with d show ?thesis
    unfolding await_step_def Let_def
    by (intro sys_ok_frame [OF assms(1)])
       (use assms(1) set_remove_nth [of i "sy_await s"] in \<open>auto simp: sys_ok_def map_le_def\<close>)
qed

lemma sys_ok_delete:
  assumes "sys_ok L S s" "i < length (sy_delete s)"
  shows "sys_ok L S (delete_step L i (sy_delete s ! i) s)"
proof -
  let ?m = "sy_delete s ! i"
  obtain e q where d: "sc_delete (li_sqsClient L) (li_queueURL L) (ms_receipt ?m) (sy_aws s) = (e, q)" by force
  let ?log = "sy_log s @ [DeleteCall ?m e]"
  have m: "settled (sy_log s) ?m" using assms by (simp add: sys_ok_def)
  then have "log_ok L S (sy_next s) ?log"
    using assms(1) by (intro log_ok_DeleteCall) (simp_all add: sys_ok_def)
  moreover have "\<forall>m \<in> set (remove_nth i (sy_delete s)). settled ?log m"
    using settled_all [OF sys_okD(6) [OF assms(1)]] set_remove_nth [of i "sy_delete s"] by blast
  ultimately show ?thesis
    using assms(1) d unfolding sys_ok_def delete_step_def by (simp add: all_conj_distrib Let_def)
qed

lemma sys_ok_init: "sys_init s \<Longrightarrow> sys_ok L S s"
  by (simp add: sys_init_def sys_ok_def log_ok_def)

lemma sys_ok_exec:
  assumes "sys_ok L S s" "exec L S a s = Some s'"
  shows "sys_ok L S s'"
  using assms(2)
proof (cases rule: exec_cases)
  case poll
  with assms(1) show ?thesis by (simp add: sys_ok_poll)
next
  case (batch msgs)
  with assms(1) show ?thesis by (simp add: sys_ok_batch)
next
  case (send msg rs msgs)
  with assms(1) show ?thesis by (simp add: sys_ok_send)
next
  case (sched rs n)
  with assms(1) show ?thesis by (simp add: sys_ok_sched)
next
  case (await i err)
  with assms(1) show ?thesis by (simp add: sys_ok_await)
next
  case (delete i msg)
  with assms(1) show ?thesis by (auto simp: sys_ok_delete)
next
  case (http_send i)
  with assms(1) show ?thesis by (simp add: sys_ok_http_send)
qed (use assms(1) in \<open>auto simp: sys_ok_def intro: sys_ok_frame [OF assms(1)]\<close>)

interpretation safe: inductive_invariant sys_init "exec L S" "sys_ok L S" for L S
  by unfold_locales (auto intro: sys_ok_init sys_ok_exec)

subsection \<open>The counters\<close>

fun in_batch :: "'v main \<Rightarrow> nat" where
  "in_batch MPoll = 0"
| "in_batch (MBatch ms) = length ms"
| "in_batch (MSend m rs ms) = Suc (length ms)"
| "in_batch MDone = 0"
| "in_batch (MCrashed ms) = length ms"

fun delete_error :: "'v happening \<Rightarrow> goerr option option" where
  "delete_error (DeleteCall m e) = Some e"
| "delete_error _ = None"

definition delete_results :: "'v happening list \<Rightarrow> goerr option list" where
  "delete_results log = List.map_filter delete_error log"

definition accounted :: "('v, 'c, 'w, 'q) sys \<Rightarrow> bool" where
  "accounted s \<longleftrightarrow>
     (let m = sy_metrics s; rs = delete_results (sy_log s) in
      sqsMessagesReceivedTotal m =
        sqsMessagesProcessedSuccess m + sqsMessagesProcessedFailure m + length (sy_await s) + in_batch (sy_main s)
    \<and> sqsMessagesProcessedSuccess m = length (sy_delete s) + length rs
    \<and> sqsMessagesDeletedTotal m = length (filter (\<lambda>e. e = None) rs))"

lemma delete_results_simps [simp]:
  "delete_results [] = []"
  "delete_results (log @ [Sent n src rs]) = delete_results log"
  "delete_results (log @ [Processed n rs e]) = delete_results log"
  "delete_results (log @ [DeleteCall m e]) = delete_results log @ [e]"
  by (simp_all add: delete_results_def List.map_filter_def)

lemmas metric_defs = add_processed_def add_received_def

lemma accounted_poll:
  assumes "accounted s" "sy_main s = MPoll"
  shows "accounted (poll_step L s)"
  using assms
  by (cases rule: poll_step_cases [where L = L and s = s]) (simp_all add: accounted_def Let_def metric_defs)

lemma accounted_batch:
  assumes "accounted s" "sy_main s = MBatch msgs"
  shows "accounted (batch_step L msgs s)"
  using assms
  by (cases rule: batch_step_cases [where L = L and msgs = msgs and s = s])
     (simp_all add: accounted_def Let_def metric_defs)

lemma accounted_await:
  assumes "accounted s" "i < length (sy_await s)"
  shows "accounted (await_step i n msg err s)"
  using assms length_remove_nth [OF assms(2)] by (simp add: accounted_def Let_def metric_defs await_step_def)

lemma accounted_delete:
  assumes "accounted s" "i < length (sy_delete s)"
  shows "accounted (delete_step L i msg s)"
  using assms length_remove_nth [OF assms(2)]
  by (simp add: accounted_def Let_def delete_step_def split_beta)

lemma accounted_exec:
  assumes "accounted s" "exec L S a s = Some s'"
  shows "accounted s'"
  using assms(2)
proof (cases rule: exec_cases)
  case poll
  with assms(1) show ?thesis by (simp add: accounted_poll)
next
  case (batch msgs)
  with assms(1) show ?thesis by (simp add: accounted_batch)
next
  case (await i err)
  with assms(1) show ?thesis by (simp add: accounted_await)
next
  case (delete i msg)
  with assms(1) show ?thesis by (simp add: accounted_delete)
qed (use assms(1) in \<open>simp_all add: accounted_def Let_def bus_send_def sched_step_def split_beta\<close>)

interpretation counts: inductive_invariant sys_init "exec L S" accounted for L S
proof
  show "sys_init s \<Longrightarrow> accounted s" for s by (simp add: sys_init_def accounted_def)
qed (rule accounted_exec)

subsection \<open>Progress\<close>

definition live :: "('v, 'c, 'w, 'q) sys \<Rightarrow> bool" where
  "live s \<longleftrightarrow>
     distinct (map fst (sy_await s))
   \<and> (\<forall>x \<in> set (sy_await s). fst x < sy_next s)
   \<and> (\<forall>x \<in> set (sy_await s). sy_chans s (fst x) \<noteq> None \<or> (\<exists>rs. sy_sched s = SBusy rs (fst x)))"

fun main_work :: "'v main \<Rightarrow> nat" where
  "main_work MPoll = 0"
| "main_work (MBatch ms) = 6 * length ms + 1"
| "main_work (MSend m rs ms) = 6 * length ms + 6"
| "main_work MDone = 0"
| "main_work (MCrashed ms) = 0"

text \<open>The work in flight, and when none of it can be done: after a panic, and after the scheduler returned.\<close>

definition in_flight :: "('v, 'c, 'w, 'q) sys \<Rightarrow> nat" where
  "in_flight s =
     main_work (sy_main s) + (case sy_sched s of SBusy rs n \<Rightarrow> 2 | _ \<Rightarrow> 0)
   + 2 * length (sy_await s) + length (sy_delete s) + 3 * length (sy_http s)"

definition halted :: "('v, 'c, 'w, 'q) sys \<Rightarrow> bool" where
  "halted s \<longleftrightarrow> sy_sched s = SStop \<or> (\<exists>ms. sy_main s = MCrashed ms)"

fun internal :: "'v action \<Rightarrow> bool" where
  "internal APoll = False"
| "internal (AHttp rs) = False"
| "internal ACancel = False"
| "internal ASchedStop = False"
| "internal _ = True"

lemma live_exec:
  assumes "live s" "exec L S a s = Some s'"
  shows "live s'"
  using assms(2)
proof (cases rule: exec_cases)
  case poll
  with assms(1) show ?thesis
    by (cases rule: poll_step_cases [where L = L and s = s]) (simp_all add: live_def)
next
  case (batch msgs)
  with assms(1) show ?thesis
    by (cases rule: batch_step_cases [where L = L and msgs = msgs and s = s]) (simp_all add: live_def)
next
  case (send msg rs msgs)
  with assms(1) show ?thesis by (force simp: live_def bus_send_def)
next
  case (sched rs n)
  with assms(1) show ?thesis by (auto simp: live_def sched_step_def split_beta)
next
  case (await i err)
  let ?n = "fst (sy_await s ! i)"
  have d: "distinct (map fst (sy_await s))" using assms(1) by (simp add: live_def)
  have m: "map fst (remove_nth i (sy_await s)) = remove_nth i (map fst (sy_await s))"
    by (simp add: remove_nth_def take_map drop_map)
  have split: "map fst (sy_await s) = take i (map fst (sy_await s)) @ ?n # drop (Suc i) (map fst (sy_await s))"
    using id_take_nth_drop [of i "map fst (sy_await s)"] await(1) by simp
  from d have d2: "distinct (remove_nth i (map fst (sy_await s)))" "?n \<notin> set (remove_nth i (map fst (sy_await s)))"
    by (subst (asm) split, simp add: remove_nth_def)+
  have keep: "x \<in> set (sy_await s) \<and> fst x \<noteq> ?n" if "x \<in> set (remove_nth i (sy_await s))" for x
    using that set_remove_nth [of i "sy_await s"] d2(2) [folded m] by (metis imageI set_map subsetD)
  have "live (s\<lparr>sy_await := remove_nth i (sy_await s), sy_chans := (sy_chans s)(?n := None)\<rparr>)"
    using assms(1) d2(1) keep unfolding live_def m [symmetric] by simp
  then show ?thesis unfolding await await_step_def by (simp add: live_def Let_def)
next
  case (http_send i)
  with assms(1) show ?thesis by (fastforce simp: live_def bus_send_def)
qed (use assms(1) in \<open>auto simp: live_def delete_step_def Let_def split_beta\<close>)

lemma live_init: "sys_init s \<Longrightarrow> live s"
  by (simp add: sys_init_def live_def)

lemma internal_decreases:
  assumes "internal a" "exec L S a s = Some s'"
  shows "in_flight s' < in_flight s"
  using assms(2)
proof (cases rule: exec_cases)
  case (batch msgs)
  then show ?thesis
    by (cases rule: batch_step_cases [where L = L and msgs = msgs and s = s]) (simp_all add: in_flight_def)
next
  case (await i err)
  then show ?thesis using length_remove_nth [OF await(1)] by (simp add: in_flight_def await_step_def Let_def)
next
  case (delete i msg)
  then show ?thesis
    using length_remove_nth [OF delete(1)] by (simp add: in_flight_def delete_step_def Let_def split_beta)
next
  case (http_send i)
  then show ?thesis using length_remove_nth [OF http_send(1)] by (simp add: in_flight_def bus_send_def)
qed (use assms(1) in \<open>simp_all add: in_flight_def bus_send_def sched_step_def split_beta\<close>)

text \<open>While work is in flight and the system is not halted, some goroutine can go on.\<close>

lemma internal_progress:
  assumes "live s" "\<not> halted s" "0 < in_flight s"
  shows "\<exists>a s'. internal a \<and> exec L S a s = Some s'"
proof -
  have nc: "\<forall>ms. sy_main s \<noteq> MCrashed ms" using assms(2) by (simp add: halted_def)
  note ex = exec.simps main.case
  show ?thesis
  proof (cases "sy_sched s")
    case (SBusy rs n)
    then show ?thesis using nc
      by (intro exI [of _ ASched]) (cases "sy_main s", simp_all add: ex)
  next
    case SStop
    with assms(2) show ?thesis by (simp add: halted_def)
  next
    case SIdle
    consider (aw) "sy_await s \<noteq> []" | (del) "sy_delete s \<noteq> []" | (http) "sy_http s \<noteq> []"
      | (main) "sy_await s = []" "sy_delete s = []" "sy_http s = []" by blast
    then show ?thesis
    proof cases
      case aw
      then have "sy_await s ! 0 \<in> set (sy_await s)" by (cases "sy_await s") simp_all
      with assms(1) have "sy_chans s (fst (sy_await s ! 0)) \<noteq> None \<or> (\<exists>rs. sy_sched s = SBusy rs (fst (sy_await s ! 0)))"
        by (simp add: live_def)
      with SIdle obtain e where "sy_chans s (fst (sy_await s ! 0)) = Some e" by auto
      with aw nc show ?thesis
        by (intro exI [of _ "AAwait 0"]) (cases "sy_main s", simp_all add: ex)
    next
      case del
      with nc show ?thesis by (intro exI [of _ "ADelete 0"]) (cases "sy_main s", simp_all add: ex)
    next
      case http
      with nc SIdle show ?thesis by (intro exI [of _ "AHttpSend 0"]) (cases "sy_main s", simp_all add: ex)
    next
      case main
      with assms(3) SIdle have "0 < main_work (sy_main s)" by (simp add: in_flight_def)
      then show ?thesis
      proof (cases "sy_main s")
        case (MBatch ms)
        then show ?thesis by (intro exI [of _ ABatch]) (simp add: ex)
      next
        case (MSend m rs ms)
        with SIdle show ?thesis by (intro exI [of _ ASend]) (simp add: ex)
      qed simp_all
    qed
  qed
qed

interpretation flow: draining sys_init "exec L S" live internal in_flight halted for L S
proof
  show "sys_init s \<Longrightarrow> live s" for s by (rule live_init)
  show "live s \<Longrightarrow> exec L S a s = Some s' \<Longrightarrow> live s'" for s a s' by (rule live_exec)
  show "live s \<Longrightarrow> \<not> halted s \<Longrightarrow> 0 < in_flight s \<Longrightarrow> \<exists>a s'. internal a \<and> exec L S a s = Some s'" for s
    by (rule internal_progress)
  show "live s \<Longrightarrow> internal a \<Longrightarrow> exec L S a s = Some s' \<Longrightarrow> in_flight s' < in_flight s" for s a s'
    by (rule internal_decreases)
qed

subsection \<open>What an accepted event was\<close>

lemma generate_all_valid:
  "fst (generate_all S policies reports st) = Inr gs \<Longrightarrow> list_all (\<lambda>r. action_id r \<noteq> None) reports"
proof (induction reports arbitrary: st gs)
  case Nil
  then show ?case by simp
next
  case (Cons r rs)
  from Cons.prems obtain a where a: "action_id r = Some a" by (cases "action_id r") simp_all
  then obtain hs where "fst (generate_all S policies rs (snd (createPipelinesForReport S policies a r st))) = Inr hs"
    using Cons.prems by (auto simp: split_beta Let_def split: sum.splits)
  from Cons.IH [OF this] a show ?case by simp
qed

lemma accepted_reports:
  assumes "fst (processReports S reports st) = None"
  shows "list_all (\<lambda>r. action_id r \<noteq> None) reports \<and> fst (check_threshold S st) = None"
proof -
  obtain t st1 where t: "check_threshold S st = (t, st1)" by force
  with assms have t0: "t = None" by (cases t) (simp_all add: processReports_def)
  obtain p st2 where p: "call (cl_list_policies (mgrClient S)) st1 = (p, st2)" by force
  with assms t t0 obtain policies where p0: "p = Inr policies" by (cases p) (simp_all add: processReports_def)
  obtain g st3 where g: "generate_all S policies reports st2 = (g, st3)" by force
  with assms t t0 p p0 obtain gs where "g = Inr gs" by (cases g) (simp_all add: processReports_def)
  with g generate_all_valid [of S policies reports st2 gs] t t0 show ?thesis by simp
qed

lemma fst_handle_event: "\<exists>st'. fst (handle_event S rs st) = fst (processReports S rs st')"
  unfolding handle_event_def Let_def split_beta by auto

subsection \<open>A reference queue\<close>

text \<open>The queue is the list of its messages; receiving takes up to the number asked for.\<close>

definition ref_sqs :: "message list sqs_client" where
  "ref_sqs = \<lparr>sc_receive = (\<lambda>i q. (Inr (take (nat (ri_maxMessages i)) q), drop (nat (ri_maxMessages i)) q)),
              sc_delete = (\<lambda>url h q. (None, q))\<rparr>"

definition ref_listener :: "(rval, message list) listener" where
  "ref_listener = \<lparr>li_sqsClient = ref_sqs, li_queueURL = ''q'', li_waitTime = Second * 20,
                   li_visibilityTime = Minute, li_reportParser = RawReportParser ref_jlib\<rparr>"

definition demo_sys ::
  "message list \<Rightarrow> (rval, string cached list_cache, unit pipeline list, message list) sys" where
  "demo_sys q = \<lparr>sy_cancelled = False, sy_main = MPoll, sy_sched = SIdle, sy_state = ref_state [],
     sy_chans = Map.empty, sy_next = 0, sy_await = [], sy_delete = [], sy_http = [], sy_aws = q,
     sy_metrics = \<lparr>sqsMessagesReceivedTotal = 0, sqsMessagesProcessedFailure = 0,
        sqsMessagesProcessedSuccess = 0, sqsMessagesDeletedTotal = 0, sqsReceiveErrorsTotal = 0\<rparr>,
     sy_log = []\<rparr>"

abbreviation demo_exec ::
  "rval action \<Rightarrow> (rval, string cached list_cache, unit pipeline list, message list) sys
     \<Rightarrow> (rval, string cached list_cache, unit pipeline list, message list) sys option" where
  "demo_exec \<equiv> exec ref_listener (ref_scheduler 0 5 [])"

lemma demo_init [simp]: "sys_init (demo_sys q)"
  by (simp add: sys_init_def demo_sys_def)

lemmas demo_run = demo_sys_def exec.simps poll_step_def receive_input_of_def ref_listener_def ref_sqs_def
  Second_def Minute_def RawReportParser_def unmarshal_report_def decode_report_def number_error_def
  ref_jlib_def demo_message_def bus_send_def sched_step_def handle_event_def processReports_def
  check_threshold_def ref_scheduler_def ref_client_def call_def await_step_def delete_step_def
  remove_nth_def metric_defs KeyActionID_def createPipelinesForReport_def Let_def
  action_id_def ref_state_def

lemma demo_reach:
  assumes "run_acts demo_exec as (demo_sys q) = Some s"
  shows "reach sys_init demo_exec s"
proof (rule run_acts_reach)
  show "reach sys_init demo_exec (demo_sys q)" by (rule reach.start) simp
qed (rule assms)

lemma demo_deletes:
  "\<exists>s. run_acts demo_exec [APoll, ABatch, ASend, ASched, AAwait 0, ADelete 0] (demo_sys [demo_message ''report''])
         = Some s \<and> DeleteCall (demo_message ''report'') None \<in> set (sy_log s)"
  by (simp add: demo_run)

subsection \<open>Properties of the listener\<close>

lemma deleted_accepted:
  assumes "sys_ok L S s" "DeleteCall m e \<in> set (sy_log s)"
  shows "\<exists>n rs st. parsed_to L m rs
     \<and> Sent n (Some m) rs \<in> set (sy_log s) \<and> Processed n rs None \<in> set (sy_log s)
     \<and> fst (processReports S rs st) = None \<and> list_all (\<lambda>r. action_id r \<noteq> None) rs
     \<and> fst (check_threshold S st) = None"
proof -
  have ok: "log_ok L S (sy_next s) (sy_log s)" by (rule sys_okD(1) [OF assms(1)])
  with assms(2) have "settled (sy_log s) m" unfolding log_ok_def by blast
  then obtain n rs where n: "Sent n (Some m) rs \<in> set (sy_log s)" "Processed n rs None \<in> set (sy_log s)"
    unfolding settled_def by blast
  from ok n(1) have p: "parsed_to L m rs" unfolding log_ok_def by blast
  from ok n(2) obtain st0 where "None = fst (handle_event S rs st0)" unfolding log_ok_def by blast
  then obtain st where "fst (processReports S rs st) = None" using fst_handle_event [of S rs st0] by metis
  with accepted_reports [OF this] n p show ?thesis by blast
qed

text \<open>
  A message is deleted only after its reports were accepted. In every state the process can reach, in
  any interleaving of the listener, the message goroutines, the HTTP handlers and the scheduler, a call
  of \<open>DeleteMessage\<close> was made for a message that the parser had parsed without an error, whose reports
  were sent as one event, and for exactly that event the scheduler had answered nil: the reports all
  had an action id and the pipeline threshold had not been reached.
\<close>

theorem deleted_only_if_accepted:
  assumes "reach sys_init (exec L S) s" "DeleteCall m e \<in> set (sy_log s)"
  shows "\<exists>n rs st. parsed_to L m rs
     \<and> Sent n (Some m) rs \<in> set (sy_log s) \<and> Processed n rs None \<in> set (sy_log s)
     \<and> fst (processReports S rs st) = None \<and> list_all (\<lambda>r. action_id r \<noteq> None) rs
     \<and> fst (check_threshold S st) = None"
  by (rule deleted_accepted [OF safe.reach_inv [OF assms(1)] assms(2)])

theorem deleted_only_if_accepted_witness:
  "\<exists>s rs. run_acts demo_exec [APoll, ABatch, ASend, ASched, AAwait 0, ADelete 0] (demo_sys [demo_message ''report''])
       = Some s \<and> parsed_to ref_listener (demo_message ''report'') rs \<and> Processed 0 rs None \<in> set (sy_log s)"
proof -
  obtain s where s: "run_acts demo_exec [APoll, ABatch, ASend, ASched, AAwait 0, ADelete 0]
      (demo_sys [demo_message ''report'']) = Some s" "DeleteCall (demo_message ''report'') None \<in> set (sy_log s)"
    using demo_deletes by blast
  have "reach sys_init demo_exec s" by (rule demo_reach [OF s(1)])
  from deleted_only_if_accepted [OF this s(2)] obtain n rs where
    n: "parsed_to ref_listener (demo_message ''report'') rs" "Processed n rs None \<in> set (sy_log s)" by blast
  have "n = 0" if "Processed n rs None \<in> set (sy_log s)" for n rs
    using s(1) that by (auto simp: demo_run)
  with n s(1) show ?thesis by blast
qed

text \<open>Once the scheduler has returned, a listener in \<open>Enqueue\<close> stays there, and so do the HTTP handlers.\<close>

lemma stopped_exec:
  assumes "sy_sched s = SStop" "sy_main s = MSend m rs ms" "exec L S a s = Some s'"
  shows "sy_sched s' = SStop \<and> sy_main s' = MSend m rs ms \<and> length (sy_http s) \<le> length (sy_http s')"
  using assms(3)
  by (cases rule: exec_cases)
     (use assms(1,2) in \<open>simp_all add: await_step_def delete_step_def Let_def split_beta\<close>)

end
