(* ===== verification/Event_Order.thy ===== *)
theory Event_Order
  imports Sqs_Listener
begin

section \<open>The scheduler behind the bus\<close>

text \<open>
  What the concurrent process of \<^verbatim>\<open>Sqs_Listener\<close> does to the scheduler, seen from outside: the sequential
  loop \<open>serve\<close> over the events in the order in which the bus took them, whatever the interleaving; and what
  becomes of the result of an event that an HTTP handler sent.
\<close>

subsection \<open>Events in the history\<close>

fun sent_event :: "'v happening \<Rightarrow> (nat \<times> 'v report list) option" where
  "sent_event (Sent n src rs) = Some (n, rs)"
| "sent_event _ = None"

fun done_event :: "'v happening \<Rightarrow> (nat \<times> 'v report list) option" where
  "done_event (Processed n rs e) = Some (n, rs)"
| "done_event _ = None"

fun done_result :: "'v happening \<Rightarrow> goerr option option" where
  "done_result (Processed n rs e) = Some e"
| "done_result _ = None"

definition events_sent :: "'v happening list \<Rightarrow> (nat \<times> 'v report list) list" where
  "events_sent log = List.map_filter sent_event log"

definition events_done :: "'v happening list \<Rightarrow> (nat \<times> 'v report list) list" where
  "events_done log = List.map_filter done_event log"

definition results :: "'v happening list \<Rightarrow> goerr option list" where
  "results log = List.map_filter done_result log"

lemma map_filter_append: "List.map_filter f (xs @ ys) = List.map_filter f xs @ List.map_filter f ys"
  by (simp add: List.map_filter_def)

lemma history_simps [simp]:
  "events_sent [] = []" "events_done [] = []" "results [] = []"
  "events_sent (log @ [Sent n src rs]) = events_sent log @ [(n, rs)]"
  "events_sent (log @ [Processed n rs e]) = events_sent log" "events_sent (log @ [DeleteCall m e]) = events_sent log"
  "events_done (log @ [Processed n rs e]) = events_done log @ [(n, rs)]"
  "events_done (log @ [Sent n src rs]) = events_done log" "events_done (log @ [DeleteCall m e]) = events_done log"
  "results (log @ [Processed n rs e]) = results log @ [e]"
  "results (log @ [Sent n src rs]) = results log" "results (log @ [DeleteCall m e]) = results log"
  by (simp_all add: events_sent_def events_done_def results_def map_filter_append map_filter_simps)

lemma serve_snoc:
  "serve S (es @ [e]) st =
     (let (rs, st1) = serve S es st; (r, st2) = handle_event S e st1 in (rs @ [r], st2))"
  by (induction es arbitrary: st) (simp_all add: Let_def split_beta)

subsection \<open>The order of events\<close>

text \<open>
  The abstraction: the scheduler's state is what \<open>serve\<close> makes of the events done, which are the events
  sent, in that order, without the one in progress; events are numbered as they are sent.
\<close>

definition busy_event :: "'v sched \<Rightarrow> (nat \<times> 'v report list) list" where
  "busy_event sc = (case sc of SBusy rs n \<Rightarrow> [(n, rs)] | _ \<Rightarrow> [])"

definition in_order ::
  "('a, 'p, 'v, 'c, 'w, 'x) scheduler \<Rightarrow> ('v, 'c, 'w, 'q) sys \<Rightarrow> ('v, 'c, 'w, 'q) sys \<Rightarrow> bool" where
  "in_order S s0 s \<longleftrightarrow>
     serve S (map snd (events_done (sy_log s))) (sy_state s0) = (results (sy_log s), sy_state s)
   \<and> events_sent (sy_log s) = events_done (sy_log s) @ busy_event (sy_sched s)
   \<and> map fst (events_done (sy_log s) @ busy_event (sy_sched s)) = [sy_next s0 ..< sy_next s] \<and> sy_next s0 \<le> sy_next s"

lemma in_order_start: "sys_init s0 \<Longrightarrow> in_order S s0 s0"
  by (simp add: in_order_def sys_init_def busy_event_def)

lemma in_order_frame:
  assumes "in_order S s0 s" "sy_state s' = sy_state s" "sy_log s' = sy_log s" "sy_sched s' = sy_sched s"
    "sy_next s' = sy_next s"
  shows "in_order S s0 s'"
  using assms unfolding in_order_def by simp

lemma in_order_exec:
  assumes "in_order S s0 s" "exec L S a s = Some s'"
  shows "in_order S s0 s'"
  using assms(2)
proof (cases rule: exec_cases)
  case poll
  then show ?thesis
    using assms(1) by (cases rule: poll_step_cases [of s L]) (auto intro: in_order_frame)
next
  case (batch msgs)
  then show ?thesis
    using assms(1) by (cases rule: batch_step_cases [of msgs L s]) (auto intro: in_order_frame)
next
  case (send msg rs msgs)
  then show ?thesis using assms(1) by (simp add: in_order_def bus_send_def busy_event_def)
next
  case (sched rs n)
  obtain e st where h: "handle_event S rs (sy_state s) = (e, st)" by force
  with sched assms(1) show ?thesis
    by (simp add: in_order_def sched_step_def serve_snoc busy_event_def)
next
  case (await i err)
  then show ?thesis
    using assms(1) by (auto simp: await_step_def Let_def intro: in_order_frame)
next
  case (delete i msg)
  obtain e q where "sc_delete (li_sqsClient L) (li_queueURL L) (ms_receipt msg) (sy_aws s) = (e, q)" by force
  with delete assms(1) show ?thesis by (simp add: in_order_def delete_step_def Let_def)
next
  case (http rs)
  then show ?thesis using assms(1) by (auto intro: in_order_frame)
next
  case (http_send i)
  then show ?thesis using assms(1) by (simp add: in_order_def bus_send_def busy_event_def)
next
  case cancel
  then show ?thesis using assms(1) by (auto intro: in_order_frame)
next
  case stop
  then show ?thesis using assms(1) by (simp add: in_order_def busy_event_def)
qed

interpretation order: inductive_invariant "\<lambda>s. sys_init s0 \<and> s = s0" "exec L S" "in_order S s0" for L S s0
  by unfold_locales (auto intro: in_order_start in_order_exec)

subsection \<open>Properties of the bus\<close>

text \<open>
  C7. The goroutines implement the sequential scheduler. However the listener, the message goroutines, the HTTP
  handlers and the scheduler interleave, the state of the scheduler (cache, cluster, recorded events,
  metrics) and the results it gave are those of \<open>serve\<close>, the loop alone, on the events done; these are the
  events that were sent, in the order in which the bus took them, except at most the last one, which is
  in progress; and every event has its own result channel.
\<close>

theorem bus_refines_serve:
  assumes "sys_init s0" "run_acts (exec L S) as s0 = Some s"
  shows "serve S (map snd (events_done (sy_log s))) (sy_state s0) = (results (sy_log s), sy_state s)
     \<and> events_sent (sy_log s) = events_done (sy_log s)
          @ (case sy_sched s of SBusy rs n \<Rightarrow> [(n, rs)] | _ \<Rightarrow> [])
     \<and> distinct (map fst (events_sent (sy_log s)))"
proof -
  have ord: "in_order S s0 s" using order.run_inv [OF in_order_start [OF assms(1)] assms(2)] .
  then have "distinct (map fst (events_done (sy_log s) @ busy_event (sy_sched s)))"
    unfolding in_order_def by (metis distinct_upt)
  with ord show ?thesis by (simp add: in_order_def busy_event_def)
qed

theorem bus_refines_serve_witness:
  "\<exists>s. run_acts demo_exec [APoll, AHttp [], ABatch, AHttpSend 0, ASched, ASend, ASched] (demo_sys [demo_message ''report''])
       = Some s
     \<and> length (events_sent (sy_log s)) = 2 \<and> length (results (sy_log s)) = 2
     \<and> serve (ref_scheduler 0 5 []) (map snd (events_done (sy_log s))) (ref_state []) = (results (sy_log s), sy_state s)"
proof -
  have "\<exists>s. run_acts demo_exec [APoll, AHttp [], ABatch, AHttpSend 0, ASched, ASend, ASched] (demo_sys [demo_message ''report''])
       = Some s \<and> length (events_sent (sy_log s)) = 2 \<and> length (results (sy_log s)) = 2"
    by (simp add: demo_run events_sent_def results_def map_filter_simps)
  then obtain s where s: "run_acts demo_exec [APoll, AHttp [], ABatch, AHttpSend 0, ASched, ASend, ASched]
      (demo_sys [demo_message ''report'']) = Some s"
    "length (events_sent (sy_log s)) = 2" "length (results (sy_log s)) = 2" by blast
  have "sy_state (demo_sys [demo_message ''report'']) = ref_state []" by (simp add: demo_sys_def)
  with bus_refines_serve [OF demo_init s(1)] s show ?thesis by metis
qed

end
