(* ===== verification/Cluster_History.thy ===== *)
theory Cluster_History
  imports Event_Order
begin

section \<open>What the controller does to the cluster\<close>

text \<open>
  The abstract specification of the whole path from an event to the cluster is \<open>event_spec\<close>, a function of the reports and the
  cluster: without cache, goroutines, recorded events or metrics. The scheduler of \<^verbatim>\<open>internal/reports\<close> refines it,
  alone (\<open>serve\<close>) and as one of the goroutines of \<^verbatim>\<open>Sqs_Listener\<close>. Nothing is asked of the client but that the API server lists policies that it serves:
  its calls may as well let others act on the cluster.
\<close>

subsection \<open>The cluster after a sequence of events\<close>

definition cluster_after :: "('a, 'p, 'v, 'c, 'w, 'x) scheduler \<Rightarrow> 'v report list list \<Rightarrow> 'w \<Rightarrow> 'w" where
  "cluster_after S es w = fold (\<lambda>rs w. snd (event_spec S rs w)) es w"

text \<open>
  An event that is accepted ends with one \<open>Create\<close> for each pipeline that the listed policies plan for its reports, and leaves a
  warning for each that was refused.
\<close>

lemma event_spec_accepts:
  assumes "event_spec S rs w = (None, w')"
  shows "fst (threshold_spec S w) = None \<and> list_all (\<lambda>r. action_id r \<noteq> None) rs
    \<and> (\<exists>policies w2. cl_list_policies (mgrClient S) (snd (threshold_spec S w)) = (Inr policies, w2)
         \<and> w' = create_run (mgrClient S) (concat (map g_pipelines (planned S policies rs))) (event_reads S policies rs w2)
         \<and> event_refusals S rs w = refusals (mgrClient S) (planned S policies rs) (event_reads S policies rs w2))"
  using assms by (auto simp: event_spec_def event_refusals_def Let_def split: prod.splits option.splits sum.splits if_splits)

text \<open>An event without reports, as S3's test event makes one, is accepted below the threshold and creates nothing.\<close>

lemma empty_event_accepted:
  assumes "reads_only (mgrClient S)" "below_threshold S w" "fst (cl_list_policies (mgrClient S) w) = Inr policies"
  shows "event_spec S [] w = (None, w)"
  by (simp add: event_spec_quiet(1) [OF assms] planned_def)

subsection \<open>The scheduler refines it\<close>

text \<open>What an event counts is of no consequence for the cluster and the cache.\<close>

lemma handle_event_process:
  "\<exists>st'. st_world st' = st_world st \<and> st_cache st' = st_cache st
     \<and> fst (handle_event S rs st) = fst (processReports S rs st')
     \<and> st_world (snd (handle_event S rs st)) = st_world (snd (processReports S rs st'))
     \<and> st_cache (snd (handle_event S rs st)) = st_cache (snd (processReports S rs st'))
     \<and> st_events st' = st_events st \<and> st_events (snd (handle_event S rs st)) = st_events (snd (processReports S rs st'))"
  by (intro exI [of _ "st\<lparr>st_metrics := (st_metrics st)\<lparr>schedulerEventsRecieved := schedulerEventsRecieved (st_metrics st) + 1,
      schedulerReportsRecieved := schedulerReportsRecieved (st_metrics st) + length rs\<rparr>\<rparr>"])
     (simp add: handle_event_def Let_def split_beta)

context scheduler_model begin

lemma handle_event_refines:
  assumes "lists_served (mgrClient S) served" "inv (st_cache st)"
  shows "(fst (handle_event S rs st), st_world (snd (handle_event S rs st))) = event_spec S rs (st_world st)"
    and "inv (st_cache (snd (handle_event S rs st)))"
proof -
  obtain st' where st': "st_world st' = st_world st" "st_cache st' = st_cache st"
    and run: "fst (handle_event S rs st) = fst (processReports S rs st')"
      "st_world (snd (handle_event S rs st)) = st_world (snd (processReports S rs st'))"
      "st_cache (snd (handle_event S rs st)) = st_cache (snd (processReports S rs st'))"
    using handle_event_process [of st S rs] by blast
  have "inv (st_cache st')" using st' assms(2) by simp
  note spec = processReports_spec [where reports = rs, OF this lists_servedD [OF assms(1)]]
  from spec st'(1) run show "(fst (handle_event S rs st), st_world (snd (handle_event S rs st))) = event_spec S rs (st_world st)"
    and "inv (st_cache (snd (handle_event S rs st)))" by simp_all
qed

lemma handle_event_failures:
  assumes "lists_served (mgrClient S) served" "inv (st_cache st)"
  shows "failures (snd (handle_event S rs st)) = failures st @ event_refusals S rs (st_world st)"
proof -
  obtain st' where st': "st_world st' = st_world st" "st_cache st' = st_cache st" "st_events st' = st_events st"
    and run: "st_events (snd (handle_event S rs st)) = st_events (snd (processReports S rs st'))"
    using handle_event_process [of st S rs] by blast
  have "inv (st_cache st')" using st' assms(2) by simp
  from processReports_failures [where reports = rs, OF this lists_servedD [OF assms(1)]] st' run show ?thesis
    by (simp add: failures_def)
qed

text \<open>A run of the loop, event by event.\<close>

lemma serve_refines:
  assumes "lists_served (mgrClient S) served" "inv (st_cache st)"
  shows "st_world (snd (serve S es st)) = cluster_after S es (st_world st)
     \<and> inv (st_cache (snd (serve S es st)))
     \<and> fst (serve S es st) = map (\<lambda>i. fst (event_spec S (es ! i) (cluster_after S (take i es) (st_world st)))) [0..<length es]"
  using assms(2)
proof (induction es arbitrary: st rule: rev_induct)
  case Nil
  then show ?case by (simp add: cluster_after_def)
next
  case (snoc e es)
  obtain rs st1 where s1: "serve S es st = (rs, st1)" by force
  obtain r st2 where s2: "handle_event S e st1 = (r, st2)" by force
  from snoc.IH [OF snoc.prems] s1 have i: "st_world st1 = cluster_after S es (st_world st)" "inv (st_cache st1)"
    and rs: "rs = map (\<lambda>i. fst (event_spec S (es ! i) (cluster_after S (take i es) (st_world st)))) [0..<length es]"
    by simp_all
  from handle_event_refines [OF assms(1) i(2), of e] s2 i(1)
  have e: "event_spec S e (cluster_after S es (st_world st)) = (r, st_world st2)" and inv: "inv (st_cache st2)"
    by simp_all
  then have "st_world st2 = cluster_after S (es @ [e]) (st_world st)" by (simp add: cluster_after_def)
  moreover have "map (\<lambda>i. fst (event_spec S ((es @ [e]) ! i) (cluster_after S (take i (es @ [e])) (st_world st))))
      [0..<length (es @ [e])] = rs @ [r]"
    using e by (simp add: rs nth_append)
  ultimately show ?case using s1 s2 inv by (simp add: serve_snoc)
qed

end

subsection \<open>The process\<close>

lemma results_length: "length (results log) = length (events_done log)"
proof (induction log rule: rev_induct)
  case Nil
  then show ?case by simp
next
  case (snoc h log)
  then show ?case by (cases h) simp_all
qed

text \<open>The controller's scheduler in the process of \<^verbatim>\<open>Sqs_Listener\<close>.\<close>

locale serving_system = scheduler_model +
  assumes listed: "lists_served (mgrClient S) served"
begin

lemma system_cluster:
  assumes "sys_init s0" "inv (st_cache (sy_state s0))" "run_acts (exec L S) as s0 = Some s"
  shows "st_world (sy_state s) = cluster_after S (map snd (events_done (sy_log s))) (st_world (sy_state s0))"
    and "i < length (events_done (sy_log s)) \<Longrightarrow>
      results (sy_log s) ! i = fst (event_spec S (snd (events_done (sy_log s) ! i))
        (cluster_after S (map snd (take i (events_done (sy_log s)))) (st_world (sy_state s0))))"
proof -
  have "in_order S s0 s" by (rule order.run_inv [OF in_order_start [OF assms(1)] assms(3)])
  then have sv: "serve S (map snd (events_done (sy_log s))) (sy_state s0) = (results (sy_log s), sy_state s)"
    by (simp add: in_order_def)
  note ref = serve_refines [OF listed assms(2), of "map snd (events_done (sy_log s))"]
  from ref sv show "st_world (sy_state s) = cluster_after S (map snd (events_done (sy_log s))) (st_world (sy_state s0))"
    by simp
  from ref sv show "results (sy_log s) ! i = fst (event_spec S (snd (events_done (sy_log s) ! i))
        (cluster_after S (map snd (take i (events_done (sy_log s)))) (st_world (sy_state s0))))"
    if "i < length (events_done (sy_log s))"
    using that by (simp add: take_map)
qed

end

lemma serving_systemI:
  assumes "compiler_model (policyCompiler S) contents R" "lists_served (mgrClient S) R"
  shows "serving_system S (\<lambda>c. coherent (comp_env (policyCompiler S)) R (contents c)) R"
  using assms compiler_model.get_contract [OF assms(1)]
  by (simp add: serving_system_def serving_system_axioms_def scheduler_model_def)

text \<open>The reference cluster with one policy, and the compiler over the reference cache.\<close>

definition one_policy :: "unit policy" where
  "one_policy = (demo_policy ''true'' None)\<lparr>pol_spec :=
     (pol_spec (demo_policy ''true'' None))\<lparr>sp_extraction :=
        \<lparr>ex_forEach = None, ex_target = ''_ACTION_ID'', ex_downloaderParams = None, ex_profileParams = None\<rparr>\<rparr>\<rparr>"

interpretation one: serving_system "ref_scheduler thr mx [one_policy]"
  "\<lambda>c. coherent ref_cel {one_policy} (lc_contents c)" "{one_policy}" for thr mx
proof -
  have "compiler_model (policyCompiler (ref_scheduler thr mx [one_policy])) lc_contents {one_policy}"
    using ref_compiler_model by (simp add: ref_scheduler_def)
  from serving_systemI [OF this] show "serving_system (ref_scheduler thr mx [one_policy])
      (\<lambda>c. coherent ref_cel {one_policy} (lc_contents c)) {one_policy}"
    by (simp add: ref_scheduler_def lists_served_def ref_client_def)
qed

abbreviation one_scheduler ::
  "(string, string, rval, string cached list_cache, unit pipeline list, unit) scheduler" where
  "one_scheduler \<equiv> ref_scheduler 0 5 [one_policy]"

lemma one_laws:
  "compiler_model (policyCompiler one_scheduler) lc_contents {one_policy}"
  "lists_served (mgrClient one_scheduler) {one_policy}"
  using ref_compiler_model by (simp_all add: ref_scheduler_def lists_served_def ref_client_def)

lemma one_world: "st_world (sy_state (demo_sys q)) = []"
  by (simp add: demo_sys_def ref_state_def)

lemma one_cache:
  "coherent (comp_env (policyCompiler one_scheduler)) {one_policy} (lc_contents (st_cache (sy_state (demo_sys q))))"
  by (simp add: demo_sys_def ref_state_def)

lemmas one_run = demo_run one_policy_def policy_body_def Get_def compile_and_add_def cacheKey_def ref_run
  list_lru_def lc_trim_def demo_eval_defs Matches_def isProfileValid_def isDownloaderValid_def build_pipeline_def
  ref_ready_def invalid_report_def results_def events_done_def map_filter_simps

subsection \<open>Properties\<close>

text \<open>
  C1. The controller drives the cluster as the specification says. In every run of listener, message goroutines, HTTP
  handlers and scheduler, from a new process with a coherent cache, the cluster is the one that the
  events done make of the first one, in their order: each accepted event by creating its planned pipelines,
  a rejected one by its reads at most; and each event was answered with exactly the error, or nil, that the specification gives on
  the cluster that it met.
\<close>

theorem cluster_follows_events:
  assumes "compiler_model (policyCompiler S) contents R" "lists_served (mgrClient S) R"
    and "sys_init s0" "coherent (comp_env (policyCompiler S)) R (contents (st_cache (sy_state s0)))"
    and "run_acts (exec L S) as s0 = Some s"
  shows "st_world (sy_state s) = cluster_after S (map snd (events_done (sy_log s))) (st_world (sy_state s0))
    \<and> (\<forall>i < length (events_done (sy_log s)).
          results (sy_log s) ! i = fst (event_spec S (snd (events_done (sy_log s) ! i))
            (cluster_after S (map snd (take i (events_done (sy_log s)))) (st_world (sy_state s0)))))"
  using serving_system.system_cluster [OF serving_systemI [OF assms(1,2)] assms(3-5)] by blast

theorem cluster_follows_events_witness:
  "\<exists>s. run_acts (exec ref_listener one_scheduler) [APoll, AHttp [Map.empty], ABatch, AHttpSend 0, ASched, ASend, ASched]
         (demo_sys [demo_message ''report'']) = Some s
     \<and> results (sy_log s) = [Some invalid_report, None] \<and> length (st_world (sy_state s)) = 1
     \<and> st_world (sy_state s) = cluster_after one_scheduler (map snd (events_done (sy_log s))) []
     \<and> fst (event_spec one_scheduler [Map.empty] []) = Some invalid_report"
proof -
  let ?acts = "[APoll, AHttp [Map.empty], ABatch, AHttpSend 0, ASched, ASend, ASched]"
  have "\<exists>s. run_acts (exec ref_listener one_scheduler) ?acts (demo_sys [demo_message ''report'']) = Some s
     \<and> results (sy_log s) = [Some invalid_report, None] \<and> length (st_world (sy_state s)) = 1
     \<and> events_done (sy_log s) = [(0, [Map.empty]), (1, [[''_ACTION_ID'' \<mapsto> AString ''7'']])]"
    by (simp add: one_run)
  then obtain s where s: "run_acts (exec ref_listener one_scheduler) ?acts (demo_sys [demo_message ''report'']) = Some s"
    "results (sy_log s) = [Some invalid_report, None]" "length (st_world (sy_state s)) = 1"
    "events_done (sy_log s) = [(0, [Map.empty]), (1, [[''_ACTION_ID'' \<mapsto> AString ''7'']])]" by blast
  note c = cluster_follows_events [OF one_laws demo_init one_cache s(1)]
  from c s(2,4) have "fst (event_spec one_scheduler [Map.empty] []) = Some invalid_report"
    by (auto simp: cluster_after_def one_world)
  with c s one_world show ?thesis by auto
qed

end
