(* ===== verification/Open_System.thy ===== *)
theory Open_System
  imports Cluster_History
begin

section \<open>The process among others\<close>

text \<open>
  The transition system of \<^verbatim>\<open>Sqs_Listener\<close> changes the cluster, the compiler's cache and the queue by its own steps
  only. In the program they are shared: the policy controller runs in the same process and calls the
  compiler (\<open>Get\<close> and \<open>Remove\<close>, each a step by \<open>Compiler_Threads\<close>), pipelines finish and policies are edited in
  the cluster, messages arrive in the queue and become visible again. Here all of that may happen between
  any two steps, and what the controller guarantees is stated for each of its own steps.
\<close>

subsection \<open>Steps of the environment\<close>

datatype ('v, 'x, 'w, 'q) open_action =
    Own "'v action"
  | Reconciler "'x comp_op"
  | Cluster 'w
  | Queue 'q

text \<open>The reconciler asks for policies that the API server served, and is gone after a crash of the process.\<close>

fun crashed :: "'v main \<Rightarrow> bool" where
  "crashed (MCrashed ms) = True"
| "crashed m = False"

fun open_exec ::
  "('v, 'q) listener \<Rightarrow> ('a, 'p, 'v, 'c, 'w, 'x) scheduler \<Rightarrow> 'x policy set \<Rightarrow> ('v, 'x, 'w, 'q) open_action
     \<Rightarrow> ('v, 'c, 'w, 'q) sys \<Rightarrow> ('v, 'c, 'w, 'q) sys option" where
  "open_exec L S R (Own a) s = exec L S a s"
| "open_exec L S R (Reconciler x) s =
     (if \<not> crashed (sy_main s) \<and> gets_from R x
      then Some (s\<lparr>sy_state := (sy_state s)\<lparr>st_cache := comp_step (policyCompiler S) x (st_cache (sy_state s))\<rparr>\<rparr>)
      else None)"
| "open_exec L S R (Cluster w) s = Some (s\<lparr>sy_state := (sy_state s)\<lparr>st_world := w\<rparr>\<rparr>)"
| "open_exec L S R (Queue q) s = Some (s\<lparr>sy_aws := q\<rparr>)"

lemma open_exec_cases [consumes 1, case_names own reconciler cluster queue]:
  assumes "open_exec L S R a s = Some s'"
  obtains b where "a = Own b" "exec L S b s = Some s'"
  | x where "a = Reconciler x" "gets_from R x"
      "s' = s\<lparr>sy_state := (sy_state s)\<lparr>st_cache := comp_step (policyCompiler S) x (st_cache (sy_state s))\<rparr>\<rparr>"
  | w where "a = Cluster w" "s' = s\<lparr>sy_state := (sy_state s)\<lparr>st_world := w\<rparr>\<rparr>"
  | q where "a = Queue q" "s' = s\<lparr>sy_aws := q\<rparr>"
  using assms by (cases a) (auto split: if_splits)

text \<open>The open system, as long as the others keep the cluster in \<open>Q\<close>.\<close>

fun keeps :: "('w \<Rightarrow> bool) \<Rightarrow> ('v, 'x, 'w, 'q) open_action \<Rightarrow> bool" where
  "keeps Q (Cluster w) = Q w"
| "keeps Q _ = True"

definition keep_exec ::
  "('v, 'q) listener \<Rightarrow> ('a, 'p, 'v, 'c, 'w, 'x) scheduler \<Rightarrow> 'x policy set \<Rightarrow> ('w \<Rightarrow> bool) \<Rightarrow> ('v, 'x, 'w, 'q) open_action
     \<Rightarrow> ('v, 'c, 'w, 'q) sys \<Rightarrow> ('v, 'c, 'w, 'q) sys option" where
  "keep_exec L S R Q a s = (if keeps Q a then open_exec L S R a s else None)"

lemma keep_own_run: "run_acts (keep_exec L S R Q) (map Own as) s = run_acts (exec L S) as s"
  by (induction as arbitrary: s) (simp_all add: keep_exec_def split: option.split)

subsection \<open>What survives the environment\<close>

text \<open>Invariants that do not look at the shared parts hold in the open system as in the closed one.\<close>

locale private_invariant = inductive_invariant sys_init "exec L S" I
  for L :: "('v, 'q) listener" and S :: "('a, 'p, 'v, 'c, 'w, 'x) scheduler" and I +
  assumes unshared: "I s \<Longrightarrow> I (s\<lparr>sy_state := st\<rparr>)" "I s \<Longrightarrow> I (s\<lparr>sy_aws := q\<rparr>)"
begin

lemma open_step: "I s \<Longrightarrow> open_exec L S R a s = Some s' \<Longrightarrow> I s'"
  by (erule open_exec_cases) (auto intro: unshared inv_exec)

end

sublocale private_invariant \<subseteq> opened: inductive_invariant sys_init "open_exec L S R" I for R
  by unfold_locales (auto intro: inv_init open_step)

context private_invariant begin

lemma open_reach: "reach sys_init (open_exec L S R) s \<Longrightarrow> I s"
  by (rule opened.reach_inv)

end

interpretation open_safe: private_invariant L S "sys_ok L S" for L S
  by unfold_locales (simp_all add: sys_ok_def)

interpretation open_counts: private_invariant L S accounted for L S
  by unfold_locales (simp_all add: accounted_def)

interpretation open_live: private_invariant L S live for L S
  by unfold_locales (auto simp: live_def intro: live_init [unfolded live_def] dest: live_exec [unfolded live_def])

subsection \<open>The controller's own steps\<close>

lemma exec_state:
  assumes "exec L S a s = Some s'"
  shows "sy_state s' = (if a = ASched then (case sy_sched s of SBusy rs n \<Rightarrow> snd (handle_event S rs (sy_state s)) | _ \<Rightarrow> sy_state s)
     else sy_state s)"
  using assms
proof (cases rule: exec_cases)
  case poll
  then show ?thesis by (cases rule: poll_step_cases [of s L]) simp_all
next
  case (batch msgs)
  then show ?thesis by (cases rule: batch_step_cases [of msgs L s]) simp_all
qed (simp_all add: bus_send_def sched_step_def await_step_def delete_step_def split_beta Let_def)

text \<open>The whole process over a cluster with the laws: no step of anybody makes the cache incoherent.\<close>

locale open_system = compiler_model "policyCompiler S" contents R
  for S :: "('a, 'p, 'v, 'c, 'w, 'x) scheduler" and contents :: "'c \<Rightarrow> (string \<rightharpoonup> 'p cached)" and R :: "'x policy set" +
  assumes open_listed: "lists_served (mgrClient S) R"
begin

lemma open_inv_step:
  assumes "inv (st_cache (sy_state s))" "open_exec L S R a s = Some s'"
  shows "inv (st_cache (sy_state s'))"
  using assms(2)
proof (cases rule: open_exec_cases)
  case (own b)
  have sm: "scheduler_model S inv R" unfolding scheduler_model_def by (rule get_contract)
  show ?thesis
    using exec_state [OF own(2)] assms(1) scheduler_model.handle_event_refines(2) [OF sm open_listed assms(1)]
    by (auto split: sched.split)
qed (use assms(1) in \<open>simp_all add: comp_step_inv\<close>)

end

sublocale open_system \<subseteq> cached: inductive_invariant
  "\<lambda>s. sys_init s \<and> inv (st_cache (sy_state s))" "open_exec L S R" "\<lambda>s. inv (st_cache (sy_state s))" for L
  by unfold_locales (auto intro: open_inv_step)

context open_system begin

lemma own_step:
  assumes "reach (\<lambda>s. sys_init s \<and> inv (st_cache (sy_state s))) (open_exec L S R) s" "exec L S a s = Some s'"
  shows "a \<noteq> ASched \<Longrightarrow> st_world (sy_state s') = st_world (sy_state s)"
    and "a = ASched \<Longrightarrow> \<exists>rs n err. sy_sched s = SBusy rs n \<and> sy_chans s' n = Some err
       \<and> event_spec S rs (st_world (sy_state s)) = (err, st_world (sy_state s'))"
proof -
  have sm: "scheduler_model S inv R" unfolding scheduler_model_def by (rule get_contract)
  note refines = scheduler_model.handle_event_refines [OF sm open_listed cached.reach_inv [OF assms(1)]]
  show "st_world (sy_state s') = st_world (sy_state s)" if "a \<noteq> ASched"
    using exec_state [OF assms(2)] that by simp
  show "\<exists>rs n err. sy_sched s = SBusy rs n \<and> sy_chans s' n = Some err
       \<and> event_spec S rs (st_world (sy_state s)) = (err, st_world (sy_state s'))" if a: "a = ASched"
  proof -
    from assms(2) a obtain rs n where b: "sy_sched s = SBusy rs n" "s' = sched_step S rs n s"
      by (cases rule: exec_cases) auto
    then show ?thesis using refines(1) [of rs] by (simp add: sched_step_def split_beta)
  qed
qed

end

interpretation one_open: open_system "ref_scheduler thr mx [one_policy]" lc_contents "{one_policy}" for thr mx
proof -
  have "compiler_model (policyCompiler (ref_scheduler thr mx [one_policy])) lc_contents {one_policy}"
    using ref_compiler_model by (simp add: ref_scheduler_def)
  then show "open_system (ref_scheduler thr mx [one_policy]) lc_contents {one_policy}"
    by (simp add: open_system_def open_system_axioms_def ref_scheduler_def lists_served_def ref_client_def)
qed

subsection \<open>When an event was processed\<close>

text \<open>The log only grows, and only the scheduler's step adds a result to it.\<close>

lemma exec_log: "exec L S a s = Some s' \<Longrightarrow> set (sy_log s) \<subseteq> set (sy_log s')"
proof (erule exec_cases)
  show "s' = poll_step L s \<Longrightarrow> set (sy_log s) \<subseteq> set (sy_log s')"
    by (cases rule: poll_step_cases [of s L]) simp_all
  show "s' = batch_step L msgs s \<Longrightarrow> set (sy_log s) \<subseteq> set (sy_log s')" for msgs
    by (cases rule: batch_step_cases [of msgs L s]) simp_all
qed (auto simp: bus_send_def sched_step_def await_step_def delete_step_def split_beta Let_def)

lemma exec_processed:
  assumes "exec L S a s = Some s'" "Processed n rs e \<in> set (sy_log s')" "Processed n rs e \<notin> set (sy_log s)"
  shows "a = ASched \<and> sy_sched s = SBusy rs n \<and> e = fst (handle_event S rs (sy_state s))"
  using assms(1)
proof (cases rule: exec_cases)
  case poll
  then show ?thesis using assms(2,3) by (cases rule: poll_step_cases [of s L]) simp_all
next
  case (batch msgs)
  then show ?thesis using assms(2,3) by (cases rule: batch_step_cases [of msgs L s]) simp_all
qed (use assms(2,3) in \<open>auto simp: bus_send_def sched_step_def await_step_def delete_step_def split_beta Let_def
       split: if_splits\<close>)

lemma open_log: "open_exec L S R a s = Some s' \<Longrightarrow> set (sy_log s) \<subseteq> set (sy_log s')"
  by (erule open_exec_cases) (use exec_log in \<open>simp_all\<close>)

lemma open_run_log: "run_acts (open_exec L S R) as s = Some s' \<Longrightarrow> set (sy_log s) \<subseteq> set (sy_log s')"
proof (induction as arbitrary: s)
  case Nil
  then show ?case by simp
next
  case (Cons a as)
  then obtain s1 where s1: "open_exec L S R a s = Some s1" "run_acts (open_exec L S R) as s1 = Some s'"
    by (auto split: option.splits)
  with open_log [OF s1(1)] Cons.IH [OF s1(2)] show ?case by blast
qed

lemma processed_point:
  assumes "run_acts (open_exec L S R) as s0 = Some s" "Processed n rs e \<in> set (sy_log s)" "Processed n rs e \<notin> set (sy_log s0)"
  shows "\<exists>before after s1 s2. as = before @ Own ASched # after \<and> run_acts (open_exec L S R) before s0 = Some s1
     \<and> exec L S ASched s1 = Some s2 \<and> run_acts (open_exec L S R) after s2 = Some s
     \<and> sy_sched s1 = SBusy rs n \<and> e = fst (handle_event S rs (sy_state s1))"
  using assms
proof (induction as arbitrary: s0)
  case Nil
  then show ?case by simp
next
  case (Cons a as)
  then obtain s1 where s1: "open_exec L S R a s0 = Some s1" "run_acts (open_exec L S R) as s1 = Some s"
    by (auto split: option.splits)
  show ?case
  proof (cases "Processed n rs e \<in> set (sy_log s1)")
    case True
    from s1(1) obtain b where b: "a = Own b" "exec L S b s0 = Some s1"
      by (cases rule: open_exec_cases) (use True Cons.prems(3) in auto)
    with exec_processed [OF b(2) True Cons.prems(3)] s1(2) show ?thesis
      by (intro exI [of _ "[]"] exI [of _ as] exI [of _ s0] exI [of _ s1]) simp
  next
    case False
    from Cons.IH [OF s1(2) Cons.prems(2) False] obtain before after t1 t2 where
      "as = before @ Own ASched # after" "run_acts (open_exec L S R) before s1 = Some t1"
      "exec L S ASched t1 = Some t2" "run_acts (open_exec L S R) after t2 = Some s"
      "sy_sched t1 = SBusy rs n" "e = fst (handle_event S rs (sy_state t1))" by blast
    with s1(1) show ?thesis
      by (intro exI [of _ "a # before"] exI [of _ after] exI [of _ t1] exI [of _ t2]) simp
  qed
qed

context open_system begin

lemma deleted_point:
  assumes "sys_init s0" "inv (st_cache (sy_state s0))" "run_acts (open_exec L S R) as s0 = Some s"
    and "DeleteCall m e \<in> set (sy_log s)"
  shows "\<exists>before after s1 s2 n rs. as = before @ Own ASched # after \<and> run_acts (open_exec L S R) before s0 = Some s1
     \<and> exec L S ASched s1 = Some s2 \<and> run_acts (open_exec L S R) after s2 = Some s
     \<and> Sent n (Some m) rs \<in> set (sy_log s1) \<and> parsed_to L m rs
     \<and> event_spec S rs (st_world (sy_state s1)) = (None, st_world (sy_state s2))
     \<and> failures (sy_state s2) = failures (sy_state s1) @ event_refusals S rs (st_world (sy_state s1))"
proof -
  let ?init = "\<lambda>s. sys_init s \<and> inv (st_cache (sy_state s))"
  have r0: "reach ?init (open_exec L S R) s0" using assms(1,2) by (simp add: reach.start)
  have ok: "sys_ok L S t" if t: "reach ?init (open_exec L S R) t" for t
  proof -
    from t have "reach sys_init (open_exec L S R) t" by (rule reach_mono) simp
    then show ?thesis by (rule open_safe.open_reach)
  qed
  have log: "log_ok L S (sy_next s) (sy_log s)" by (rule sys_okD(1) [OF ok [OF run_acts_reach [OF r0 assms(3)]]])
  with assms(4) obtain n rs where n: "Sent n (Some m) rs \<in> set (sy_log s)" "Processed n rs None \<in> set (sy_log s)"
    unfolding log_ok_def settled_def by blast
  have "Processed n rs None \<notin> set (sy_log s0)" using assms(1) by (simp add: sys_init_def)
  from processed_point [OF assms(3) n(2) this] obtain before after s1 s2 where
    p: "as = before @ Own ASched # after" "run_acts (open_exec L S R) before s0 = Some s1"
      "exec L S ASched s1 = Some s2" "run_acts (open_exec L S R) after s2 = Some s" "sy_sched s1 = SBusy rs n"
    and e: "None = fst (handle_event S rs (sy_state s1))" by blast
  note r1 = run_acts_reach [OF r0 p(2)]
  from sys_okD(3) [OF ok [OF r1] p(5)] obtain src where src: "Sent n src rs \<in> set (sy_log s1)" by blast
  with exec_log [OF p(3)] open_run_log [OF p(4)] have "Sent n src rs \<in> set (sy_log s)" by blast
  with log n(1) have "src = Some m" "parsed_to L m rs" unfolding log_ok_def by blast+
  moreover have "event_spec S rs (st_world (sy_state s1)) = (None, st_world (sy_state s2))
    \<and> failures (sy_state s2) = failures (sy_state s1) @ event_refusals S rs (st_world (sy_state s1))"
  proof -
    have sm: "scheduler_model S inv R" unfolding scheduler_model_def by (rule get_contract)
    have "s2 = sched_step S rs n s1" using p(3,5) by (cases rule: exec_cases) auto
    with e scheduler_model.handle_event_refines(1) [OF sm open_listed cached.reach_inv [OF r1], of rs]
      scheduler_model.handle_event_failures [OF sm open_listed cached.reach_inv [OF r1], of rs] show ?thesis
      by (simp add: sched_step_def split_beta)
  qed
  ultimately show ?thesis using p src by blast
qed

end

subsection \<open>Others between the calls of one event\<close>

text \<open>
  An event makes several calls, and the cluster may change between any two of them. A client can express that: before
  each of its calls it applies the next change of a list to the cluster. So every theorem over any client that lists served policies holds
  with such changes inside an event too.
\<close>

fun between :: "('w \<Rightarrow> 'b \<times> 'w) \<Rightarrow> 'w \<times> ('w \<Rightarrow> 'w) list \<Rightarrow> 'b \<times> ('w \<times> ('w \<Rightarrow> 'w) list)" where
  "between f (w, []) = (fst (f w), (snd (f w), []))"
| "between f (w, g # gs) = (fst (f (g w)), (snd (f (g w)), gs))"

definition amid :: "('w, 'x) kclient \<Rightarrow> ('w \<times> ('w \<Rightarrow> 'w) list, 'x) kclient" where
  "amid cl = \<lparr>cl_get = (\<lambda>k n m. between (cl_get cl k n m)),
     cl_list_pipelines = (\<lambda>l f. between (cl_list_pipelines cl l f)),
     cl_list_policies = between (cl_list_policies cl), cl_create = (\<lambda>p. between (cl_create cl p))\<rparr>"

definition amid_scheduler ::
  "('a, 'p, 'v, 'c, 'w, 'x) scheduler \<Rightarrow> ('a, 'p, 'v, 'c, 'w \<times> ('w \<Rightarrow> 'w) list, 'x) scheduler" where
  "amid_scheduler S = \<lparr>rejectPipelineThreshold = rejectPipelineThreshold S,
     maxPipelinesPerPolicy = maxPipelinesPerPolicy S, mgrClient = amid (mgrClient S),
     policyCompiler = policyCompiler S, isConditionTrue = isConditionTrue S\<rparr>"

lemma amid_lists: "lists_served cl R \<Longrightarrow> lists_served (amid cl) R"
proof -
  assume "lists_served cl R"
  then have "fst (between (cl_list_policies cl) w) = Inr ps \<Longrightarrow> set ps \<subseteq> R" for w ps
    by (cases "(cl_list_policies cl, w)" rule: between.cases) (auto simp: lists_served_def)
  then show ?thesis by (simp add: lists_served_def amid_def)
qed

lemma amid_laws:
  "compiler_model (policyCompiler S) contents R \<Longrightarrow> compiler_model (policyCompiler (amid_scheduler S)) contents R"
  "lists_served (mgrClient S) R \<Longrightarrow> lists_served (mgrClient (amid_scheduler S)) R"
  by (simp_all add: amid_scheduler_def amid_lists)

interpretation amid_open: open_system "amid_scheduler (ref_scheduler thr mx [one_policy])" lc_contents "{one_policy}" for thr mx
proof -
  show "open_system (amid_scheduler (ref_scheduler thr mx [one_policy])) lc_contents {one_policy}"
    unfolding open_system_def open_system_axioms_def 
    using amid_laws(1) [OF one_open.compiler_model_axioms(1)] amid_laws(2) [OF one_open.open_listed] by blast
qed

subsection \<open>Properties of the open system\<close>

text \<open>A run with everybody at work: \<open>busy_acts\<close> ends when the scheduler has the event.\<close>

abbreviation one_open_exec ::
  "(rval, unit, unit pipeline list, message list) open_action
     \<Rightarrow> (rval, string cached list_cache, unit pipeline list, message list) sys
     \<Rightarrow> (rval, string cached list_cache, unit pipeline list, message list) sys option" where
  "one_open_exec \<equiv> open_exec ref_listener one_scheduler {one_policy}"

definition foreign_pipeline :: "unit pipeline" where
  "foreign_pipeline = build_pipeline ''a0'' one_policy
     \<lparr>pv_target = empty_target, pv_downloaderParams = [], pv_profileParams = []\<rparr>"

definition busy_acts :: "(rval, unit, unit pipeline list, message list) open_action list" where
  "busy_acts = [Queue [demo_message ''report''], Own APoll, Own ABatch, Reconciler (OpGet one_policy), Own ASend,
     Cluster [foreign_pipeline]]"

lemma busy_runs:
  "\<exists>s s' t. run_acts one_open_exec busy_acts (demo_sys []) = Some s \<and> st_world (sy_state s) = [foreign_pipeline]
     \<and> sy_sched s = SBusy [[''_ACTION_ID'' \<mapsto> AString ''7'']] 0
     \<and> exec ref_listener one_scheduler ASched s = Some s' \<and> length (st_world (sy_state s')) = 2
     \<and> run_acts one_open_exec [Own ASched, Reconciler (OpRemove one_policy), Own (AAwait 0), Own (ADelete 0)] s = Some t
     \<and> DeleteCall (demo_message ''report'') None \<in> set (sy_log t)"
  by (simp add: busy_acts_def one_run foreign_pipeline_def Remove_def)

text \<open>
  C2. No message is deleted whose pipelines were not asked for. When \<open>DeleteMessage\<close> was called for a message, in any
  run of the open system, with the reconciler at work and cluster and queue changing in between, then earlier in that run there was a
  step of the scheduler for exactly one event of that message, whose reports the parser had made of it without an error and all have
  an action id. In that step the guard passed on the cluster of that moment, the policies could be listed, and \<open>Create\<close> was called once for each
  pipeline that the listed policies plan for the reports, in order, and for no other. A \<open>Create\<close> that the API server refuses does
  not keep the message in the queue: it leaves a warning on the policy that planned the pipeline, one for each refusal, and
  nothing else is recorded as a failed creation.
\<close>

theorem deleted_means_asked_for:
  assumes "compiler_model (policyCompiler S) contents R" "lists_served (mgrClient S) R"
    and "sys_init s0" "coherent (comp_env (policyCompiler S)) R (contents (st_cache (sy_state s0)))"
    and "run_acts (open_exec L S R) as s0 = Some s" "DeleteCall m e \<in> set (sy_log s)"
  shows "\<exists>before after s1 s2 n rs policies w2. as = before @ Own ASched # after
     \<and> run_acts (open_exec L S R) before s0 = Some s1 \<and> exec L S ASched s1 = Some s2
     \<and> run_acts (open_exec L S R) after s2 = Some s
     \<and> Sent n (Some m) rs \<in> set (sy_log s1) \<and> parsed_to L m rs \<and> list_all (\<lambda>r. action_id r \<noteq> None) rs
     \<and> event_spec S rs (st_world (sy_state s1)) = (None, st_world (sy_state s2))
     \<and> fst (threshold_spec S (st_world (sy_state s1))) = None
     \<and> cl_list_policies (mgrClient S) (snd (threshold_spec S (st_world (sy_state s1)))) = (Inr policies, w2) \<and> set policies \<subseteq> R
     \<and> st_world (sy_state s2) =
         create_run (mgrClient S) (concat (map g_pipelines (planned S policies rs))) (event_reads S policies rs w2)
     \<and> failures (sy_state s2) = failures (sy_state s1)
         @ refusals (mgrClient S) (planned S policies rs) (event_reads S policies rs w2)"
proof -
  have "open_system S contents R"
    using assms(1,2) by (simp add: open_system_def open_system_axioms_def)
  from open_system.deleted_point [OF this assms(3-6)] obtain before after s1 s2 n rs where
    p: "as = before @ Own ASched # after" "run_acts (open_exec L S R) before s0 = Some s1" "exec L S ASched s1 = Some s2"
      "run_acts (open_exec L S R) after s2 = Some s" "Sent n (Some m) rs \<in> set (sy_log s1)" "parsed_to L m rs"
    and e: "event_spec S rs (st_world (sy_state s1)) = (None, st_world (sy_state s2))"
      "failures (sy_state s2) = failures (sy_state s1) @ event_refusals S rs (st_world (sy_state s1))" by blast
  from event_spec_accepts [OF e(1)] obtain policies w2 where
    a: "list_all (\<lambda>r. action_id r \<noteq> None) rs" "fst (threshold_spec S (st_world (sy_state s1))) = None"
      "cl_list_policies (mgrClient S) (snd (threshold_spec S (st_world (sy_state s1)))) = (Inr policies, w2)"
      "st_world (sy_state s2) = create_run (mgrClient S) (concat (map g_pipelines (planned S policies rs)))
         (event_reads S policies rs w2)"
    and r: "event_refusals S rs (st_world (sy_state s1))
         = refusals (mgrClient S) (planned S policies rs) (event_reads S policies rs w2)" by blast
  show ?thesis
    by (intro exI conjI) (fact p a e(1) e(2) [unfolded r] lists_servedD [OF assms(2) a(3)])+
qed

text \<open>In the reference run the only policy is in a namespace in which creation is allowed.\<close>

theorem deleted_means_asked_for_witness:
  "\<exists>s before s1 s2 rs w2. run_acts one_open_exec (busy_acts
         @ [Own ASched, Reconciler (OpRemove one_policy), Own (AAwait 0), Own (ADelete 0)]) (demo_sys []) = Some s
     \<and> DeleteCall (demo_message ''report'') None \<in> set (sy_log s)
     \<and> run_acts one_open_exec before (demo_sys []) = Some s1 \<and> exec ref_listener one_scheduler ASched s1 = Some s2
     \<and> event_spec one_scheduler rs (st_world (sy_state s1)) = (None, st_world (sy_state s2))
     \<and> failures (sy_state s2) = failures (sy_state s1)
         @ refusals (mgrClient one_scheduler) (planned one_scheduler [one_policy] rs) (event_reads one_scheduler [one_policy] rs w2)"
proof -
  let ?acts = "busy_acts @ [Own ASched, Reconciler (OpRemove one_policy), Own (AAwait 0), Own (ADelete 0)]"
  from busy_runs obtain s where s: "run_acts one_open_exec ?acts (demo_sys []) = Some s"
    "DeleteCall (demo_message ''report'') None \<in> set (sy_log s)" by (auto simp: run_acts_append)
  have l: "ps = [one_policy]" if "cl_list_policies (mgrClient one_scheduler) w = (Inr ps, w')" for ps w w'
    using that by (simp add: ref_scheduler_def ref_client_def)
  from deleted_means_asked_for [OF one_laws demo_init one_cache s] obtain before s1 s2 rs ps w2 where
    "run_acts one_open_exec before (demo_sys []) = Some s1" "exec ref_listener one_scheduler ASched s1 = Some s2"
    "event_spec one_scheduler rs (st_world (sy_state s1)) = (None, st_world (sy_state s2))"
    "cl_list_policies (mgrClient one_scheduler) (snd (threshold_spec one_scheduler (st_world (sy_state s1)))) = (Inr ps, w2)"
    "failures (sy_state s2) = failures (sy_state s1)
       @ refusals (mgrClient one_scheduler) (planned one_scheduler ps rs) (event_reads one_scheduler ps rs w2)" by blast
  with s l [of "snd (threshold_spec one_scheduler (st_world (sy_state s1)))" ps w2] show ?thesis by blast
qed

text \<open>
  C8. What the controller does to a cluster that others change too. In every reachable state of the open system, from a coherent cache,
  no step of the process but the scheduler's touches the cluster; and that one gives the event the answer and the cluster the
  change that the specification says, on the cluster of that moment. Neither the reconciler's use of the cache nor any
  change of the cluster before makes a difference; and what others do between the calls of one event is in the calls of the client.
\<close>

theorem controller_guarantee:
  assumes "compiler_model (policyCompiler S) contents R" "lists_served (mgrClient S) R"
    and "reach (\<lambda>s. sys_init s \<and> coherent (comp_env (policyCompiler S)) R (contents (st_cache (sy_state s))))
           (open_exec L S R) s"
    and "exec L S a s = Some s'"
  shows "(a \<noteq> ASched \<longrightarrow> st_world (sy_state s') = st_world (sy_state s))
    \<and> (a = ASched \<longrightarrow> (\<exists>rs n err. sy_sched s = SBusy rs n \<and> sy_chans s' n = Some err
         \<and> event_spec S rs (st_world (sy_state s)) = (err, st_world (sy_state s'))))"
proof -
  have "open_system S contents R"
    using assms(1,2) by (simp add: open_system_def open_system_axioms_def)
  from open_system.own_step [OF this assms(3,4)] show ?thesis by blast
qed

theorem controller_guarantee_witness:
  "\<exists>s s' err. st_world (sy_state s) = [foreign_pipeline] \<and> exec ref_listener one_scheduler ASched s = Some s'
     \<and> event_spec one_scheduler [[''_ACTION_ID'' \<mapsto> AString ''7'']] [foreign_pipeline] = (err, st_world (sy_state s'))
     \<and> length (st_world (sy_state s')) = 2"
proof -
  let ?rs = "[[''_ACTION_ID'' \<mapsto> AString ''7'']]"
  from busy_runs obtain s s' where s: "run_acts one_open_exec busy_acts (demo_sys []) = Some s"
    "st_world (sy_state s) = [foreign_pipeline]" "sy_sched s = SBusy ?rs 0"
    "exec ref_listener one_scheduler ASched s = Some s'" "length (st_world (sy_state s')) = 2" by blast
  let ?init = "\<lambda>s. sys_init s
     \<and> coherent (comp_env (policyCompiler one_scheduler)) {one_policy} (lc_contents (st_cache (sy_state s)))"
  have "?init (demo_sys [])" using one_cache by simp
  then have "reach ?init one_open_exec (demo_sys [])" by (rule reach.start)
  from run_acts_reach [OF this s(1)] have "reach ?init one_open_exec s" .
  from controller_guarantee [OF one_laws this s(4)] s(2-5) show ?thesis by auto
qed

end
