(* ===== verification/Open_Listener.thy ===== *)
theory Open_Listener
  imports Open_System
begin

section \<open>Listener and bus in the open system\<close>

text \<open>
  What the listener of \<^verbatim>\<open>internal/reports/sqs/listener.go\<close> and the bus guarantee whatever happens around the process: the
  counters account for every message, the goroutines get on, results of HTTP events are never read, and
  \<open>Enqueue\<close> hangs after the scheduler has returned.
\<close>

text \<open>A run of the process alone is a run of the open system.\<close>

lemma own_run: "run_acts (open_exec L S R) (map Own as) s = run_acts (exec L S) as s"
  by (induction as arbitrary: s) (simp_all split: option.split)

lemma demo_open_reach:
  assumes "run_acts demo_exec as (demo_sys q) = Some s"
  shows "reach sys_init (open_exec ref_listener (ref_scheduler 0 5 []) R) s"
proof (rule run_acts_reach)
  show "reach sys_init (open_exec ref_listener (ref_scheduler 0 5 []) R) (demo_sys q)" by (rule reach.start) simp
  show "run_acts (open_exec ref_listener (ref_scheduler 0 5 []) R) (map Own as) (demo_sys q) = Some s"
    by (simp only: own_run assms)
qed

subsection \<open>Work in flight\<close>

text \<open>The steps of the process that need no new input; the environment neither adds to the work in flight nor takes from it.\<close>

fun own_action :: "('v, 'x, 'w, 'q) open_action \<Rightarrow> bool" where
  "own_action (Own a) = True"
| "own_action _ = False"

fun no_input :: "('v, 'x, 'w, 'q) open_action \<Rightarrow> bool" where
  "no_input (Own a) = internal a"
| "no_input _ = True"

lemma open_in_flight:
  assumes "no_input a" "open_exec L S R a s = Some s'"
  shows "in_flight s' + (if own_action a then 1 else 0) \<le> in_flight s"
  using assms(2)
proof (cases rule: open_exec_cases)
  case (own b)
  with assms(1) internal_decreases [OF _ own(2)] show ?thesis by (simp add: Suc_le_eq)
qed (simp_all add: in_flight_def)

lemma open_bounded:
  "list_all no_input as \<Longrightarrow> run_acts (open_exec L S R) as s = Some s' \<Longrightarrow>
   length (filter own_action as) + in_flight s' \<le> in_flight s"
proof (induction as arbitrary: s)
  case Nil
  then show ?case by simp
next
  case (Cons a as)
  then obtain s1 where s1: "open_exec L S R a s = Some s1" "run_acts (open_exec L S R) as s1 = Some s'"
    by (auto split: option.splits)
  with Cons.IH [of s1] Cons.prems(1) open_in_flight [OF _ s1(1)] show ?case by fastforce
qed

subsection \<open>Results that nobody waits for\<close>

text \<open>An event is processed once: it is not in progress, and its number is used.\<close>

definition once :: "('v, 'c, 'w, 'q) sys \<Rightarrow> bool" where
  "once s \<longleftrightarrow> (\<forall>n rs e. Processed n rs e \<in> set (sy_log s) \<longrightarrow> n < sy_next s \<and> (\<forall>rs'. sy_sched s \<noteq> SBusy rs' n))
     \<and> (\<forall>n rs. sy_sched s = SBusy rs n \<longrightarrow> n < sy_next s)"

lemma once_frame:
  "once s \<Longrightarrow> sy_log s' = sy_log s \<Longrightarrow> sy_sched s' = sy_sched s \<Longrightarrow> sy_next s' = sy_next s \<Longrightarrow> once s'"
  by (simp add: once_def)

lemma once_exec:
  assumes "once s" "exec L S a s = Some s'"
  shows "once s'"
  using assms(2)
proof (cases rule: exec_cases)
  case poll
  then show ?thesis using assms(1) by (cases rule: poll_step_cases [of s L]) (auto intro: once_frame)
next
  case (batch msgs)
  then show ?thesis using assms(1) by (cases rule: batch_step_cases [of msgs L s]) (auto intro: once_frame)
qed (use assms(1) in \<open>auto simp: once_def bus_send_def sched_step_def await_step_def delete_step_def split_beta Let_def less_Suc_eq\<close>)

definition kept :: "('v, 'c, 'w, 'q) sys \<Rightarrow> bool" where
  "kept s \<longleftrightarrow> (\<forall>n rs rs' e. Sent n None rs \<in> set (sy_log s) \<longrightarrow> Processed n rs' e \<in> set (sy_log s)
     \<longrightarrow> sy_chans s n = Some e)"

lemma kept_frame: "kept s \<Longrightarrow> sy_log s' = sy_log s \<Longrightarrow> sy_chans s' = sy_chans s \<Longrightarrow> kept s'"
  by (simp add: kept_def)

definition unread ::
  "('v, 'q) listener \<Rightarrow> ('a, 'p, 'v, 'c, 'w, 'x) scheduler \<Rightarrow> ('v, 'c, 'w, 'q) sys \<Rightarrow> bool" where
  "unread L S s \<longleftrightarrow> sys_ok L S s \<and> once s \<and> kept s"

lemma kept_exec:
  assumes "unread L S s" "exec L S a s = Some s'"
  shows "kept s'"
proof -
  from assms(1) have ok: "sys_ok L S s" and o: "once s" and k: "kept s" by (simp_all add: unread_def)
  show ?thesis
    using assms(2)
  proof (cases rule: exec_cases)
    case poll
    then show ?thesis using k by (cases rule: poll_step_cases [of s L]) (auto intro: kept_frame)
  next
    case (batch msgs)
    then show ?thesis using k by (cases rule: batch_step_cases [of msgs L s]) (auto intro: kept_frame)
  next
    case (send msg rs msgs)
    then show ?thesis using k by (auto simp: kept_def bus_send_def)
  next
    case (sched rs n)
    obtain e st where h: "handle_event S rs (sy_state s) = (e, st)" by force
    have "n' \<noteq> n" if "Processed n' rs' e' \<in> set (sy_log s)" for n' rs' e'
      using o that sched(1) unfolding once_def by blast
    with sched h k show ?thesis by (auto simp: kept_def sched_step_def)
  next
    case (await i err)
    let ?n = "fst (sy_await s ! i)"
    have "(?n, snd (sy_await s ! i)) \<in> set (sy_await s)" using await(1) by simp
    then obtain rs where "Sent ?n (Some (snd (sy_await s ! i))) rs \<in> set (sy_log s)"
      using sys_okD(5) [OF ok] by blast
    then have "Sent ?n None rs' \<notin> set (sy_log s)" for rs'
      using sys_okD(1) [OF ok] unfolding log_ok_def by blast
    with await k show ?thesis by (auto simp: kept_def await_step_def Let_def)
  next
    case (delete i msg)
    then show ?thesis using k by (simp add: kept_def delete_step_def Let_def split_beta)
  next
    case (http_send i)
    have "Processed (sy_next s) rs' e' \<notin> set (sy_log s)" for rs' e'
      using o unfolding once_def by blast
    with http_send k show ?thesis by (auto simp: kept_def bus_send_def)
  qed (use k in \<open>auto intro: kept_frame\<close>)
qed

interpretation open_leak: private_invariant L S "unread L S" for L S
proof
  show "unread L S s" if "sys_init s" for s
    using safe.inv_init [OF that] that by (auto simp: unread_def once_def kept_def sys_init_def)
  show "unread L S s'" if "unread L S s" "exec L S a s = Some s'" for a s s'
    using safe.inv_exec [OF _ that(2)] once_exec [OF _ that(2)] kept_exec [OF that] that(1)
    unfolding unread_def by blast
qed (simp_all add: unread_def sys_ok_def once_def kept_def)

subsection \<open>Properties\<close>

text \<open>
  C25. The counters account for every message. In every reachable state of the open system the messages received are those
  that failed, those that succeeded, those whose result is awaited and those of the batch that are not
  enqueued yet; a success leads to exactly one deletion call, made or about to be made; and
  \<open>sqs_messages_deleted_total\<close> is the number of those calls that succeeded.
\<close>

theorem listener_counters_account:
  assumes "reach sys_init (open_exec L S R) s"
  shows "sqsMessagesReceivedTotal (sy_metrics s) =
           sqsMessagesProcessedSuccess (sy_metrics s) + sqsMessagesProcessedFailure (sy_metrics s)
             + length (sy_await s) + in_batch (sy_main s)
     \<and> sqsMessagesProcessedSuccess (sy_metrics s) = length (sy_delete s) + length (delete_results (sy_log s))
     \<and> sqsMessagesDeletedTotal (sy_metrics s) = length (filter (\<lambda>e. e = None) (delete_results (sy_log s)))"
  using open_counts.open_reach [OF assms] by (simp add: accounted_def Let_def)

theorem listener_counters_account_witness:
  "\<exists>s. run_acts demo_exec [APoll, ABatch, ASend, ABatch] (demo_sys [demo_message ''report'', demo_message ''junk''])
       = Some s \<and> sqsMessagesReceivedTotal (sy_metrics s) = 2 \<and> length (sy_await s) = 1
     \<and> sqsMessagesProcessedFailure (sy_metrics s) + in_batch (sy_main s) = 1"
proof -
  let ?s0 = "demo_sys [demo_message ''report'', demo_message ''junk'']"
  have "\<exists>s. run_acts demo_exec [APoll, ABatch, ASend, ABatch] ?s0 = Some s
      \<and> sqsMessagesReceivedTotal (sy_metrics s) = 2 \<and> length (sy_await s) = 1
      \<and> sqsMessagesProcessedSuccess (sy_metrics s) = 0"
    by (simp add: demo_run)
  then obtain s where s: "run_acts demo_exec [APoll, ABatch, ASend, ABatch] ?s0 = Some s"
    "sqsMessagesReceivedTotal (sy_metrics s) = 2" "length (sy_await s) = 1"
    "sqsMessagesProcessedSuccess (sy_metrics s) = 0" by blast
  from listener_counters_account [OF demo_open_reach [OF s(1)]] s show ?thesis by auto
qed

text \<open>
  C22. No deadlock, no livelock while the scheduler runs. From every reachable state of the open system, whatever is chosen next and
  whatever others do in between, the goroutines can take at most \<open>in_flight s\<close> steps before new input is needed; and the
  remaining work can always be brought to its end, unless a parser panics or the scheduler returned.
\<close>

theorem listener_drains:
  fixes R :: "'x policy set"
  assumes "reach sys_init (open_exec L S R) s"
  shows "(\<forall>as s'. list_all no_input as \<and> run_acts (open_exec L S R) as s = Some s'
             \<longrightarrow> length (filter own_action as) \<le> in_flight s)
     \<and> (\<exists>as s'. list_all internal as \<and> run_acts (exec L S) as s = Some s' \<and> (halted s' \<or> in_flight s' = 0))"
  using open_bounded [of _ L S R s] flow.drains [OF open_live.open_reach [OF assms], of L S] by fastforce

theorem listener_drains_witness:
  "\<exists>s as s'. run_acts demo_exec [APoll] (demo_sys [demo_message ''report'']) = Some s \<and> in_flight s = 7
     \<and> list_all internal as \<and> run_acts demo_exec as s = Some s' \<and> (halted s' \<or> in_flight s' = 0)
     \<and> length as \<le> 7"
proof -
  have "\<exists>s. run_acts demo_exec [APoll] (demo_sys [demo_message ''report'']) = Some s \<and> in_flight s = 7"
    by (simp add: demo_run in_flight_def)
  then obtain s where s: "run_acts demo_exec [APoll] (demo_sys [demo_message ''report'']) = Some s"
    "in_flight s = 7" by blast
  note d = listener_drains [OF demo_open_reach [OF s(1)]]
  from d obtain as s' where a: "list_all internal as" "run_acts demo_exec as s = Some s'"
    "halted s' \<or> in_flight s' = 0" by blast
  then have "list_all no_input (map Own as)" "filter own_action (map Own as) = map Own as"
    by (simp_all add: list.pred_map comp_def filter_map)
  with d a(2) s(2) have "length as \<le> 7" by (metis length_map own_run)
  with s a show ?thesis by blast
qed

text \<open>
  C24. The result of an event that came by HTTP is never read. In every reachable state of the open system in which such an event
  was processed, its result, be it an error, still lies in its channel, and no goroutine waits for it:
  the sender was answered before, and nobody learns that the scheduler rejected the reports.
\<close>

theorem http_result_never_read:
  assumes "reach sys_init (open_exec L S R) s"
    and "Sent n None rs \<in> set (sy_log s)" "Processed n rs' e \<in> set (sy_log s)"
  shows "sy_chans s n = Some e \<and> n \<notin> fst ` set (sy_await s)"
proof -
  have u: "unread L S s" by (rule open_leak.open_reach [OF assms(1)])
  then have ok: "sys_ok L S s" by (simp add: unread_def)
  have "(n, m) \<notin> set (sy_await s)" for m
    using sys_okD(5) [OF ok, of n m] sys_okD(1) [OF ok] assms(2) unfolding log_ok_def by blast
  with u assms(2,3) show ?thesis unfolding unread_def kept_def by force
qed

theorem http_result_never_read_witness:
  "\<exists>s e. run_acts demo_exec [AHttp [Map.empty], AHttpSend 0, ASched] (demo_sys []) = Some s
     \<and> e \<noteq> None \<and> sy_chans s 0 = Some e \<and> sy_await s = []"
proof -
  have "\<exists>s e. run_acts demo_exec [AHttp [Map.empty], AHttpSend 0, ASched] (demo_sys []) = Some s
     \<and> Sent 0 None [Map.empty] \<in> set (sy_log s) \<and> Processed 0 [Map.empty] e \<in> set (sy_log s) \<and> e \<noteq> None
     \<and> sy_await s = []"
    by (simp add: demo_run)
  then obtain s e where s: "run_acts demo_exec [AHttp [Map.empty], AHttpSend 0, ASched] (demo_sys []) = Some s"
    "Sent 0 None [Map.empty] \<in> set (sy_log s)" "Processed 0 [Map.empty] e \<in> set (sy_log s)" "e \<noteq> None"
    "sy_await s = []" by blast
  from http_result_never_read [OF demo_open_reach [OF s(1)] s(2,3)] s show ?thesis by blast
qed

text \<open>
  C35. \<open>Enqueue\<close> ignores its context. Once the scheduler has returned, a listener that is blocked in
  \<open>Enqueue\<close> stays there in every continuation, whatever others do: its \<open>Start\<close> never returns, its message is never counted as
  processed or failed, and every HTTP handler in \<open>Enqueue\<close> hangs as well.
\<close>

theorem enqueue_hangs_after_stop:
  assumes "sy_sched s = SStop" "sy_main s = MSend m rs ms" "run_acts (open_exec L S R) as s = Some s'"
  shows "sy_main s' = MSend m rs ms \<and> length (sy_http s) \<le> length (sy_http s')"
  using assms
proof (induction as arbitrary: s)
  case Nil
  then show ?case by simp
next
  case (Cons a as)
  then obtain s1 where s1: "open_exec L S R a s = Some s1" "run_acts (open_exec L S R) as s1 = Some s'"
    by (auto split: option.splits)
  from s1(1) have "sy_sched s1 = SStop \<and> sy_main s1 = MSend m rs ms \<and> length (sy_http s) \<le> length (sy_http s1)"
  proof (cases rule: open_exec_cases)
    case (own b)
    from stopped_exec [OF Cons.prems(1,2) own(2)] show ?thesis .
  qed (use Cons.prems(1,2) in simp_all)
  with Cons.IH [of s1] s1(2) show ?case by auto
qed

theorem enqueue_hangs_after_stop_witness:
  "\<exists>s s' rs. run_acts demo_exec [APoll, ABatch, ACancel, ASchedStop] (demo_sys [demo_message ''report'']) = Some s
     \<and> sy_cancelled s \<and> run_acts demo_exec [AHttp [], ACancel] s = Some s'
     \<and> sy_main s' = MSend (demo_message ''report'') rs []"
proof -
  have "\<exists>s s' rs. run_acts demo_exec [APoll, ABatch, ACancel, ASchedStop] (demo_sys [demo_message ''report'']) = Some s
     \<and> sy_cancelled s \<and> sy_sched s = SStop \<and> sy_main s = MSend (demo_message ''report'') rs []
     \<and> run_acts demo_exec [AHttp [], ACancel] s = Some s'"
    by (simp add: demo_run)
  then obtain s s' rs where s:
    "run_acts demo_exec [APoll, ABatch, ACancel, ASchedStop] (demo_sys [demo_message ''report'']) = Some s"
    "sy_cancelled s" "sy_sched s = SStop" "sy_main s = MSend (demo_message ''report'') rs []"
    "run_acts demo_exec [AHttp [], ACancel] s = Some s'" by blast
  have "run_acts (open_exec ref_listener (ref_scheduler 0 5 []) {}) (map Own [AHttp [], ACancel]) s = Some s'"
    by (simp only: own_run s(5))
  from enqueue_hangs_after_stop [OF s(3,4) this] s(1,2,5) show ?thesis by blast
qed

end
