(* ===== verification/Threshold.thy ===== *)
theory Threshold
  imports Open_System
begin

section \<open>What the pipeline threshold does\<close>

text \<open>
  The guard of \<open>processReports\<close> (\<^verbatim>\<open>internal/reports/scheduler.go\<close>) over whole runs of the open system: over a cluster that
  others keep full nothing is accepted and nothing is deleted; and as long as too few pipelines were
  started, everything is accepted, however many were created.
\<close>

subsection \<open>A full cluster\<close>

text \<open>
  A cluster that stays full as long as only its pipelines are listed: each list of the active ones has at least
  \<open>n\<close> of them.
\<close>

definition stays_full :: "('w, 'x) kclient \<Rightarrow> int \<Rightarrow> ('w \<Rightarrow> bool) \<Rightarrow> bool" where
  "stays_full cl n Q \<longleftrightarrow>
     (\<forall>w. Q w \<longrightarrow> (\<exists>items w'. cl_list_pipelines cl (schedulerLabel, schedulerValue) (''status.active'', ''true'') w = (Inr items, w')
        \<and> n \<le> int (length items) \<and> Q w'))"

definition over_threshold :: "goerr option \<Rightarrow> bool" where
  "over_threshold e \<longleftrightarrow> (\<exists>err. e = Some err \<and> errors_is err ErrPipelineThreshold)"

lemma handle_event_full:
  assumes "stays_full (mgrClient S) (rejectPipelineThreshold S) Q" "0 < rejectPipelineThreshold S" "Q (st_world st)"
  shows "over_threshold (fst (handle_event S rs st)) \<and> Q (st_world (snd (handle_event S rs st)))"
proof -
  let ?st = "st\<lparr>st_metrics := (st_metrics st)\<lparr>schedulerEventsRecieved := schedulerEventsRecieved (st_metrics st) + 1,
      schedulerReportsRecieved := schedulerReportsRecieved (st_metrics st) + length rs\<rparr>\<rparr>"
  from assms(1,3) obtain items w where
    l: "cl_list_pipelines (mgrClient S) (schedulerLabel, schedulerValue) (''status.active'', ''true'') (st_world ?st) = (Inr items, w)"
      "rejectPipelineThreshold S \<le> int (length items)" "Q w"
    by (auto simp: stays_full_def)
  from threshold_rejects [OF assms(2) l(1,2), of rs] obtain e where
    "processReports S rs ?st = (Some e, ?st\<lparr>st_world := w\<rparr>)" "errors_is e ErrPipelineThreshold" by blast
  with l(3) show ?thesis by (simp add: handle_event_def over_threshold_def Let_def)
qed

text \<open>Nothing is accepted: no result is nil, and nothing is deleted or about to be.\<close>

definition held :: "('w \<Rightarrow> bool) \<Rightarrow> ('v, 'c, 'w, 'q) sys \<Rightarrow> bool" where
  "held Q s \<longleftrightarrow>
     Q (st_world (sy_state s)) \<and> (\<forall>e \<in> ran (sy_chans s). over_threshold e) \<and> sy_delete s = []
   \<and> (\<forall>e \<in> set (results (sy_log s)). over_threshold e) \<and> delete_results (sy_log s) = []
   \<and> sqsMessagesProcessedSuccess (sy_metrics s) = 0"

locale full_cluster =
  fixes S :: "('a, 'p, 'v, 'c, 'w, 'x) scheduler" and Q :: "'w \<Rightarrow> bool"
  assumes full: "stays_full (mgrClient S) (rejectPipelineThreshold S) Q" and limited: "0 < rejectPipelineThreshold S"
begin

lemma held_init: "sys_init s \<Longrightarrow> Q (st_world (sy_state s)) \<Longrightarrow> held Q s"
  by (simp add: sys_init_def held_def)

lemma held_exec:
  assumes "held Q s" "exec L S a s = Some s'"
  shows "held Q s'"
  using assms(2)
proof (cases rule: exec_cases)
  case poll
  with assms(1) show ?thesis
    by (cases rule: poll_step_cases [of s L]) (simp_all add: held_def metric_defs)
next
  case (batch msgs)
  with assms(1) show ?thesis
    by (cases rule: batch_step_cases [of msgs L s]) (simp_all add: held_def metric_defs)
next
  case (send msg rs msgs)
  with assms(1) show ?thesis by (simp add: held_def bus_send_def)
next
  case (sched rs n)
  have "over_threshold (fst (handle_event S rs (sy_state s))) \<and> Q (st_world (snd (handle_event S rs (sy_state s))))"
    using assms(1) by (intro handle_event_full full limited) (simp add: held_def)
  with sched assms(1) show ?thesis
    by (auto simp: held_def sched_step_def split_beta ran_def split: if_splits)
next
  case (await i err)
  then have "err \<in> ran (sy_chans s)" by (auto intro: ranI)
  with assms(1) have "over_threshold err" by (simp add: held_def)
  then have "err \<noteq> None" by (auto simp: over_threshold_def)
  with await assms(1) show ?thesis
    by (auto simp: held_def await_step_def Let_def metric_defs ran_def split: if_splits)
next
  case (delete i msg)
  with assms(1) show ?thesis by (simp add: held_def)
next
  case (http rs)
  with assms(1) show ?thesis by (simp add: held_def)
next
  case (http_send i)
  with assms(1) show ?thesis by (simp add: held_def bus_send_def)
next
  case cancel
  with assms(1) show ?thesis by (simp add: held_def)
next
  case stop
  with assms(1) show ?thesis by (simp add: held_def)
qed

lemma held_open:
  assumes "held Q s" "keep_exec L S R Q a s = Some s'"
  shows "held Q s'"
proof -
  have a: "open_exec L S R a s = Some s'" "keeps Q a"
    using assms(2) by (simp_all add: keep_exec_def split: if_splits)
  from a(1) show ?thesis
  proof (cases rule: open_exec_cases)
    case (own b)
    from held_exec [OF assms(1) own(2)] show ?thesis .
  qed (use assms(1) a(2) in \<open>simp_all add: held_def\<close>)
qed

end

sublocale full_cluster \<subseteq> held: inductive_invariant
  "\<lambda>s. sys_init s \<and> Q (st_world (sy_state s))" "keep_exec L S R Q" "held Q" for L R
  by unfold_locales (auto intro: held_init held_open)

context full_cluster begin

lemma reach_held: "reach (\<lambda>s. sys_init s \<and> Q (st_world (sy_state s))) (keep_exec L S R Q) s \<Longrightarrow> held Q s"
  by (rule held.reach_inv)

end

text \<open>The active pipelines of the reference cluster, which listing leaves as they are.\<close>

definition active_in :: "unit pipeline list \<Rightarrow> unit pipeline list" where
  "active_in w = filter (\<lambda>p. pl_labels p schedulerLabel = Some schedulerValue \<and> ''true'' \<in> set (isPipelineActiveIndexer p)) w"

lemma ref_client_full: "stays_full (ref_client policies) n (\<lambda>w. n \<le> int (length (active_in w)))"
  by (simp add: stays_full_def ref_client_def active_in_def)

interpretation one_active: full_cluster "ref_scheduler 1 20 []" "\<lambda>w. 1 \<le> int (length (active_in w))"
  by unfold_locales (use ref_client_full [of "[]" 1] in \<open>simp_all add: ref_scheduler_def\<close>)

subsection \<open>Pipelines that were not started\<close>

text \<open>
  The index of active pipelines has those that were started and are not completed. So a pipeline that was just created
  does not change the list.
\<close>

definition list_active :: "('w, 'x) kclient \<Rightarrow> 'w \<Rightarrow> 'x pipeline list res" where
  "list_active cl w = fst (cl_list_pipelines cl (schedulerLabel, schedulerValue) (''status.active'', ''true'') w)"

definition idle_on_create :: "('w, 'x) kclient \<Rightarrow> bool" where
  "idle_on_create cl \<longleftrightarrow> (\<forall>p w. isPipelineActiveIndexer p = [''false''] \<longrightarrow> list_active cl (snd (cl_create cl p w)) = list_active cl w)"

lemma built_inactive: "isPipelineActiveIndexer (build_pipeline a p vs) = [''false'']"
  by (simp add: build_pipeline_def isPipelineActiveIndexer_def Let_def)

lemma generates_inactive:
  "generates S a r policy = Some g \<Longrightarrow> p \<in> set (g_pipelines g) \<Longrightarrow> isPipelineActiveIndexer p = [''false'']"
  by (auto simp: generates_def Let_def built_inactive split: if_splits sum.splits)

lemma planned_inactive:
  "p \<in> set (concat (map g_pipelines (planned S policies reports))) \<Longrightarrow> isPipelineActiveIndexer p = [''false'']"
  by (auto simp: planned_def List.map_filter_def intro: generates_inactive)

lemma create_run_active:
  "idle_on_create cl \<Longrightarrow> \<forall>p \<in> set ps. isPipelineActiveIndexer p = [''false''] \<Longrightarrow>
   list_active cl (create_run cl ps w) = list_active cl w"
  by (induction ps arbitrary: w) (simp_all add: idle_on_create_def)

lemma below_threshold_active:
  "list_active (mgrClient S) w' = list_active (mgrClient S) w \<Longrightarrow> below_threshold S w' = below_threshold S w"
  by (simp add: below_threshold_def list_active_def)

text \<open>A scheduler over a cluster in which a creation starts nothing and whose policies can be listed.\<close>

locale lazy_cluster = open_system S contents R
  for S :: "('a, 'p, 'v, 'c, 'w, 'x) scheduler" and contents :: "'c \<Rightarrow> (string \<rightharpoonup> 'p cached)" and R :: "'x policy set" +
  assumes quiet: "reads_only (mgrClient S)" and idle: "idle_on_create (mgrClient S)"
    and listable: "\<exists>ps. fst (cl_list_policies (mgrClient S) w) = Inr ps"
begin

lemma event_accepted:
  assumes "below_threshold S w"
  shows "fst (event_spec S rs w) = (if list_all (\<lambda>r. action_id r \<noteq> None) rs then None else Some invalid_report)"
    and "below_threshold S (snd (event_spec S rs w))"
proof -
  obtain ps where ps: "fst (cl_list_policies (mgrClient S) w) = Inr ps" using listable by blast
  note e = event_spec_quiet(1) [OF quiet assms ps, of rs]
  show "fst (event_spec S rs w) = (if list_all (\<lambda>r. action_id r \<noteq> None) rs then None else Some invalid_report)"
    by (simp add: e)
  have "list_active (mgrClient S) (create_run (mgrClient S) (concat (map g_pipelines (planned S ps rs))) w) = list_active (mgrClient S) w"
    by (rule create_run_active [OF idle]) (blast intro: planned_inactive)
  from below_threshold_active [OF this] assms show "below_threshold S (snd (event_spec S rs w))" by (simp add: e)
qed

text \<open>Below the threshold, every event was accepted that could be.\<close>

definition hospitable :: "('v, 'c, 'w, 'q) sys \<Rightarrow> bool" where
  "hospitable s \<longleftrightarrow> inv (st_cache (sy_state s)) \<and> below_threshold S (st_world (sy_state s))
     \<and> (\<forall>n rs e. Processed n rs e \<in> set (sy_log s) \<longrightarrow>
          e = (if list_all (\<lambda>r. action_id r \<noteq> None) rs then None else Some invalid_report))"

lemma hospitable_own:
  assumes "hospitable s" "exec L S a s = Some s'"
  shows "below_threshold S (st_world (sy_state s'))"
    and "Processed n rs e \<in> set (sy_log s') \<Longrightarrow>
      e = (if list_all (\<lambda>r. action_id r \<noteq> None) rs then None else Some invalid_report)"
proof -
  have sm: "scheduler_model S inv R" unfolding scheduler_model_def by (rule get_contract)
  have h: "inv (st_cache (sy_state s))" "below_threshold S (st_world (sy_state s))" using assms(1) by (simp_all add: hospitable_def)
  from scheduler_model.handle_event_refines(1) [OF sm open_listed h(1)]
  have ev: "fst (handle_event S rs (sy_state s)) = fst (event_spec S rs (st_world (sy_state s)))"
    "st_world (snd (handle_event S rs (sy_state s))) = snd (event_spec S rs (st_world (sy_state s)))" for rs
    by (metis fst_conv, metis snd_conv)
  show "below_threshold S (st_world (sy_state s'))"
    using exec_state [OF assms(2)] h event_accepted(2) [OF h(2)] by (auto simp: ev split: sched.split)
  show "e = (if list_all (\<lambda>r. action_id r \<noteq> None) rs then None else Some invalid_report)"
    if "Processed n rs e \<in> set (sy_log s')"
  proof (cases "Processed n rs e \<in> set (sy_log s)")
    case True
    with assms(1) show ?thesis unfolding hospitable_def by blast
  next
    case False
    from exec_processed [OF assms(2) that False] show ?thesis by (simp add: ev event_accepted(1) [OF h(2)])
  qed
qed

lemma hospitable_step:
  assumes "hospitable s" "keep_exec L S R (below_threshold S) a s = Some s'"
  shows "hospitable s'"
proof -
  have a: "open_exec L S R a s = Some s'" "keeps (below_threshold S) a"
    using assms(2) by (simp_all add: keep_exec_def split: if_splits)
  have i: "inv (st_cache (sy_state s'))" using open_inv_step [OF _ a(1)] assms(1) by (simp add: hospitable_def)
  from a(1) show ?thesis
  proof (cases rule: open_exec_cases)
    case (own b)
    show ?thesis using i hospitable_own [OF assms(1) own(2)] by (auto simp: hospitable_def)
  qed (use i assms(1) a(2) in \<open>simp_all add: hospitable_def\<close>)
qed

end

sublocale lazy_cluster \<subseteq> hospitable: inductive_invariant
  "\<lambda>s. sys_init s \<and> inv (st_cache (sy_state s)) \<and> below_threshold S (st_world (sy_state s))"
  "keep_exec L S R (below_threshold S)" hospitable for L
proof
  show "sys_init s \<and> inv (st_cache (sy_state s)) \<and> below_threshold S (st_world (sy_state s)) \<Longrightarrow> hospitable s" for s
    by (simp add: hospitable_def sys_init_def)
qed (rule hospitable_step)

context lazy_cluster begin

lemma reach_hospitable:
  "reach (\<lambda>s. sys_init s \<and> inv (st_cache (sy_state s)) \<and> below_threshold S (st_world (sy_state s)))
     (keep_exec L S R (below_threshold S)) s \<Longrightarrow> hospitable s"
  by (rule hospitable.reach_inv)

end

text \<open>The reference cluster without the controller that starts pipelines.\<close>

definition lazy_scheduler ::
  "(string, string, rval, string cached list_cache, unit pipeline list, unit) scheduler" where
  "lazy_scheduler = (ref_scheduler 1 5 [one_policy])\<lparr>mgrClient :=
     (ref_client [one_policy])\<lparr>cl_create := \<lambda>p w. (Inr p, w @ [p])\<rparr>\<rparr>"

lemma lazy_laws:
  "compiler_model (policyCompiler lazy_scheduler) lc_contents {one_policy}" "lists_served (mgrClient lazy_scheduler) {one_policy}"
  "reads_only (mgrClient lazy_scheduler)" "idle_on_create (mgrClient lazy_scheduler)"
  "fst (cl_list_policies (mgrClient lazy_scheduler) w) = Inr [one_policy]"
proof -
  show "compiler_model (policyCompiler lazy_scheduler) lc_contents {one_policy}"
    using ref_compiler_model by (simp add: lazy_scheduler_def ref_scheduler_def)
qed (auto simp: lazy_scheduler_def ref_scheduler_def lists_served_def ref_client_def reads_only_def idle_on_create_def
       list_active_def)

lemma lazy_clusterI:
  assumes "compiler_model (policyCompiler S) contents R" "lists_served (mgrClient S) R"
    and "reads_only (mgrClient S)" "idle_on_create (mgrClient S)"
    and "\<And>w. \<exists>ps. fst (cl_list_policies (mgrClient S) w) = Inr ps"
  shows "lazy_cluster S contents R"
  using assms by (simp add: lazy_cluster_def lazy_cluster_axioms_def open_system_def open_system_axioms_def)

interpretation lazy: lazy_cluster lazy_scheduler lc_contents "{one_policy}"
  by (rule lazy_clusterI [OF lazy_laws(1-4)]) (simp add: lazy_laws(5))

subsection \<open>Properties\<close>

text \<open>
  C12. Pipelines that were not started do not count. Over a cluster in which a creation starts nothing and policies can be
  listed, as long as the others keep the number of started pipelines below the threshold, every event whose reports all have
  an action id is accepted and every other is refused for that reason alone, however many pipelines were created before and
  wait: the threshold bounds the pipelines that run, not those that the controller makes.
\<close>

theorem waiting_pipelines_do_not_count:
  assumes "compiler_model (policyCompiler S) contents R" "lists_served (mgrClient S) R"
    and "reads_only (mgrClient S)" "idle_on_create (mgrClient S)"
    and "\<And>w. \<exists>ps. fst (cl_list_policies (mgrClient S) w) = Inr ps"
    and "reach (\<lambda>s. sys_init s \<and> coherent (comp_env (policyCompiler S)) R (contents (st_cache (sy_state s)))
             \<and> below_threshold S (st_world (sy_state s)))
           (keep_exec L S R (below_threshold S)) s"
    and "Processed n rs e \<in> set (sy_log s)"
  shows "e = (if list_all (\<lambda>r. action_id r \<noteq> None) rs then None else Some invalid_report)"
  using lazy_cluster.reach_hospitable [OF lazy_clusterI [OF assms(1-5)] assms(6)] assms(7)
  unfolding lazy_cluster.hospitable_def [OF lazy_clusterI [OF assms(1-5)]] by blast

theorem waiting_pipelines_do_not_count_witness:
  "\<exists>s. run_acts (exec ref_listener lazy_scheduler)
        [APoll, ABatch, ASend, ASched, ABatch, ASend, ASched, AHttp [Map.empty], AHttpSend 0, ASched]
        (demo_sys [demo_message ''report'', demo_message ''report'']) = Some s
     \<and> length (st_world (sy_state s)) = 2 \<and> results (sy_log s) = [None, None, Some invalid_report]
     \<and> rejectPipelineThreshold lazy_scheduler = 1"
proof -
  let ?acts = "[APoll, ABatch, ASend, ASched, ABatch, ASend, ASched, AHttp [Map.empty], AHttpSend 0, ASched]"
  let ?s0 = "demo_sys [demo_message ''report'', demo_message ''report'']"
  let ?rs = "[[''_ACTION_ID'' \<mapsto> AString ''7'']]"
  have "\<exists>s e1 e2 e3. run_acts (exec ref_listener lazy_scheduler) ?acts ?s0 = Some s \<and> length (st_world (sy_state s)) = 2
      \<and> results (sy_log s) = [e1, e2, e3]
      \<and> Processed 0 ?rs e1 \<in> set (sy_log s) \<and> Processed 1 ?rs e2 \<in> set (sy_log s) \<and> Processed 2 [Map.empty] e3 \<in> set (sy_log s)"
    by (simp add: lazy_scheduler_def countActivePipelines_def isPipelineActiveIndexer_def one_run)
  then obtain s e1 e2 e3 where s: "run_acts (exec ref_listener lazy_scheduler) ?acts ?s0 = Some s"
    "length (st_world (sy_state s)) = 2" "results (sy_log s) = [e1, e2, e3]"
    "Processed 0 ?rs e1 \<in> set (sy_log s)" "Processed 1 ?rs e2 \<in> set (sy_log s)"
    "Processed 2 [Map.empty] e3 \<in> set (sy_log s)" by blast
  let ?init = "\<lambda>s. sys_init s \<and> coherent (comp_env (policyCompiler lazy_scheduler)) {one_policy} (lc_contents (st_cache (sy_state s)))
             \<and> below_threshold lazy_scheduler (st_world (sy_state s))"
  let ?ex = "keep_exec ref_listener lazy_scheduler {one_policy} (below_threshold lazy_scheduler)"
  have "?init ?s0"
    by (simp add: demo_sys_def ref_state_def sys_init_def below_threshold_def lazy_scheduler_def ref_scheduler_def ref_client_def)
  then have r0: "reach ?init ?ex ?s0" by (rule reach.start)
  have "run_acts ?ex (map Own ?acts) ?s0 = Some s" by (simp only: keep_own_run s(1))
  note r = run_acts_reach [OF r0 this]
  have answer: "Processed n rs e \<in> set (sy_log s) \<Longrightarrow>
      e = (if list_all (\<lambda>r. action_id r \<noteq> None) rs then None else Some invalid_report)" for n rs e
    by (rule waiting_pipelines_do_not_count [OF lazy_laws(1-4) _ r]) (simp add: lazy_laws(5))
  from answer [OF s(4)] answer [OF s(5)] answer [OF s(6)] have "e1 = None" "e2 = None" "e3 = Some invalid_report"
    by (simp_all add: action_id_def KeyActionID_def)
  with s(1-3) show ?thesis by (simp add: lazy_scheduler_def ref_scheduler_def)
qed

end
