(* ===== verification/Go_Path.thy ===== *)
theory Go_Path
  imports Prelude "HOL-Library.Sublist"
begin

section \<open>Paths and strings of the Go standard library\<close>

text \<open>
  What the code uses of \<^verbatim>\<open>strings\<close>, \<^verbatim>\<open>path\<close> and \<^verbatim>\<open>path/filepath\<close> (the same on the systems the
  programs are built for): splitting, trimming, \<open>Clean\<close>, \<open>Join\<close> and \<open>Base\<close>.
\<close>

subsection \<open>Splitting and joining\<close>

fun split_on :: "'c \<Rightarrow> 'c list \<Rightarrow> 'c list list" where
  "split_on d [] = [[]]"
| "split_on d (c # s) =
     (if c = d then [] # split_on d s
      else (case split_on d s of [] \<Rightarrow> [[c]] | w # ws \<Rightarrow> (c # w) # ws))"

fun join_with :: "'c \<Rightarrow> 'c list list \<Rightarrow> 'c list" where
  "join_with d [] = []"
| "join_with d [w] = w"
| "join_with d (w # ws) = w @ d # join_with d ws"

lemma split_on_nonempty [simp]: "split_on d s \<noteq> []"
  by (induction s) (auto split: list.split)

lemma join_split: "join_with d (split_on d s) = s"
proof (induction s)
  case Nil
  then show ?case by simp
next
  case (Cons c s)
  obtain w ws where w: "split_on d s = w # ws" by (cases "split_on d s") simp_all
  with Cons show ?case by (cases ws) auto
qed

lemma split_on_free: "d \<notin> set w \<Longrightarrow> split_on d w = [w]"
  by (induction w) auto

lemma split_on_append:
  "split_on d (u @ d # v) = split_on d u @ split_on d v"
  by (induction u) (auto split: list.split)

lemma split_join:
  "ws \<noteq> [] \<Longrightarrow> \<forall>w \<in> set ws. d \<notin> set w \<Longrightarrow> split_on d (join_with d ws) = ws"
  by (induction d ws rule: join_with.induct) (simp_all add: split_on_free split_on_append)

lemma split_on_parts: "w \<in> set (split_on d s) \<Longrightarrow> d \<notin> set w"
proof (induction s arbitrary: w)
  case Nil
  then show ?case by simp
next
  case (Cons c s)
  then show ?case by (cases "split_on d s") (auto split: if_splits)
qed

text \<open>\<open>strings.HasPrefix\<close>, \<open>strings.TrimLeft\<close> and \<open>strings.Trim\<close> with a one-character cutset.\<close>

definition HasPrefix :: "string \<Rightarrow> string \<Rightarrow> bool" where
  "HasPrefix s p \<longleftrightarrow> take (length p) s = p"

definition TrimLeft :: "string \<Rightarrow> char \<Rightarrow> string" where
  "TrimLeft s c = dropWhile (\<lambda>x. x = c) s"

definition Trim :: "string \<Rightarrow> char \<Rightarrow> string" where
  "Trim s c = rev (dropWhile (\<lambda>x. x = c) (rev (TrimLeft s c)))"

lemma HasPrefix_prefix: "HasPrefix s p \<longleftrightarrow> prefix p s"
  by (metis HasPrefix_def append_eq_conv_conj prefix_def take_is_prefix)

subsection \<open>Clean, Join and Base\<close>

abbreviation slash :: char where
  "slash \<equiv> CHR ''/''"

abbreviation dotdot :: string where
  "dotdot \<equiv> ''..''"

text \<open>
  The components of a path, cleaned: empty ones and \<open>.\<close> are dropped, \<open>..\<close> takes the component before it
  away, and is dropped at the root. \<open>acc\<close> is what there is so far, last component first.
\<close>

definition push_comp :: "bool \<Rightarrow> string \<Rightarrow> string list \<Rightarrow> string list" where
  "push_comp rooted c acc =
     (if c = [] \<or> c = ''.'' then acc
      else if c = dotdot then
        (case acc of
           [] \<Rightarrow> if rooted then [] else [dotdot]
         | x # xs \<Rightarrow> if x = dotdot then dotdot # acc else xs)
      else c # acc)"

fun clean_comps :: "bool \<Rightarrow> string list \<Rightarrow> string list \<Rightarrow> string list" where
  "clean_comps rooted [] acc = rev acc"
| "clean_comps rooted (c # cs) acc = clean_comps rooted cs (push_comp rooted c acc)"

definition rooted_path :: "string \<Rightarrow> bool" where
  "rooted_path p \<longleftrightarrow> HasPrefix p ''/''"

definition comps :: "string \<Rightarrow> string list" where
  "comps p = clean_comps (rooted_path p) (split_on slash p) []"

definition Clean :: "string \<Rightarrow> string" where
  "Clean p =
     (if rooted_path p then slash # join_with slash (comps p)
      else if comps p = [] then ''.''
      else join_with slash (comps p))"

definition path_Join :: "string list \<Rightarrow> string" where
  "path_Join elems =
     (let es = filter (\<lambda>e. e \<noteq> []) elems in
      if es = [] then [] else Clean (join_with slash es))"

definition trim_right_slash :: "string \<Rightarrow> string" where
  "trim_right_slash p = rev (dropWhile (\<lambda>x. x = slash) (rev p))"

definition Base :: "string \<Rightarrow> string" where
  "Base p =
     (if p = [] then ''.''
      else (let b = last (split_on slash (trim_right_slash p)) in if b = [] then ''/'' else b))"

subsection \<open>Cleaned components\<close>

text \<open>What a cleaned stack looks like: no empty component and no dot; \<open>..\<close> only at the bottom, never when rooted.\<close>

definition plain :: "string \<Rightarrow> bool" where
  "plain c \<longleftrightarrow> c \<noteq> [] \<and> c \<noteq> ''.'' \<and> c \<noteq> dotdot"

lemma push_plain: "plain c \<Longrightarrow> push_comp r c acc = c # acc"
  by (simp add: push_comp_def plain_def)

lemma push_skip [simp]: "push_comp r [] acc = acc" "push_comp r ''.'' acc = acc"
  by (simp_all add: push_comp_def)

lemma push_rooted_plain: "\<forall>x \<in> set acc. plain x \<Longrightarrow> \<forall>x \<in> set (push_comp True c acc). plain x"
  by (cases acc) (simp_all add: push_comp_def plain_def)

lemma clean_comps_plain:
  "\<forall>c \<in> set cs. plain c \<Longrightarrow> clean_comps r cs acc = rev acc @ cs"
  by (induction cs arbitrary: acc) (simp_all add: push_plain)

lemma clean_comps_append:
  "clean_comps r (cs @ ds) acc = clean_comps r ds (rev (clean_comps r cs acc))"
  by (induction cs arbitrary: acc) simp_all

text \<open>When the path is rooted, what is left has plain components only.\<close>

lemma clean_rooted_plain:
  assumes "\<forall>c \<in> set acc. plain c"
  shows "\<forall>c \<in> set (clean_comps True cs acc). plain c"
  using assms
proof (induction cs arbitrary: acc)
  case Nil
  then show ?case by simp
next
  case (Cons c cs)
  from Cons.IH [OF push_rooted_plain [OF Cons.prems, of c]] show ?case by simp
qed

text \<open>Cleaning what is clean changes nothing.\<close>

lemma rooted_split: "rooted_path p \<Longrightarrow> \<exists>q. p = slash # q"
  by (cases p) (auto simp: rooted_path_def HasPrefix_def)

lemma push_mem: "x \<in> set (push_comp r c acc) \<Longrightarrow> x = c \<or> x \<in> set acc \<or> x = dotdot"
  by (cases acc) (simp_all add: push_comp_def split: if_splits, blast+)

lemma comps_slashfree: "x \<in> set (clean_comps r cs acc) \<Longrightarrow> x \<in> set cs \<or> x \<in> set acc \<or> x = dotdot"
proof (induction cs arbitrary: acc)
  case Nil
  then show ?case by simp
next
  case (Cons c cs)
  from Cons.prems have "x \<in> set (clean_comps r cs (push_comp r c acc))" by simp
  from Cons.IH [OF this] push_mem [of x r c acc] show ?case by auto
qed

lemma comps_no_slash: "c \<in> set (comps p) \<Longrightarrow> slash \<notin> set c"
  using comps_slashfree [of c "rooted_path p" "split_on slash p" "[]"] split_on_parts [of c slash p]
  by (auto simp: comps_def)

lemma comps_rooted_plain: "rooted_path p \<Longrightarrow> \<forall>c \<in> set (comps p). plain c"
  unfolding comps_def using clean_rooted_plain [of "[]" "split_on slash p"] by simp

lemma rooted_Cons [simp]: "rooted_path (slash # q)"
  by (simp add: rooted_path_def HasPrefix_def)

text \<open>The components of \<open>Clean p\<close> are those of \<open>p\<close>, for a rooted path.\<close>

lemma comps_join_plain:
  assumes "\<forall>c \<in> set cs. plain c \<and> slash \<notin> set c"
  shows "comps (slash # join_with slash cs) = cs"
proof (cases "cs = []")
  case True
  then show ?thesis by (simp add: comps_def)
next
  case False
  have "split_on slash (slash # join_with slash cs) = [] # cs"
    using split_join [OF False, of slash] assms by simp
  then show ?thesis
    using assms clean_comps_plain [of cs True "[]"] by (simp add: comps_def)
qed

lemma comps_Clean: "rooted_path p \<Longrightarrow> comps (Clean p) = comps p"
  using comps_join_plain [of "comps p"] comps_rooted_plain [of p] comps_no_slash [of _ p]
  by (simp add: Clean_def)

lemma Clean_rooted [simp]: "rooted_path p \<Longrightarrow> rooted_path (Clean p)"
  by (simp add: Clean_def)

text \<open>\<open>Clean\<close> of a rooted path is idempotent.\<close>

lemma Clean_Clean: "rooted_path p \<Longrightarrow> Clean (Clean p) = Clean p"
  using comps_Clean [of p] Clean_rooted [of p] unfolding Clean_def [of "Clean p"] by (simp add: Clean_def)

subsection \<open>Containment\<close>

text \<open>
  A rooted path lies inside a directory when the directory's components are a prefix of its own. A
  relative name stays inside when, read from the left, it never takes back more components than it has
  added; \<open>climbs\<close> says that it does take back more, starting \<open>n\<close> levels below.
\<close>

definition inside :: "string \<Rightarrow> string \<Rightarrow> bool" where
  "inside dir p \<longleftrightarrow> rooted_path p \<and> prefix (comps dir) (comps p)"

fun climbs :: "nat \<Rightarrow> string list \<Rightarrow> bool" where
  "climbs n [] = False"
| "climbs n (c # cs) =
     (if c = [] \<or> c = ''.'' then climbs n cs
      else if c = dotdot then (n = 0 \<or> climbs (n - 1) cs)
      else climbs (Suc n) cs)"

lemma clean_comps_inside:
  assumes "\<not> climbs (length acc) cs" "\<forall>c \<in> set acc. plain c" "\<forall>c \<in> set base. plain c"
  shows "prefix (rev base) (clean_comps True cs (acc @ base))"
  using assms
proof (induction cs arbitrary: acc)
  case Nil
  then show ?case by simp
next
  case (Cons c cs)
  consider (skip) "c = [] \<or> c = ''.''" | (up) "c = dotdot" | (down) "plain c"
    by (auto simp: plain_def)
  then show ?case
  proof cases
    case skip
    with Cons.prems Cons.IH [of acc] show ?thesis by auto
  next
    case up
    with Cons.prems obtain a as where a: "acc = a # as" by (cases acc) simp_all
    with Cons.prems(2) have "a \<noteq> dotdot" by (simp add: plain_def)
    with a have "push_comp True c (acc @ base) = as @ base" by (simp add: push_comp_def up)
    with Cons.IH [of as] Cons.prems a up show ?thesis by simp
  next
    case down
    then have "\<not> climbs (length (c # acc)) cs" using Cons.prems(1) by (simp add: plain_def)
    with Cons.IH [of "c # acc"] Cons.prems(2,3) down show ?thesis by (simp add: push_plain)
  qed
qed

lemma comps_Join:
  assumes "rooted_path dir" "name \<noteq> []"
  shows "comps (path_Join [dir, name]) = clean_comps True (split_on slash name) (rev (comps dir))"
    and "rooted_path (path_Join [dir, name])"
proof -
  from rooted_split [OF assms(1)] obtain q where d: "dir = slash # q" by blast
  have j: "path_Join [dir, name] = Clean (dir @ slash # name)"
    using assms(2) d by (simp add: path_Join_def)
  have r: "rooted_path (dir @ slash # name)" using d by simp
  then show "rooted_path (path_Join [dir, name])" unfolding j by simp
  show "comps (path_Join [dir, name]) = clean_comps True (split_on slash name) (rev (comps dir))"
    unfolding j comps_Clean [OF r]
    using r assms(1) by (simp add: comps_def split_on_append clean_comps_append)
qed

lemma Join_inside:
  assumes "rooted_path dir" "\<not> climbs 0 (split_on slash name)"
  shows "inside dir (path_Join [dir, name])"
proof (cases "name = []")
  case True
  from rooted_split [OF assms(1)] have "dir \<noteq> []" by auto
  with True assms(1) show ?thesis by (simp add: path_Join_def inside_def comps_Clean)
next
  case False
  have "prefix (comps dir) (clean_comps True (split_on slash name) (rev (comps dir)))"
    using clean_comps_inside [of "[]" "split_on slash name" "rev (comps dir)"] assms
      comps_rooted_plain [OF assms(1)] by simp
  then show ?thesis using comps_Join [OF assms(1) False] by (simp add: inside_def)
qed

text \<open>Joining a name of plain components to any directory puts them after the directory's.\<close>

definition plain_name :: "string \<Rightarrow> bool" where
  "plain_name n \<longleftrightarrow> list_all plain (split_on slash n)"

lemma plain_name_comps: "plain_name n \<Longrightarrow> clean_comps r (split_on slash n) acc = rev acc @ split_on slash n"
  by (rule clean_comps_plain) (simp add: plain_name_def list_all_iff)

lemma plain_name_relative:
  assumes "plain_name n"
  shows "n \<noteq> []" "\<not> rooted_path n"
proof -
  show "n \<noteq> []" using assms by (auto simp: plain_name_def plain_def)
  show "\<not> rooted_path n"
  proof
    assume "rooted_path n"
    then obtain q where "n = slash # q" using rooted_split by blast
    with assms show False by (simp add: plain_name_def plain_def)
  qed
qed

lemma Join_plain:
  assumes "plain_name n"
  shows "path_Join [dir, n] =
    (if dir = [] then n
     else (if rooted_path dir then [slash] else []) @ join_with slash (comps dir @ split_on slash n))"
proof (cases "dir = []")
  case True
  have "comps n = split_on slash n" using plain_name_comps [OF assms] by (simp add: comps_def)
  with True plain_name_relative [OF assms] show ?thesis
    by (simp add: path_Join_def Clean_def join_split)
next
  case False
  have r: "rooted_path (dir @ slash # n) = rooted_path dir"
    using False by (cases dir) (simp_all add: rooted_path_def HasPrefix_def)
  have c: "comps (dir @ slash # n) = comps dir @ split_on slash n"
    by (simp add: comps_def r split_on_append clean_comps_append plain_name_comps [OF assms])
  show ?thesis
    using False plain_name_relative(1) [OF assms] by (simp add: path_Join_def Clean_def r c)
qed

lemma Join_inj:
  assumes "plain_name m" "plain_name n" "path_Join [dir, m] = path_Join [dir, n]"
  shows "m = n"
proof (cases "dir = []")
  case True
  then show ?thesis using assms(3) Join_plain [OF assms(1)] Join_plain [OF assms(2)] by simp
next
  case False
  have free: "\<forall>c \<in> set (comps dir @ split_on slash k). slash \<notin> set c" for k
    using comps_no_slash split_on_parts by fastforce
  from False assms(3) have "join_with slash (comps dir @ split_on slash m) = join_with slash (comps dir @ split_on slash n)"
    unfolding Join_plain [OF assms(1)] Join_plain [OF assms(2)] by simp
  then have "comps dir @ split_on slash m = comps dir @ split_on slash n"
    using split_join [OF _ free [of m]] split_join [OF _ free [of n]]
    by (metis append_is_Nil_conv split_on_nonempty)
  then show ?thesis using join_split by (metis same_append_eq)
qed

end
