(* ===== verification/Http_Server.thy ===== *)
theory Http_Server
  imports Scheduler Sqs_Parsers Go_Path
begin

section \<open>The report server\<close>

text \<open>
  \<^verbatim>\<open>internal/reports/httpserver\<close> (\<^verbatim>\<open>middleware.go\<close>, \<^verbatim>\<open>reports.go\<close>, \<^verbatim>\<open>server.go\<close>) with
  \<^verbatim>\<open>api/v1beta1/httpserver/api.go\<close>. The authenticator and the authorizer of the API server act on an
  external state \<open>'n\<close>; gin is the record \<open>gin\<close> with its documented laws. What a request puts on the event
  bus is the list \<open>hs_bus\<close>: \<open>Enqueue\<close> returns a result channel that the handler drops.
\<close>

subsection \<open>Requests and responses\<close>

record request =
  rq_method :: string
  rq_path :: string
  rq_headers :: "(string \<times> string) list"
  rq_body :: string

text \<open>\<open>APIResponse[struct{}]\<close> and the answer of the health endpoint.\<close>

datatype response = ApiResponse int string | Health string

text \<open>The \<open>gin.Context\<close>: the request, whether the chain is aborted, the responses written with their status.\<close>

record gin_context =
  cx_request :: request
  cx_aborted :: bool
  cx_writes :: "(int \<times> response) list"

record ('v, 'n) http_state =
  hs_auth :: 'n
  hs_bus :: "'v report list list"

type_synonym ('v, 'n) handler = "gin_context \<Rightarrow> ('v, 'n) http_state \<Rightarrow> gin_context \<times> ('v, 'n) http_state"

definition c_JSON :: "int \<Rightarrow> response \<Rightarrow> gin_context \<Rightarrow> gin_context" where
  "c_JSON code body c = c\<lparr>cx_writes := cx_writes c @ [(code, body)]\<rparr>"

text \<open>\<open>AbortWithStatusJSON\<close> stops the chain after this handler.\<close>

definition errorResponse :: "int \<Rightarrow> string \<Rightarrow> gin_context \<Rightarrow> gin_context" where
  "errorResponse code message c = c_JSON code (ApiResponse code message) (c\<lparr>cx_aborted := True\<rparr>)"

subsection \<open>Authentication and authorization\<close>

datatype decision = DecisionDeny | DecisionAllow | DecisionNoOpinion

record 'u attributes =
  at_user :: 'u
  at_verb :: string
  at_path :: string

text \<open>\<open>AuthenticateRequest\<close> gives a user, whether it is one, and an error; \<open>Authorize\<close> a decision, reason and error.\<close>

record ('u, 'n) auth =
  authenticate :: "request \<Rightarrow> 'n \<Rightarrow> ('u \<times> bool \<times> goerr option) \<times> 'n"
  authorize :: "'u attributes \<Rightarrow> 'n \<Rightarrow> (decision \<times> string \<times> goerr option) \<times> 'n"
  user_name :: "'u \<Rightarrow> string"

definition request_attributes :: "'u \<Rightarrow> request \<Rightarrow> 'u attributes" where
  "request_attributes u rq = \<lparr>at_user = u, at_verb = ToLower (rq_method rq), at_path = rq_path rq\<rparr>"

definition authorizationMiddleware :: "('u, 'n) auth \<Rightarrow> ('v, 'n) handler" where
  "authorizationMiddleware A c s =
     (case authenticate A (cx_request c) (hs_auth s) of
        ((_, _, Some err), n1) \<Rightarrow> (errorResponse 401 ''Authentication failed'' c, s\<lparr>hs_auth := n1\<rparr>)
      | ((user, ok, None), n1) \<Rightarrow>
          if \<not> ok then (errorResponse 401 ''Unauthenticated'' c, s\<lparr>hs_auth := n1\<rparr>)
          else
            (case authorize A (request_attributes user (cx_request c)) n1 of
               ((_, _, Some err), n2) \<Rightarrow>
                 (errorResponse 403 (''Authorization for user '' @ user_name A user @ '' failed'') c,
                  s\<lparr>hs_auth := n2\<rparr>)
             | ((authorized, reason, None), n2) \<Rightarrow>
                 if authorized \<noteq> DecisionAllow
                 then (errorResponse 403 (''Authorization denied for user '' @ user_name A user) c,
                       s\<lparr>hs_auth := n2\<rparr>)
                 else (c, s\<lparr>hs_auth := n2\<rparr>)))"

subsection \<open>The report endpoint\<close>

text \<open>
  \<open>BindJSON\<close> reads the body as \<open>Decoder.Decode\<close> does. The answer is written when the event is on the bus;
  the result of processing it is not waited for.
\<close>

definition scheduleReport :: "jlib \<Rightarrow> ('v, 'n) handler" where
  "scheduleReport J c s =
     (case decode_reports_stream J (rq_body (cx_request c)) of
        (_, Some err) \<Rightarrow> (errorResponse 400 ''unable to parse request'' c, s)
      | (reports, None) \<Rightarrow>
          (c_JSON 200 (ApiResponse 200 (''processed '' @ show_nat (length reports) @ '' reports'')) c,
           s\<lparr>hs_bus := hs_bus s @ [reports]\<rparr>))"

definition health :: "('v, 'n) handler" where
  "health c s = (c_JSON 200 (Health ''ok'') c, s)"

subsection \<open>The server\<close>

type_synonym ('v, 'n) route = "string \<times> string \<times> ('v, 'n) handler list"

text \<open>
  \<open>gn_match\<close> picks the route of a request among the methods and paths registered, \<open>gn_run\<close> runs a chain
  of handlers, \<open>gn_notFound\<close> answers a request without a route.
\<close>

record ('v, 'n) gin =
  gn_match :: "(string \<times> string) list \<Rightarrow> string \<Rightarrow> string \<Rightarrow> (string \<times> string) option"
  gn_run :: "('v, 'n) handler list \<Rightarrow> ('v, 'n) handler"
  gn_notFound :: "('v, 'n) handler"

locale gin_engine =
  fixes G :: "('v, 'n) gin"
  assumes match_registered: "gn_match G rs m p = Some (m', p') \<Longrightarrow> (m', p') \<in> set rs \<and> m' = m \<and> p' = p"
    and match_exact: "(m, p) \<in> set rs \<Longrightarrow> gn_match G rs m p = Some (m, p)"
    and run_Nil: "gn_run G [] c s = (c, s)"
    and run_Cons: "gn_run G (h # hs) c s =
      (let (c1, s1) = h c s in if cx_aborted c1 then (c1, s1) else gn_run G hs c1 s1)"
    and notFound_bus: "hs_bus (snd (gn_notFound G c s)) = hs_bus s"
begin

lemma run_one: "gn_run G [h] c s = h c s"
  by (simp add: run_Cons run_Nil split: prod.split)

lemma match_None: "(m, p) \<notin> set rs \<Longrightarrow> gn_match G rs m p = None"
  using match_registered [of rs m p] by (cases "gn_match G rs m p") auto

end

record http_options =
  ho_BindAddress :: string
  ho_Secure :: bool
  ho_CertDir :: string
  ho_CertName :: string
  ho_KeyName :: string
  ho_TlsOpts :: "(string list \<Rightarrow> string list) list"
  ho_DevelopmentMode :: bool

text \<open>A TLS configuration is its list \<open>NextProtos\<close>, the one field the code sets.\<close>

record ('v, 'n) server =
  sv_opts :: http_options
  sv_routes :: "('v, 'n) route list"

definition report_path :: string where
  "report_path = ''/api/v1beta1/report''"

text \<open>The clients of the API server may fail to build (\<open>createAuthClients\<close>).\<close>

definition NewServer ::
  "('u, 'n) auth res \<Rightarrow> jlib \<Rightarrow> http_options \<Rightarrow> ('v, 'n) server res" where
  "NewServer authClients J opts =
     (case authClients of
        Inl err \<Rightarrow> Inl (ErrWrap ''unable to create auth clients: '' err '''')
      | Inr A \<Rightarrow>
          Inr \<lparr>sv_opts = opts,
               sv_routes = [(''GET'', ''/health'', [health]),
                            (''POST'', report_path, [authorizationMiddleware A, scheduleReport J])]\<rparr>)"

text \<open>\<open>createAuthClients\<close> over the four constructors it calls, with the errors it wraps.\<close>

definition createAuthClients ::
  "'t res \<Rightarrow> 'z res \<Rightarrow> ('t \<Rightarrow> 'an res) \<Rightarrow> ('z \<Rightarrow> 'az res) \<Rightarrow> ('an \<times> 'az) res" where
  "createAuthClients newAuthnClient newAuthzClient newAuthenticator newAuthorizer =
     (case newAuthnClient of
        Inl err \<Rightarrow> Inl err
      | Inr t \<Rightarrow>
     (case newAuthzClient of
        Inl err \<Rightarrow> Inl err
      | Inr z \<Rightarrow>
     (case newAuthenticator t of
        Inl err \<Rightarrow> Inl (ErrWrap ''failed to create authenticator: '' err '''')
      | Inr an \<Rightarrow>
     (case newAuthorizer z of
        Inl err \<Rightarrow> Inl (ErrWrap ''failed to create authorizer: '' err '''')
      | Inr az \<Rightarrow> Inr (an, az)))))"

definition route_of :: "('v, 'n) gin \<Rightarrow> ('v, 'n) route list \<Rightarrow> request \<Rightarrow> ('v, 'n) handler list option" where
  "route_of G routes rq =
     (case gn_match G (map (\<lambda>(m, p, hs). (m, p)) routes) (rq_method rq) (rq_path rq) of
        None \<Rightarrow> None
      | Some (m, p) \<Rightarrow>
          map_option (\<lambda>(m, p, hs). hs) (find (\<lambda>(m', p', hs). (m', p') = (m, p)) routes))"

text \<open>One request, from a fresh context.\<close>

definition serve_request :: "('v, 'n) gin \<Rightarrow> ('v, 'n) server \<Rightarrow> request \<Rightarrow> ('v, 'n) http_state
     \<Rightarrow> gin_context \<times> ('v, 'n) http_state" where
  "serve_request G V rq s =
     (let c = \<lparr>cx_request = rq, cx_aborted = False, cx_writes = []\<rparr> in
      case route_of G (sv_routes V) rq of
        None \<Rightarrow> gn_notFound G c s
      | Some hs \<Rightarrow> gn_run G hs c s)"

text \<open>\<open>Start\<close>: how it listens. The list starts as \<open>h2\<close>; the options change it in order.\<close>

datatype listening = ListenTLS string "string list" string string | Listen string "string list"

definition server_listening :: "http_options \<Rightarrow> listening" where
  "server_listening opts =
     (let cfg = fold (\<lambda>f protos. f protos) (ho_TlsOpts opts) [''h2''] in
      if ho_Secure opts then
        ListenTLS (ho_BindAddress opts) cfg
          (path_Join [ho_CertDir opts, ho_CertName opts]) (path_Join [ho_CertDir opts, ho_KeyName opts])
      else Listen (ho_BindAddress opts) cfg)"

subsection \<open>The report route\<close>

lemma authorizationMiddleware_bus [simp]:
  "hs_bus (snd (authorizationMiddleware A c s)) = hs_bus s"
  by (simp add: authorizationMiddleware_def split: prod.split option.split)

definition granted :: "('u, 'n) auth \<Rightarrow> request \<Rightarrow> 'n \<Rightarrow> 'n option" where
  "granted A rq n =
     (case authenticate A rq n of
        ((user, True, None), n1) \<Rightarrow>
          (case authorize A (request_attributes user rq) n1 of
             ((DecisionAllow, reason, None), n2) \<Rightarrow> Some n2
           | _ \<Rightarrow> None)
      | _ \<Rightarrow> None)"

lemma middleware_granted:
  "granted A (cx_request c) (hs_auth s) = Some n \<Longrightarrow> authorizationMiddleware A c s = (c, s\<lparr>hs_auth := n\<rparr>)"
  by (auto simp: granted_def authorizationMiddleware_def
      split: prod.splits option.splits bool.splits decision.splits)

text \<open>A request that is not granted is aborted with one response, 401 or 403.\<close>

lemma middleware_refused:
  assumes "granted A (cx_request c) (hs_auth s) = None"
  shows "\<exists>n code msg. authorizationMiddleware A c s = (errorResponse code msg c, s\<lparr>hs_auth := n\<rparr>)
    \<and> code \<in> {401, 403}"
  using assms
  by (cases "authenticate A (cx_request c) (hs_auth s)")
     (fastforce simp: granted_def authorizationMiddleware_def
        split: prod.splits option.splits bool.splits decision.splits if_splits)

lemma report_route:
  assumes "gin_engine G" "NewServer (Inr A) J opts = Inr V"
    and "rq_method rq = ''POST''" "rq_path rq = report_path"
  shows "route_of G (sv_routes V) rq = Some [authorizationMiddleware A, scheduleReport J]"
  using assms(2-) gin_engine.match_exact [OF assms(1), of "''POST''" report_path "[(''GET'', ''/health''), (''POST'', report_path)]"]
  by (auto simp: NewServer_def route_of_def)

lemma health_route:
  assumes "gin_engine G" "NewServer (Inr A) J opts = Inr V"
    and "rq_method rq = ''GET''" "rq_path rq = ''/health''"
  shows "route_of G (sv_routes V) rq = Some [health]"
  using assms(2-) gin_engine.match_exact [OF assms(1), of "''GET''" "''/health''" "[(''GET'', ''/health''), (''POST'', report_path)]"]
  by (auto simp: NewServer_def route_of_def)

lemma no_route:
  assumes "gin_engine G" "NewServer (Inr A) J opts = Inr V"
    and "(rq_method rq, rq_path rq) \<notin> {(''GET'', ''/health''), (''POST'', report_path)}"
  shows "route_of G (sv_routes V) rq = None"
  using assms(2,3) gin_engine.match_None [OF assms(1), of "rq_method rq" "rq_path rq" "[(''GET'', ''/health''), (''POST'', report_path)]"]
  by (auto simp: NewServer_def route_of_def)

lemma run_report:
  fixes G :: "('v, 'n) gin"
  assumes "gin_engine G" "\<not> cx_aborted c" "cx_writes c = []"
  shows "gn_run G [authorizationMiddleware A, scheduleReport J] c s =
    (case granted A (cx_request c) (hs_auth s) of
       None \<Rightarrow> authorizationMiddleware A c s
     | Some n \<Rightarrow> scheduleReport J c (s\<lparr>hs_auth := n\<rparr>))"
proof (cases "granted A (cx_request c) (hs_auth s)")
  case None
  from middleware_refused [OF this] obtain n code msg where
    "authorizationMiddleware A c s = (errorResponse code msg c, s\<lparr>hs_auth := n\<rparr>)" by blast
  with None show ?thesis
    by (simp add: gin_engine.run_Cons [OF assms(1)] errorResponse_def c_JSON_def)
next
  case (Some n)
  then show ?thesis
    using assms(2)
    by (simp add: gin_engine.run_Cons [OF assms(1)] gin_engine.run_Nil [OF assms(1)] middleware_granted
        split: prod.split)
qed

subsection \<open>Reference libraries\<close>

fun ref_chain :: "('v, 'n) handler list \<Rightarrow> ('v, 'n) handler" where
  "ref_chain [] c s = (c, s)"
| "ref_chain (h # hs) c s = (let (c1, s1) = h c s in if cx_aborted c1 then (c1, s1) else ref_chain hs c1 s1)"

definition ref_gin :: "('v, 'n) gin" where
  "ref_gin = \<lparr>gn_match = (\<lambda>rs m p. if (m, p) \<in> set rs then Some (m, p) else None), gn_run = ref_chain,
              gn_notFound = (\<lambda>c s. (errorResponse 404 ''404 page not found'' c, s))\<rparr>"

lemma ref_gin_run: "gn_run ref_gin = ref_chain"
  by (simp add: ref_gin_def)

interpretation refg: gin_engine ref_gin
proof
  show "gn_run ref_gin (h # hs) c s =
      (let (c1, s1) = h c s in if cx_aborted c1 then (c1, s1) else gn_run ref_gin hs c1 s1)" for h hs c s
    unfolding ref_gin_run by simp
qed (auto simp: ref_gin_def errorResponse_def c_JSON_def split: if_splits)

text \<open>The user is the value of the header \<open>Authorization\<close>; \<open>admin\<close> may do everything, others nothing.\<close>

definition ref_auth :: "(string, unit) auth" where
  "ref_auth = \<lparr>authenticate = (\<lambda>rq n. (case map_of (rq_headers rq) ''Authorization'' of
       None \<Rightarrow> ([], False, None) | Some u \<Rightarrow> (u, True, None), n)),
     authorize = (\<lambda>a n. ((if at_user a = ''admin'' then DecisionAllow else DecisionNoOpinion, [], None), n)),
     user_name = (\<lambda>u. u)\<rparr>"

definition demo_options :: http_options where
  "demo_options = \<lparr>ho_BindAddress = '':7443'', ho_Secure = True, ho_CertDir = ''/certs'', ho_CertName = ''tls.crt'',
     ho_KeyName = ''tls.key'', ho_TlsOpts = [\<lambda>protos. [''http/1.1'']], ho_DevelopmentMode = False\<rparr>"

definition demo_server :: "(rval, unit) server" where
  "demo_server = \<lparr>sv_opts = demo_options, sv_routes = [(''GET'', ''/health'', [health]),
     (''POST'', report_path, [authorizationMiddleware ref_auth, scheduleReport ref_jlib])]\<rparr>"

lemma demo_server: "NewServer (Inr ref_auth) ref_jlib demo_options = Inr demo_server"
  by (simp add: NewServer_def demo_server_def)

definition demo_request :: "string \<Rightarrow> string \<Rightarrow> request" where
  "demo_request user body = \<lparr>rq_method = ''POST'', rq_path = report_path,
     rq_headers = [(''Authorization'', user)], rq_body = body\<rparr>"

lemmas demo_http = demo_request_def ref_auth_def granted_def request_attributes_def

subsection \<open>Properties of the server\<close>

text \<open>
  Only an authenticated and authorized request reaches the scheduler. Whatever the method, path,
  headers and body of a request, the server puts an event on the bus exactly when it is a \<open>POST\<close> to
  the report path, the authenticator accepts it without an error, the authorizer allows the verb and
  path to that user without an error, and the body decodes; and then exactly one event, with exactly
  the reports of the body.
\<close>

theorem event_only_if_authorized:
  fixes G :: "('v, 'n) gin"
  assumes "gin_engine G" "NewServer (Inr A) J opts = Inr V"
  shows "hs_bus (snd (serve_request G V rq s)) = hs_bus s @
    (case decode_reports_stream J (rq_body rq) of
       (reports, err) \<Rightarrow>
         if rq_method rq = ''POST'' \<and> rq_path rq = report_path \<and> granted A rq (hs_auth s) \<noteq> None \<and> err = None
         then [reports] else [])"
proof -
  let ?c = "\<lparr>cx_request = rq, cx_aborted = False, cx_writes = []\<rparr>"
  consider (report) "rq_method rq = ''POST''" "rq_path rq = report_path"
    | (health) "rq_method rq = ''GET''" "rq_path rq = ''/health''"
    | (other) "(rq_method rq, rq_path rq) \<notin> {(''GET'', ''/health''), (''POST'', report_path)}" by auto
  then show ?thesis
  proof cases
    case report
    have "serve_request G V rq s = gn_run G [authorizationMiddleware A, scheduleReport J] ?c s"
      using report_route [OF assms report] by (simp add: serve_request_def)
    with run_report [OF assms(1), of ?c A J s] report show ?thesis
      by (auto simp: scheduleReport_def split: option.split prod.split)
  next
    case health
    have "serve_request G V rq s = gn_run G [Http_Server.health] ?c s"
      using health_route [OF assms health] by (simp add: serve_request_def)
    with gin_engine.run_one [OF assms(1)] health show ?thesis by (simp add: health_def split: prod.split)
  next
    case other
    then have "serve_request G V rq s = gn_notFound G ?c s"
      using no_route [OF assms other] by (simp add: serve_request_def)
    with gin_engine.notFound_bus [OF assms(1)] other show ?thesis by (auto split: prod.split)
  qed
qed

theorem event_only_if_authorized_witness:
  "hs_bus (snd (serve_request ref_gin demo_server (demo_request ''admin'' ''reports'') \<lparr>hs_auth = (), hs_bus = []\<rparr>))
     = [[[''_ACTION_ID'' \<mapsto> AString ''1'']]]
   \<and> hs_bus (snd (serve_request ref_gin demo_server (demo_request ''eve'' ''reports'') \<lparr>hs_auth = (), hs_bus = []\<rparr>)) = []"
proof -
  have d: "decode_reports_stream ref_jlib ''reports'' = ([[''_ACTION_ID'' \<mapsto> AString ''1'']] :: rval report list, None)"
    by (simp add: decode_reports_stream_def decode_reports_def decode_report_def number_error_def
        first_error_def ref_jlib_def)
  note e = event_only_if_authorized [OF refg.gin_engine_axioms demo_server]
  show ?thesis
    unfolding e using d by (simp add: demo_http)
qed

text \<open>
  C40. A request to the report endpoint gets exactly one response, whose status tells how far it came:
  401 or 403 when it was not granted, 400 when the body does not decode, and 200 with the number of
  reports when they are on the bus. The answer is given before any of them is processed, and depends
  on the request and the two decisions alone.
\<close>

theorem report_response:
  fixes G :: "('v, 'n) gin"
  assumes "gin_engine G" "NewServer (Inr A) J opts = Inr V"
    and "rq_method rq = ''POST''" "rq_path rq = report_path"
  shows "\<exists>code msg. cx_writes (fst (serve_request G V rq s)) = [(code, ApiResponse code msg)]
    \<and> (if granted A rq (hs_auth s) = None then code \<in> {401, 403}
       else (case decode_reports_stream J (rq_body rq) of
               (reports :: 'v report list, err) \<Rightarrow>
                 if err \<noteq> None then code = 400 \<and> msg = ''unable to parse request''
                 else code = 200 \<and> msg = ''processed '' @ show_nat (length reports) @ '' reports''))"
proof -
  let ?c = "\<lparr>cx_request = rq, cx_aborted = False, cx_writes = []\<rparr>"
  have r: "serve_request G V rq s = gn_run G [authorizationMiddleware A, scheduleReport J] ?c s"
    using report_route [OF assms] by (simp add: serve_request_def)
  show ?thesis
  proof (cases "granted A rq (hs_auth s)")
    case None
    with middleware_refused [of A ?c s] obtain n code msg where
      "authorizationMiddleware A ?c s = (errorResponse code msg ?c, s\<lparr>hs_auth := n\<rparr>)" "code \<in> {401, 403}"
      by auto
    with None r run_report [OF assms(1), of ?c A J s] show ?thesis
      by (auto simp: errorResponse_def c_JSON_def)
  next
    case (Some n)
    with r run_report [OF assms(1), of ?c A J s] show ?thesis
      by (auto simp: scheduleReport_def errorResponse_def c_JSON_def split: prod.split option.split)
  qed
qed

theorem report_response_witness:
  "\<exists>code msg. cx_writes (fst (serve_request ref_gin demo_server (demo_request ''eve'' ''x'') \<lparr>hs_auth = (), hs_bus = []\<rparr>))
     = [(code, ApiResponse code msg)] \<and> code \<in> {401, 403}"
  using report_response [OF refg.gin_engine_axioms demo_server, of "demo_request ''eve'' ''x''" "\<lparr>hs_auth = (), hs_bus = []\<rparr>"]
  by (simp add: demo_http)

text \<open>
  The health endpoint needs no authentication and touches nothing: the answer is 200 in every state,
  and neither the authenticator nor the bus is used.
\<close>

theorem health_is_open:
  assumes "gin_engine G" "NewServer (Inr A) J opts = Inr V"
    and "rq_method rq = ''GET''" "rq_path rq = ''/health''"
  shows "serve_request G V rq s =
    (\<lparr>cx_request = rq, cx_aborted = False, cx_writes = [(200, Health ''ok'')]\<rparr>, s)"
  using health_route [OF assms] gin_engine.run_one [OF assms(1)]
  by (simp add: serve_request_def health_def c_JSON_def)

theorem health_is_open_witness:
  "cx_writes (fst (serve_request ref_gin demo_server
     \<lparr>rq_method = ''GET'', rq_path = ''/health'', rq_headers = [], rq_body = []\<rparr> \<lparr>hs_auth = (), hs_bus = []\<rparr>))
   = [(200, Health ''ok'')]"
  by (subst health_is_open [OF refg.gin_engine_axioms demo_server]) simp_all

end
