(* ===== verification/Intake.thy ===== *)
theory Intake
  imports Open_System Http_Server
begin

section \<open>The process and its HTTP server\<close>

text \<open>
  The open system with the server of \<^verbatim>\<open>internal/reports/httpserver\<close> in it: what enters the bus through HTTP is what the handlers of
  the server put there for a request, in the state of the authenticator at that moment. With it, every change that the process
  makes to the cluster can be followed back to a message of the queue or to a request that was allowed.
\<close>

subsection \<open>Steps\<close>

text \<open>
  \<open>Request rq\<close>: the chain of handlers runs up to \<open>Enqueue\<close>, in which its goroutine then waits (\<open>sy_http\<close>, \<open>AHttpSend\<close>);
  \<open>Tokens n\<close>: the API server's accounts and roles change. \<open>ap_served\<close> is a history of the requests, each with the
  state of the authenticator that it met.
\<close>

record ('v, 'c, 'w, 'q, 'n) app =
  ap_sys :: "('v, 'c, 'w, 'q) sys"
  ap_auth :: 'n
  ap_served :: "(request \<times> 'n) list"

datatype ('v, 'x, 'w, 'q, 'n) app_action =
    Step "('v, 'x, 'w, 'q) open_action"
  | Request request
  | Tokens 'n

fun from_handler :: "('v, 'x, 'w, 'q) open_action \<Rightarrow> bool" where
  "from_handler (Own (AHttp rs)) = True"
| "from_handler _ = False"

fun app_exec ::
  "('v, 'n) gin \<Rightarrow> ('v, 'n) server \<Rightarrow> ('v, 'q) listener \<Rightarrow> ('a, 'p, 'v, 'c, 'w, 'x) scheduler \<Rightarrow> 'x policy set
     \<Rightarrow> ('v, 'x, 'w, 'q, 'n) app_action \<Rightarrow> ('v, 'c, 'w, 'q, 'n) app \<Rightarrow> ('v, 'c, 'w, 'q, 'n) app option" where
  "app_exec G V L S R (Step a) x =
     (if from_handler a then None
      else map_option (\<lambda>s. x\<lparr>ap_sys := s\<rparr>) (open_exec L S R a (ap_sys x)))"
| "app_exec G V L S R (Request rq) x =
     (if crashed (sy_main (ap_sys x)) then None
      else
        (let s = ap_sys x; h = snd (serve_request G V rq \<lparr>hs_auth = ap_auth x, hs_bus = []\<rparr>) in
         Some (x\<lparr>ap_sys := s\<lparr>sy_http := sy_http s @ hs_bus h\<rparr>, ap_auth := hs_auth h,
                 ap_served := ap_served x @ [(rq, ap_auth x)]\<rparr>)))"
| "app_exec G V L S R (Tokens n) x = Some (x\<lparr>ap_auth := n\<rparr>)"

definition app_init :: "(('v, 'c, 'w, 'q) sys \<Rightarrow> bool) \<Rightarrow> ('v, 'c, 'w, 'q, 'n) app \<Rightarrow> bool" where
  "app_init init x \<longleftrightarrow> init (ap_sys x) \<and> ap_served x = []"

subsection \<open>Where events come from\<close>

text \<open>What the handlers wait to send, and what they sent, all has a property.\<close>

definition sent_from :: "('v report list \<Rightarrow> bool) \<Rightarrow> ('v, 'c, 'w, 'q) sys \<Rightarrow> bool" where
  "sent_from ok s \<longleftrightarrow> (\<forall>rs \<in> set (sy_http s). ok rs) \<and> (\<forall>n rs. Sent n None rs \<in> set (sy_log s) \<longrightarrow> ok rs)"

lemma sent_from_frame:
  "sent_from ok s \<Longrightarrow> sy_http s' = sy_http s \<Longrightarrow> set (sy_log s') \<subseteq> set (sy_log s) \<union> {h. \<forall>n rs. h \<noteq> Sent n None rs}
   \<Longrightarrow> sent_from ok s'"
  unfolding sent_from_def by fastforce

lemma sent_from_exec:
  assumes "sent_from ok s" "exec L S a s = Some s'" "\<And>rs. a = AHttp rs \<Longrightarrow> ok rs"
  shows "sent_from ok s'"
  using assms(2)
proof (cases rule: exec_cases)
  case poll
  then show ?thesis using assms(1) by (cases rule: poll_step_cases [of s L]) (auto intro: sent_from_frame)
next
  case (batch msgs)
  then show ?thesis using assms(1) by (cases rule: batch_step_cases [of msgs L s]) (auto intro: sent_from_frame)
next
  case (http rs)
  then show ?thesis using assms(1,3) by (auto simp: sent_from_def)
next
  case (http_send i)
  then have "set (sy_http s') \<subseteq> set (sy_http s)" "ok (sy_http s ! i)"
    using assms(1) set_remove_nth by (fastforce simp: bus_send_def sent_from_def)+
  with http_send assms(1) show ?thesis by (auto simp: sent_from_def bus_send_def)
qed (use assms(1) in \<open>auto simp: bus_send_def sched_step_def await_step_def delete_step_def split_beta Let_def
       intro!: sent_from_frame [of ok s]\<close>)

lemma sent_from_open:
  assumes "sent_from ok s" "open_exec L S R a s = Some s'" "\<not> from_handler a"
  shows "sent_from ok s'"
  using assms(2)
proof (cases rule: open_exec_cases)
  case (own b)
  from own(2) show ?thesis by (rule sent_from_exec [OF assms(1)]) (use own(1) assms(3) in auto)
qed (use assms(1) in \<open>auto intro: sent_from_frame\<close>)

text \<open>A request that was allowed to post these reports.\<close>

definition allowed_post :: "('u, 'n) auth \<Rightarrow> jlib \<Rightarrow> (request \<times> 'n) list \<Rightarrow> 'v report list \<Rightarrow> bool" where
  "allowed_post A J served rs \<longleftrightarrow>
     (\<exists>(rq, n) \<in> set served. rq_method rq = ''POST'' \<and> rq_path rq = report_path \<and> granted A rq n \<noteq> None
        \<and> decode_reports_stream J (rq_body rq) = (rs, None))"

text \<open>An event of a message, or of such a request.\<close>

fun justified ::
  "('v, 'q) listener \<Rightarrow> ('u, 'n) auth \<Rightarrow> jlib \<Rightarrow> (request \<times> 'n) list \<Rightarrow> message option \<Rightarrow> 'v report list \<Rightarrow> bool" where
  "justified L A J served (Some m) rs = parsed_to L m rs"
| "justified L A J served None rs = allowed_post A J served rs"

lemma allowed_post_mono: "allowed_post A J served rs \<Longrightarrow> set served \<subseteq> set served' \<Longrightarrow> allowed_post A J served' rs"
  unfolding allowed_post_def by blast

lemma sent_from_mono: "sent_from ok s \<Longrightarrow> (\<And>rs. ok rs \<Longrightarrow> ok' rs) \<Longrightarrow> sent_from ok' s"
  unfolding sent_from_def by blast

text \<open>What a request does to the process is what steps of the open system do.\<close>

lemma http_steps:
  assumes "\<not> crashed (sy_main s)"
  shows "run_acts (open_exec L S R) (map (\<lambda>rs. Own (AHttp rs)) bus) s = Some (s\<lparr>sy_http := sy_http s @ bus\<rparr>)"
  using assms
proof (induction bus arbitrary: s)
  case Nil
  then show ?case by simp
next
  case (Cons rs bus)
  have "exec L S (AHttp rs) s = Some (s\<lparr>sy_http := sy_http s @ [rs]\<rparr>)"
    using Cons.prems by (cases "sy_main s") (simp_all add: exec.simps)
  with Cons.IH [of "s\<lparr>sy_http := sy_http s @ [rs]\<rparr>"] Cons.prems show ?case by simp
qed

lemma app_reach_open:
  assumes "reach (app_init init) (app_exec G V L S R) x"
  shows "reach init (open_exec L S R) (ap_sys x)"
  using assms
proof (induction rule: reach.induct)
  case (start x)
  then show ?case by (auto simp: app_init_def intro: reach.start)
next
  case (move x x')
  from move.hyps(2) obtain a where a: "app_exec G V L S R a x = Some x'" by (rule step_ofE)
  show ?case
  proof (cases a)
    case (Step b)
    with a have "open_exec L S R b (ap_sys x) = Some (ap_sys x')" by (auto split: if_splits)
    then show ?thesis by (rule reach.move [OF move.IH step_of.act])
  next
    case (Request rq)
    let ?bus = "hs_bus (snd (serve_request G V rq \<lparr>hs_auth = ap_auth x, hs_bus = []\<rparr>))"
    from a Request have "\<not> crashed (sy_main (ap_sys x))" "ap_sys x' = (ap_sys x)\<lparr>sy_http := sy_http (ap_sys x) @ ?bus\<rparr>"
      by (auto simp: Let_def split: if_splits)
    with http_steps [of "ap_sys x" L S R ?bus] run_acts_reach [OF move.IH] show ?thesis by metis
  next
    case (Tokens n)
    with a move.IH show ?thesis by auto
  qed
qed

locale intake = open_system S contents R + gin_engine G
  for S :: "('a, 'p, 'v, 'c, 'w, 'x) scheduler" and contents :: "'c \<Rightarrow> (string \<rightharpoonup> 'p cached)" and R :: "'x policy set"
    and G :: "('v, 'n) gin" +
  fixes A :: "('u, 'n) auth" and J :: jlib and opts :: http_options and V :: "('v, 'n) server"
  assumes built: "NewServer (Inr A) J opts = Inr V"
begin

lemma request_allowed:
  assumes "rs \<in> set (hs_bus (snd (serve_request G V rq \<lparr>hs_auth = n, hs_bus = []\<rparr>)))"
  shows "allowed_post A J (served @ [(rq, n)]) rs"
  using assms event_only_if_authorized [OF gin_engine_axioms built, of rq "\<lparr>hs_auth = n, hs_bus = []\<rparr>"]
  by (auto simp: allowed_post_def split: prod.splits if_splits)

lemma traced_step:
  assumes "sent_from (allowed_post A J (ap_served x)) (ap_sys x)" "app_exec G V L S R a x = Some x'"
  shows "sent_from (allowed_post A J (ap_served x')) (ap_sys x')"
proof (cases a)
  case (Step b)
  with assms(2) obtain s where s: "open_exec L S R b (ap_sys x) = Some s" "x' = x\<lparr>ap_sys := s\<rparr>" "\<not> from_handler b"
    by (auto split: if_splits)
  from sent_from_open [OF assms(1) s(1,3)] s(2) show ?thesis by simp
next
  case (Request rq)
  let ?served = "ap_served x @ [(rq, ap_auth x)]"
  from assms(1) have "sent_from (allowed_post A J ?served) (ap_sys x)"
    by (rule sent_from_mono) (auto intro: allowed_post_mono)
  with assms(2) Request request_allowed [of _ rq "ap_auth x" "ap_served x"] show ?thesis
    by (auto simp: sent_from_def Let_def split: if_splits)
qed (use assms in auto)

end

sublocale intake \<subseteq> traced: inductive_invariant
  "app_init (\<lambda>s. sys_init s \<and> inv (st_cache (sy_state s)))" "app_exec G V L S R"
  "\<lambda>x. sent_from (allowed_post A J (ap_served x)) (ap_sys x)" for L
proof
  show "app_init (\<lambda>s. sys_init s \<and> inv (st_cache (sy_state s))) x \<Longrightarrow> sent_from (allowed_post A J (ap_served x)) (ap_sys x)" for x
    by (simp add: app_init_def sent_from_def sys_init_def)
qed (rule traced_step)

context intake begin

lemma event_justified:
  assumes "reach (app_init (\<lambda>s. sys_init s \<and> inv (st_cache (sy_state s)))) (app_exec G V L S R) x"
    and "Sent n src rs \<in> set (sy_log (ap_sys x))"
  shows "justified L A J (ap_served x) src rs"
proof (cases src)
  case None
  with traced.reach_inv [OF assms(1)] assms(2) show ?thesis by (auto simp: sent_from_def)
next
  case (Some m)
  have "reach sys_init (open_exec L S R) (ap_sys x)"
    by (rule reach_mono [OF app_reach_open [OF assms(1)]]) simp
  from open_safe.open_reach [OF this] Some assms(2) show ?thesis
    by (auto simp: sys_ok_def log_ok_def)
qed

lemma world_change:
  assumes "reach (app_init (\<lambda>s. sys_init s \<and> inv (st_cache (sy_state s)))) (app_exec G V L S R) x"
    and "app_exec G V L S R a x = Some x'" "\<And>w. a \<noteq> Step (Cluster w)"
    and "st_world (sy_state (ap_sys x')) \<noteq> st_world (sy_state (ap_sys x))"
  shows "\<exists>src rs n err. sy_sched (ap_sys x) = SBusy rs n \<and> Sent n src rs \<in> set (sy_log (ap_sys x))
     \<and> justified L A J (ap_served x) src rs
     \<and> event_spec S rs (st_world (sy_state (ap_sys x))) = (err, st_world (sy_state (ap_sys x')))"
proof -
  note r = app_reach_open [OF assms(1)]
  obtain b where b: "a = Step (Own b)" "exec L S b (ap_sys x) = Some (ap_sys x')"
    using assms(2-4)
  proof (cases a)
    case (Step c)
    with assms(2) have "open_exec L S R c (ap_sys x) = Some (ap_sys x')" by (auto split: if_splits)
    then show ?thesis
      using assms(3,4) Step that by (cases rule: open_exec_cases) auto
  qed (auto simp: Let_def split: if_splits)
  have "b = ASched" using own_step(1) [OF r b(2)] assms(4) by blast
  from own_step(2) [OF r b(2) this] obtain rs n err where
    e: "sy_sched (ap_sys x) = SBusy rs n"
    "event_spec S rs (st_world (sy_state (ap_sys x))) = (err, st_world (sy_state (ap_sys x')))" by blast
  have "reach sys_init (open_exec L S R) (ap_sys x)" by (rule reach_mono [OF r]) simp
  from open_safe.open_reach [OF this] e(1) obtain src where "Sent n src rs \<in> set (sy_log (ap_sys x))"
    unfolding sys_ok_def by blast
  with e event_justified [OF assms(1)] show ?thesis by blast
qed

end

lemma intakeI:
  assumes "compiler_model (policyCompiler S) contents R" "lists_served (mgrClient S) R"
    and "gin_engine G" "NewServer (Inr A) J opts = Inr V"
  shows "intake S contents R G A J opts V"
  using assms by (simp add: intake_def intake_axioms_def open_system_def open_system_axioms_def)

interpretation one_intake: intake "ref_scheduler thr mx [one_policy]" lc_contents "{one_policy}"
  ref_gin ref_auth ref_jlib demo_options demo_server for thr mx
  by (rule intakeI [OF one_open.compiler_model_axioms(1) one_open.open_listed refg.gin_engine_axioms demo_server])

subsection \<open>Properties\<close>

text \<open>
  Whatever the process does to the cluster, it does for a message of the queue or for a request that was allowed. In every
  reachable state of the process with its HTTP server, over any requests, changes of accounts and roles, of the queue and of
  the cluster by others, and the reconciler at work: when a step other than those of others changes the cluster, it is the scheduler's, with an event that was
  sent for a message which the parser had made exactly these reports of without an error, or by the handler of an earlier request,
  a \<open>POST\<close> to the report path that the authenticator accepted and the authorizer allowed at that moment, whose body decodes to
  exactly these reports; and the change is what the specification says.
\<close>

theorem cluster_changes_are_justified:
  assumes "compiler_model (policyCompiler S) contents R" "lists_served (mgrClient S) R"
    and "gin_engine G" "NewServer (Inr A) J opts = Inr V"
    and "reach (app_init (\<lambda>s. sys_init s \<and> coherent (comp_env (policyCompiler S)) R (contents (st_cache (sy_state s)))))
           (app_exec G V L S R) x"
    and "app_exec G V L S R a x = Some x'" "\<And>w. a \<noteq> Step (Cluster w)"
    and "st_world (sy_state (ap_sys x')) \<noteq> st_world (sy_state (ap_sys x))"
  shows "\<exists>src rs n err. sy_sched (ap_sys x) = SBusy rs n \<and> Sent n src rs \<in> set (sy_log (ap_sys x))
     \<and> justified L A J (ap_served x) src rs
     \<and> event_spec S rs (st_world (sy_state (ap_sys x))) = (err, st_world (sy_state (ap_sys x')))"
  by (rule intake.world_change [OF intakeI [OF assms(1-4)] assms(5-8)])

definition demo_app ::
  "(rval, string cached list_cache, unit pipeline list, message list, unit) app" where
  "demo_app = \<lparr>ap_sys = demo_sys [], ap_auth = (), ap_served = []\<rparr>"

abbreviation demo_app_exec ::
  "(rval, unit, unit pipeline list, message list, unit) app_action
     \<Rightarrow> (rval, string cached list_cache, unit pipeline list, message list, unit) app
     \<Rightarrow> (rval, string cached list_cache, unit pipeline list, message list, unit) app option" where
  "demo_app_exec \<equiv> app_exec ref_gin demo_server ref_listener one_scheduler {one_policy}"

lemma demo_bus:
  "hs_bus (snd (serve_request ref_gin demo_server (demo_request ''admin'' ''reports'') \<lparr>hs_auth = (), hs_bus = []\<rparr>))
     = [[[''_ACTION_ID'' \<mapsto> AString ''1'']]]"
  "hs_bus (snd (serve_request ref_gin demo_server (demo_request ''eve'' ''reports'') \<lparr>hs_auth = (), hs_bus = []\<rparr>)) = []"
proof -
  have "decode_reports_stream ref_jlib ''reports'' = ([[''_ACTION_ID'' \<mapsto> AString ''1'']] :: rval report list, None)"
    by (simp add: decode_reports_stream_def decode_reports_def decode_report_def number_error_def
        first_error_def ref_jlib_def)
  note d = this event_only_if_authorized [OF refg.gin_engine_axioms demo_server]
  show "hs_bus (snd (serve_request ref_gin demo_server (demo_request ''admin'' ''reports'') \<lparr>hs_auth = (), hs_bus = []\<rparr>))
     = [[[''_ACTION_ID'' \<mapsto> AString ''1'']]]"
    unfolding d(2) using d(1) by (simp add: demo_http)
  show "hs_bus (snd (serve_request ref_gin demo_server (demo_request ''eve'' ''reports'') \<lparr>hs_auth = (), hs_bus = []\<rparr>)) = []"
    unfolding d(2) by (simp add: demo_http split: prod.split)
qed

theorem cluster_changes_are_justified_witness:
  "\<exists>x x' rs err. run_acts demo_app_exec
         [Request (demo_request ''eve'' ''reports''), Request (demo_request ''admin'' ''reports''), Step (Own (AHttpSend 0))]
         demo_app = Some x
     \<and> demo_app_exec (Step (Own ASched)) x = Some x'
     \<and> st_world (sy_state (ap_sys x)) = [] \<and> length (st_world (sy_state (ap_sys x'))) = 1
     \<and> sy_http (ap_sys x) = [] \<and> allowed_post ref_auth ref_jlib (ap_served x) rs
     \<and> event_spec one_scheduler rs [] = (err, st_world (sy_state (ap_sys x')))"
proof -
  let ?acts = "[Request (demo_request ''eve'' ''reports''), Request (demo_request ''admin'' ''reports''), Step (Own (AHttpSend 0))]"
  let ?rs = "[[''_ACTION_ID'' \<mapsto> AString ''1'']]"
  have "\<exists>x x'. run_acts demo_app_exec ?acts demo_app = Some x \<and> demo_app_exec (Step (Own ASched)) x = Some x'
     \<and> st_world (sy_state (ap_sys x)) = [] \<and> length (st_world (sy_state (ap_sys x'))) = 1
     \<and> sy_http (ap_sys x) = [] \<and> sy_log (ap_sys x) = [Sent 0 None ?rs]"
    by (simp add: demo_app_def demo_bus one_run)
  then obtain x x' where x: "run_acts demo_app_exec ?acts demo_app = Some x" "demo_app_exec (Step (Own ASched)) x = Some x'"
    "st_world (sy_state (ap_sys x)) = []" "length (st_world (sy_state (ap_sys x'))) = 1"
    "sy_http (ap_sys x) = []" "sy_log (ap_sys x) = [Sent 0 None ?rs]" by blast
  let ?init = "app_init (\<lambda>s. sys_init s
     \<and> coherent (comp_env (policyCompiler one_scheduler)) {one_policy} (lc_contents (st_cache (sy_state s))))"
  have "?init demo_app" using one_cache by (simp add: app_init_def demo_app_def)
  then have "reach ?init demo_app_exec demo_app" by (rule reach.start)
  from run_acts_reach [OF this x(1)] have r: "reach ?init demo_app_exec x" .
  have "st_world (sy_state (ap_sys x')) \<noteq> st_world (sy_state (ap_sys x))" using x(3,4) by auto
  from cluster_changes_are_justified [OF one_laws refg.gin_engine_axioms demo_server r x(2) _ this] x show ?thesis
    by fastforce
qed

end
