(* ===== verification/Cache_Transparency.thy ===== *)
theory Cache_Transparency
  imports Open_System
begin

section \<open>The scheduler with and without its cache\<close>

text \<open>
  The cache of compiled policies is an optimisation: the scheduler that compiles every policy afresh, each time, is
  the reference, and the one of \<^verbatim>\<open>internal/reports\<close> is equal to it in everything that can be seen: results, calls to
  the API server in their order, recorded events, metrics. Nothing is asked of the API server but that it lists
  policies that it serves; so this holds also while others change the cluster between any two calls of an event,
  which a client can express (\<open>amid\<close>).
\<close>

subsection \<open>The reference\<close>

text \<open>A cache that keeps nothing.\<close>

definition no_lru :: "(unit, 'e) lru" where
  "no_lru = \<lparr>lru_new = (\<lambda>n. ()), lru_get = (\<lambda>c k. (None, ())), lru_add = (\<lambda>c k e. ()),
     lru_remove = (\<lambda>c k. ()), lru_clear = (\<lambda>c. ())\<rparr>"

definition uncached :: "('a, 'p, 'v, 'c, 'w, 'x) scheduler \<Rightarrow> ('a, 'p, 'v, unit, 'w, 'x) scheduler" where
  "uncached S = \<lparr>rejectPipelineThreshold = rejectPipelineThreshold S, maxPipelinesPerPolicy = maxPipelinesPerPolicy S,
     mgrClient = mgrClient S, policyCompiler = \<lparr>comp_env = comp_env (policyCompiler S), comp_lru = no_lru\<rparr>,
     isConditionTrue = isConditionTrue S\<rparr>"

definition forget :: "('c, 'w) sstate \<Rightarrow> (unit, 'w) sstate" where
  "forget st = \<lparr>st_cache = (), st_world = st_world st, st_events = st_events st, st_metrics = st_metrics st\<rparr>"

lemma uncached_simps [simp]:
  "rejectPipelineThreshold (uncached S) = rejectPipelineThreshold S"
  "maxPipelinesPerPolicy (uncached S) = maxPipelinesPerPolicy S" "mgrClient (uncached S) = mgrClient S"
  "comp_env (policyCompiler (uncached S)) = comp_env (policyCompiler S)"
  "isConditionTrue (uncached S) = isConditionTrue S"
  by (simp_all add: uncached_def)

lemma Get_uncached: "Get (policyCompiler (uncached S)) p c = (compile (comp_env (policyCompiler S)) p, ())"
  by (simp add: uncached_def Get_def no_lru_def compile_and_add_def split: sum.split)

lemma forget_simps [simp]:
  "st_world (forget st) = st_world st" "st_events (forget st) = st_events st" "st_metrics (forget st) = st_metrics st"
  "st_cache (forget st) = ()"
  "forget (st\<lparr>st_world := w\<rparr>) = (forget st)\<lparr>st_world := w\<rparr>" "forget (st\<lparr>st_metrics := m\<rparr>) = (forget st)\<lparr>st_metrics := m\<rparr>"
  "forget (st\<lparr>st_cache := c\<rparr>) = forget st" "(forget st)\<lparr>st_cache := u\<rparr> = forget st"
  by (simp_all add: forget_def)

lemma forget_call: "call f (forget st) = (fst (call f st), forget (snd (call f st)))"
  by (simp add: call_def split_beta Let_def)

lemma forget_Eventf: "Eventf p t r a n (forget st) = forget (Eventf p t r a n st)"
  by (simp add: Eventf_def forget_def)

lemma forget_metrics: "(forget st)\<lparr>st_metrics := m\<rparr> = forget (st\<lparr>st_metrics := m\<rparr>)"
  by simp

lemmas forgetting = forget_call forget_Eventf

text \<open>Operations that do not look at the cache.\<close>

lemma forget_threshold:
  "check_threshold (uncached S) (forget st) = (fst (check_threshold S st), forget (snd (check_threshold S st)))"
proof -
  have c: "countActivePipelines (uncached S) = countActivePipelines S" by (simp add: countActivePipelines_def fun_eq_iff)
  show ?thesis
    by (simp add: check_threshold_def c forget_call split_beta Let_def split: sum.split)
qed

lemma forget_create_group:
  "create_group (uncached S) g i ps (forget st) =
     (fst (create_group S g i ps st), forget (snd (create_group S g i ps st)))"
proof (induction ps arbitrary: i st)
  case Nil
  then show ?case by simp
next
  case (Cons p ps)
  show ?case
    by (simp add: forgetting Cons.IH forget_metrics split_beta Let_def del: forget_simps(6) split: sum.split)
qed

lemma forget_create_all:
  "create_all (uncached S) gs created (forget st) =
     (fst (create_all S gs created st), forget (snd (create_all S gs created st)))"
  by (induction gs arbitrary: created st) (simp_all add: forget_create_group forgetting split_beta Let_def)


lemma validity_uncached [simp]:
  "isDownloaderValid (uncached S) = isDownloaderValid S" "isProfileValid (uncached S) = isProfileValid S"
  by (simp_all add: isDownloaderValid_def isProfileValid_def fun_eq_iff Let_def)

text \<open>Two functions on states that are one function on what is left without the cache.\<close>

definition blind :: "(('c, 'w) sstate \<Rightarrow> 'r \<times> ('c, 'w) sstate) \<Rightarrow> ((unit, 'w) sstate \<Rightarrow> 'r \<times> (unit, 'w) sstate) \<Rightarrow> ('c, 'w) sstate \<Rightarrow> bool" where
  "blind f g st \<longleftrightarrow> g (forget st) = (fst (f st), forget (snd (f st)))"

subsection \<open>The scheduler is equal to it\<close>

context scheduler_model begin

lemma body_uncached:
  assumes "p \<in> served" "inv (st_cache st)"
  shows "blind (policy_body S a r p) (policy_body (uncached S) a r p) st"
proof -
  have g: "fst (Get (policyCompiler S) p (st_cache st)) = compile (comp_env (policyCompiler S)) p"
    using get_spec assms by blast
  have c: "st_cache (snd (call f st)) = st_cache st" for f :: "'w \<Rightarrow> 'b \<times> 'w" and st :: "('c, 'w) sstate"
    by (simp add: call_def split_beta Let_def)
  show ?thesis
    by (simp add: blind_def policy_body_def Let_def split_beta forget_call Get_uncached g c flip: forget_Eventf
        split: sum.split bool.split) auto
qed

lemma createPipelines_uncached:
  assumes "set policies \<subseteq> served" "inv (st_cache st)"
  shows "blind (createPipelinesForReport S policies a r) (createPipelinesForReport (uncached S) policies a r) st"
proof -
  let ?R = "\<lambda>st t. t = forget st \<and> inv (st_cache st)"
  have step: "fst (policy_body S a r p st) = fst (policy_body (uncached S) a r p t)
      \<and> ?R (snd (policy_body S a r p st)) (snd (policy_body (uncached S) a r p t))"
    if "p \<in> set policies" "?R st t" for p st t
    using body_uncached [of p st a r] body_step [of p st a r] that assms(1) by (auto simp: blind_def)
  have "fst (collect (policy_body S a r) policies st) = fst (collect (policy_body (uncached S) a r) policies (forget st))
      \<and> ?R (snd (collect (policy_body S a r) policies st)) (snd (collect (policy_body (uncached S) a r) policies (forget st)))"
    by (rule collect_rel [where R = ?R], rule step) (simp_all add: assms(2))
  then show ?thesis by (simp add: blind_def createPipelinesForReport_def prod_eq_iff)
qed

lemma generate_all_uncached:
  assumes "set policies \<subseteq> served" "inv (st_cache st)"
  shows "blind (generate_all S policies reports) (generate_all (uncached S) policies reports) st"
  using assms
proof (induction reports arbitrary: st)
  case Nil
  then show ?case by (simp add: blind_def)
next
  case (Cons r rs)
  show ?case
  proof (cases "action_id r")
    case None
    then show ?thesis by (simp add: blind_def)
  next
    case (Some a)
    note one = createPipelines_uncached [OF Cons.prems, of a r, unfolded blind_def]
    note rest = Cons.IH [OF Cons.prems(1) createPipelines_inv [OF Cons.prems, of a r], unfolded blind_def]
    from Some one rest show ?thesis
      by (simp add: blind_def Let_def split_beta split: sum.split)
  qed
qed

lemma processReports_uncached:
  assumes "lists_served (mgrClient S) served" "inv (st_cache st)"
  shows "blind (processReports S reports) (processReports (uncached S) reports) st"
proof -
  obtain t st1 where t: "check_threshold S st = (t, st1)" by force
  obtain l st2 where l: "call (cl_list_policies (mgrClient S)) st1 = (l, st2)" by force
  have inv2: "inv (st_cache st2)"
    using check_threshold_cache [of S st] t l assms(2) by (auto simp: call_def split_beta Let_def)
  have u: "check_threshold (uncached S) (forget st) = (t, forget st1)"
    "call (cl_list_policies (mgrClient (uncached S))) (forget st1) = (l, forget st2)"
    using forget_threshold [of S st] forget_call [of "cl_list_policies (mgrClient S)" st1] t l by simp_all
  have policies: "set ps \<subseteq> served" if "l = Inr ps" for ps
    using assms(1) l that by (auto simp: lists_served_def call_def split_beta Let_def)
  note gen = generate_all_uncached [OF policies inv2, unfolded blind_def] generate_all_inv [OF policies inv2]
  show "blind (processReports S reports) (processReports (uncached S) reports) st"
    using t l u gen
    by (auto simp: blind_def processReports_def forget_create_all split_beta split: option.splits sum.splits)
qed

end


subsection \<open>An event and a run\<close>

context scheduler_model begin

lemma handle_event_uncached:
  assumes "lists_served (mgrClient S) served" "inv (st_cache st)"
  shows "blind (handle_event S rs) (handle_event (uncached S) rs) st"
    and "inv (st_cache (snd (handle_event S rs st)))"
proof -
  let ?st = "st\<lparr>st_metrics := (st_metrics st)\<lparr>schedulerEventsRecieved := schedulerEventsRecieved (st_metrics st) + 1,
      schedulerReportsRecieved := schedulerReportsRecieved (st_metrics st) + length rs\<rparr>\<rparr>"
  have "inv (st_cache ?st)" using assms(2) by simp
  note p = processReports_uncached [OF assms(1) this, of rs] handle_event_refines(2) [OF assms, of rs]
  obtain e st2 where run: "processReports S rs ?st = (e, st2)" by force
  with p(1) have "processReports (uncached S) rs (forget ?st) = (e, forget st2)" by (simp add: blind_def)
  with run show "blind (handle_event S rs) (handle_event (uncached S) rs) st"
    by (simp add: blind_def handle_event_def Let_def)
  show "inv (st_cache (snd (handle_event S rs st)))"
    by (rule p(2))
qed

lemma serve_uncached:
  assumes "lists_served (mgrClient S) served" "inv (st_cache st)"
  shows "blind (serve S es) (serve (uncached S) es) st"
  using assms(2)
proof (induction es arbitrary: st)
  case Nil
  then show ?case by (simp add: blind_def)
next
  case (Cons e es)
  note one = handle_event_uncached [OF assms(1) Cons.prems, of e]
  from one(1) Cons.IH [OF one(2)] show ?case by (simp add: blind_def Let_def split_beta)
qed

end

subsection \<open>The process\<close>

text \<open>Only the scheduler's event looks at the cache.\<close>

definition forget_sys :: "('v, 'c, 'w, 'q) sys \<Rightarrow> ('v, unit, 'w, 'q) sys" where
  "forget_sys s = \<lparr>sy_cancelled = sy_cancelled s, sy_main = sy_main s, sy_sched = sy_sched s,
     sy_state = forget (sy_state s), sy_chans = sy_chans s, sy_next = sy_next s, sy_await = sy_await s,
     sy_delete = sy_delete s, sy_http = sy_http s, sy_aws = sy_aws s, sy_metrics = sy_metrics s, sy_log = sy_log s\<rparr>"

lemma forget_sys_simps [simp]:
  "sy_cancelled (forget_sys s) = sy_cancelled s" "sy_main (forget_sys s) = sy_main s"
  "sy_sched (forget_sys s) = sy_sched s" "sy_state (forget_sys s) = forget (sy_state s)"
  "sy_chans (forget_sys s) = sy_chans s" "sy_next (forget_sys s) = sy_next s" "sy_await (forget_sys s) = sy_await s"
  "sy_delete (forget_sys s) = sy_delete s" "sy_http (forget_sys s) = sy_http s" "sy_aws (forget_sys s) = sy_aws s"
  "sy_metrics (forget_sys s) = sy_metrics s" "sy_log (forget_sys s) = sy_log s"
  by (simp_all add: forget_sys_def)

lemma forget_sys_step:
  "poll_step L (forget_sys s) = forget_sys (poll_step L s)"
  "batch_step L msgs (forget_sys s) = forget_sys (batch_step L msgs s)"
  "bus_send src rs (forget_sys s) = forget_sys (bus_send src rs s)"
  "await_step i n msg err (forget_sys s) = forget_sys (await_step i n msg err s)"
  "delete_step L i msg (forget_sys s) = forget_sys (delete_step L i msg s)"
  by (simp_all add: poll_step_def bus_send_def await_step_def delete_step_def forget_sys_def Let_def split_beta
      split: sum.split)
    (cases msgs, simp_all split: outcome.split prod.split option.split)

lemma forget_sys_updates:
  "(forget_sys s)\<lparr>sy_cancelled := b\<rparr> = forget_sys (s\<lparr>sy_cancelled := b\<rparr>)"
  "(forget_sys s)\<lparr>sy_main := m\<rparr> = forget_sys (s\<lparr>sy_main := m\<rparr>)"
  "(forget_sys s)\<lparr>sy_sched := d\<rparr> = forget_sys (s\<lparr>sy_sched := d\<rparr>)"
  "(forget_sys s)\<lparr>sy_await := w\<rparr> = forget_sys (s\<lparr>sy_await := w\<rparr>)"
  "(forget_sys s)\<lparr>sy_http := h\<rparr> = forget_sys (s\<lparr>sy_http := h\<rparr>)"
  "(forget_sys s)\<lparr>sy_aws := q\<rparr> = forget_sys (s\<lparr>sy_aws := q\<rparr>)"
  "(forget_sys s)\<lparr>sy_state := forget st\<rparr> = forget_sys (s\<lparr>sy_state := st\<rparr>)"
  by (simp_all add: forget_sys_def)

context open_system begin

lemma sched_uncached:
  assumes "inv (st_cache (sy_state s))"
  shows "sched_step (uncached S) rs n (forget_sys s) = forget_sys (sched_step S rs n s)"
proof -
  have "scheduler_model S inv R" unfolding scheduler_model_def by (rule get_contract)
  from scheduler_model.handle_event_uncached(1) [OF this open_listed assms]
  show ?thesis by (simp add: sched_step_def blind_def forget_sys_def split_beta)
qed

lemma exec_uncached:
  assumes "inv (st_cache (sy_state s))"
  shows "exec L (uncached S) a (forget_sys s) = map_option forget_sys (exec L S a s)"
  by (cases a)
    (simp_all add: exec.simps forget_sys_step forget_sys_updates sched_uncached [OF assms] split: main.split sched.split option.split)

lemma open_exec_uncached:
  assumes "inv (st_cache (sy_state s))"
  shows "open_exec L (uncached S) R a (forget_sys s) = map_option forget_sys (open_exec L S R a s)"
proof (cases a)
  case (Own b)
  then show ?thesis by (simp add: exec_uncached [OF assms])
next
  case (Reconciler x)
  then show ?thesis by (simp add: forget_sys_def forget_def)
next
  case (Cluster w)
  then show ?thesis by (simp add: forget_sys_def forget_def)
next
  case (Queue q)
  then show ?thesis by (simp add: forget_sys_updates)
qed

end

sublocale open_system \<subseteq> uncached: lockstep
  "\<lambda>s. sys_init s \<and> inv (st_cache (sy_state s))" "open_exec L S R" "\<lambda>s. inv (st_cache (sy_state s))"
  "open_exec L (uncached S) R" forget_sys for L
  by unfold_locales (rule open_exec_uncached)

context open_system begin

lemma uncached_runs:
  "inv (st_cache (sy_state s)) \<Longrightarrow>
   run_acts (open_exec L (uncached S) R) as (forget_sys s) = map_option forget_sys (run_acts (open_exec L S R) as s)"
  by (rule uncached.same_runs)

end

subsection \<open>Properties\<close>

text \<open>
  The cache cannot be noticed. The process with the cache of compiled policies and the process whose scheduler compiles
  every policy afresh run in lockstep, from any state with a coherent cache: under every schedule of the process's own steps, of the
  reconciler's calls and of changes of the cluster and the queue, the same steps are enabled, and both end with the same
  log, channels, cluster, recorded events and metrics; and what others do to the cluster during an event may be part of the client.
\<close>

theorem cache_transparent:
  assumes "compiler_model (policyCompiler S) contents R" "lists_served (mgrClient S) R"
    and "coherent (comp_env (policyCompiler S)) R (contents (st_cache (sy_state s)))"
  shows "run_acts (open_exec L (uncached S) R) as (forget_sys s) = map_option forget_sys (run_acts (open_exec L S R) as s)"
proof -
  have "open_system S contents R"
    using assms(1,2) by (simp add: open_system_def open_system_axioms_def)
  from open_system.uncached_runs [OF this assms(3)] show ?thesis .
qed

text \<open>A pipeline of others appears while the event reads the downloader.\<close>

definition amid_sys ::
  "(rval, string cached list_cache, unit pipeline list \<times> (unit pipeline list \<Rightarrow> unit pipeline list) list, message list) sys" where
  "amid_sys = \<lparr>sy_cancelled = False, sy_main = MPoll, sy_sched = SIdle,
     sy_state = \<lparr>st_cache = (4, []), st_world = ([], [id, \<lambda>w. w @ [foreign_pipeline]]), st_events = [],
        st_metrics = st_metrics (ref_state [])\<rparr>,
     sy_chans = Map.empty, sy_next = 0, sy_await = [], sy_delete = [], sy_http = [], sy_aws = [demo_message ''report''],
     sy_metrics = sy_metrics (demo_sys []), sy_log = []\<rparr>"

theorem cache_transparent_witness:
  "\<exists>s t. run_acts (open_exec ref_listener (amid_scheduler one_scheduler) {one_policy})
         (map Own [APoll, ABatch, ASend, ASched, AAwait 0, ADelete 0]) amid_sys = Some s
     \<and> run_acts (open_exec ref_listener (uncached (amid_scheduler one_scheduler)) {one_policy})
         (map Own [APoll, ABatch, ASend, ASched, AAwait 0, ADelete 0]) (forget_sys amid_sys) = Some t
     \<and> lc_contents (st_cache (sy_state s)) \<noteq> Map.empty \<and> sy_log t = sy_log s
     \<and> DeleteCall (demo_message ''report'') None \<in> set (sy_log t)
     \<and> st_world (sy_state t) = st_world (sy_state s) \<and> length (fst (st_world (sy_state s))) = 2"
proof -
  let ?acts = "map Own [APoll, ABatch, ASend, ASched, AAwait 0, ADelete 0]"
  have "\<exists>s. run_acts (open_exec ref_listener (amid_scheduler one_scheduler) {one_policy}) ?acts amid_sys = Some s
     \<and> lc_contents (st_cache (sy_state s)) \<noteq> Map.empty
     \<and> DeleteCall (demo_message ''report'') None \<in> set (sy_log s) \<and> length (fst (st_world (sy_state s))) = 2"
    by (simp add: amid_sys_def amid_scheduler_def amid_def foreign_pipeline_def one_run)
  then obtain s where s: "run_acts (open_exec ref_listener (amid_scheduler one_scheduler) {one_policy}) ?acts amid_sys = Some s"
     "lc_contents (st_cache (sy_state s)) \<noteq> Map.empty"
     "DeleteCall (demo_message ''report'') None \<in> set (sy_log s)" "length (fst (st_world (sy_state s))) = 2" by blast
  have "coherent (comp_env (policyCompiler (amid_scheduler one_scheduler))) {one_policy} (lc_contents (st_cache (sy_state amid_sys)))"
    by (simp add: amid_sys_def)
  note same = cache_transparent [OF amid_laws(1) [OF one_laws(1)] amid_laws(2) [OF one_laws(2)] this]
  have "run_acts (open_exec ref_listener (uncached (amid_scheduler one_scheduler)) {one_policy}) ?acts (forget_sys amid_sys)
      = Some (forget_sys s)"
    by (simp only: same s(1) option.map)
  with s show ?thesis by (intro exI [of _ s] exI [of _ "forget_sys s"]) simp
qed

end
