(* ===== verification/Reconcile_Steps.thy ===== *)
theory Reconcile_Steps
  imports Reconciler
begin

section \<open>The policy controller, call by call\<close>

text \<open>
  \<open>Reconcile\<close> of \<^verbatim>\<open>internal/controller/chalkreportpolicy_controller.go\<close> as the goroutine of its worker: between any two of
  its calls, of the API server and of the compiler, the other goroutines of the process and everybody else may act. Run
  without interruption it is the function of \<open>Reconciler\<close>.
\<close>

subsection \<open>The worker\<close>

text \<open>
  What is still to be done: read the policy of a key; the branch on what was read, with the call of the compiler;
  \<open>Update\<close> with new finalizers; \<open>Status().Update\<close> with new conditions. \<open>Finished\<close> holds the error that is returned.
\<close>

datatype 'x worker =
    Waiting
  | Reading "string \<times> string"
  | Having "'x policy"
  | Updating "'x policy" "string list"
  | Writing "'x policy" "condition list"
  | Finished "goerr option"

fun worker_step ::
  "('a, 'p, 'v, 'c, 'w, 'x) reconciler \<Rightarrow> 'x worker \<Rightarrow> 'c \<times> 'w \<Rightarrow> ('x worker \<times> 'c \<times> 'w) option" where
  "worker_step r Waiting (c, w) = None"
| "worker_step r (Reading k) (c, w) =
     (case rc_get (rr_client r) k w of
        (Inl err, w1) \<Rightarrow> Some (Finished (rc_ignoreNotFound (rr_client r) err), c, w1)
      | (Inr reportPolicy, w1) \<Rightarrow> Some (Having reportPolicy, c, w1))"
| "worker_step r (Having p) (c, w) =
     (if pol_deletionTimestamp p \<noteq> None then
        (case Remove (rr_compiler r) p c of
           (Some err, c1) \<Rightarrow> Some (Finished (Some err), c1, w)
         | (None, c1) \<Rightarrow> Some (Updating p (ou_remove (rr_util r) (pol_finalizers p) policyCacheFinalizer), c1, w))
      else if \<not> ou_contains (rr_util r) (pol_finalizers p) policyCacheFinalizer then
        Some (Updating p (ou_add (rr_util r) (pol_finalizers p) policyCacheFinalizer), c, w)
      else
        (let (compiled, c1) = Get (rr_compiler r) p c;
             (metaChanged, cs) = ou_setCondition (rr_util r) (pol_conditions p) (ready_condition compiled p)
         in Some (if metaChanged then Writing p cs else Finished None, c1, w)))"
| "worker_step r (Updating p fs) (c, w) =
     (let (err, w1) = rc_update (rr_client r) (p\<lparr>pol_finalizers := fs\<rparr>) w in Some (Finished err, c, w1))"
| "worker_step r (Writing p cs) (c, w) =
     (let (err, w1) = rc_statusUpdate (rr_client r) (p\<lparr>pol_conditions := cs\<rparr>) w in Some (Finished err, c, w1))"
| "worker_step r (Finished err) (c, w) = None"

subsection \<open>Alone it is Reconcile\<close>

definition worker_next ::
  "('a, 'p, 'v, 'c, 'w, 'x) reconciler \<Rightarrow> 'x worker \<times> 'c \<times> 'w \<Rightarrow> 'x worker \<times> 'c \<times> 'w" where
  "worker_next r t = (case worker_step r (fst t) (snd t) of None \<Rightarrow> t | Some t' \<Rightarrow> t')"

text \<open>Three calls are enough, and a finished worker stays so.\<close>

theorem worker_is_Reconcile:
  "worker_next r (worker_next r (worker_next r (Reading k, cw))) =
     (Finished (fst (Reconcile r k cw)), snd (Reconcile r k cw))"
proof -
  obtain c w where cw: "cw = (c, w)" by force
  obtain q w1 where g: "rc_get (rr_client r) k w = (q, w1)" by force
  show ?thesis
  proof (cases q)
    case (Inl e)
    with g cw show ?thesis by (simp add: worker_next_def Reconcile_def)
  next
    case (Inr p)
    with g cw show ?thesis
      by (simp add: worker_next_def Reconcile_def Let_def split_beta split: option.split)
  qed
qed

subsection \<open>What a worker holds\<close>

text \<open>
  The writes of a worker are those that the code means to make: the finalizer is added to a live policy that lacks it and taken
  off one under deletion, and the condition is that of compiling the policy afresh.
\<close>

fun worker_ok :: "('a, 'p, 'v, 'c, 'w, 'x) reconciler \<Rightarrow> 'x policy set \<Rightarrow> 'x worker \<Rightarrow> bool" where
  "worker_ok r R (Having p) = (p \<in> R)"
| "worker_ok r R (Updating p fs) =
     (p \<in> R \<and> (if pol_deletionTimestamp p \<noteq> None then fs = ou_remove (rr_util r) (pol_finalizers p) policyCacheFinalizer
      else \<not> ou_contains (rr_util r) (pol_finalizers p) policyCacheFinalizer
         \<and> fs = ou_add (rr_util r) (pol_finalizers p) policyCacheFinalizer))"
| "worker_ok r R (Writing p cs) =
     (p \<in> R \<and> pol_deletionTimestamp p = None \<and> ou_contains (rr_util r) (pol_finalizers p) policyCacheFinalizer
      \<and> ou_setCondition (rr_util r) (pol_conditions p) (ready_condition (compile (comp_env (rr_compiler r)) p) p) = (True, cs))"
| "worker_ok r R _ = True"

text \<open>The API server hands out policies that it serves.\<close>

definition gets_served :: "('w, 'x) rclient \<Rightarrow> 'x policy set \<Rightarrow> bool" where
  "gets_served K R \<longleftrightarrow> (\<forall>k w p. fst (rc_get K k w) = Inr p \<longrightarrow> p \<in> R)"

lemma gets_servedD: "gets_served K R \<Longrightarrow> rc_get K k w = (Inr p, w1) \<Longrightarrow> p \<in> R"
  unfolding gets_served_def by (metis fst_conv)

text \<open>The call that a worker makes of the compiler, if any.\<close>

fun worker_op :: "('a, 'p, 'v, 'c, 'w, 'x) reconciler \<Rightarrow> 'x worker \<Rightarrow> 'x comp_op option" where
  "worker_op r (Having p) =
     (if pol_deletionTimestamp p \<noteq> None then Some (OpRemove p)
      else if \<not> ou_contains (rr_util r) (pol_finalizers p) policyCacheFinalizer then None
      else Some (OpGet p))"
| "worker_op r _ = None"

lemma worker_step_cache:
  assumes "worker_step r t (c, w) = Some (t', c1, w1)"
  shows "c1 = (case worker_op r t of None \<Rightarrow> c | Some x \<Rightarrow> comp_step (rr_compiler r) x c)"
  using assms by (cases t) (auto simp: Let_def split_beta split: sum.splits option.splits if_splits prod.splits)

lemma worker_op_served: "worker_ok r R t \<Longrightarrow> worker_op r t = Some x \<Longrightarrow> gets_from R x"
  by (cases t) (auto split: if_splits)

context compiler_model begin

lemma worker_step_ok:
  assumes "rr_compiler r = C" "gets_served (rr_client r) R" "inv c" "worker_ok r R t"
    and "worker_step r t (c, w) = Some (t', c1, w1)"
  shows "worker_ok r R t'"
proof (cases t)
  case (Reading k)
  with assms(2,5) show ?thesis by (auto dest: gets_servedD split: prod.splits sum.splits)
next
  case (Having p)
  with assms(4) have p: "p \<in> R" by simp
  have g: "fst (Get C p c) = compile (comp_env C) p" by (rule Get_correct(1) [OF assms(3) p])
  show ?thesis
    using assms(1,5) Having p g
    by (auto simp: Let_def split_beta Remove_def prod_eq_iff split: if_splits prod.splits)
qed (use assms(5) in \<open>auto simp: Let_def split_beta\<close>)

lemma worker_step_inv:
  assumes "rr_compiler r = C" "inv c" "worker_ok r R t" "worker_step r t (c, w) = Some (t', c1, w1)"
  shows "inv c1"
  using worker_step_cache [OF assms(4), unfolded assms(1)] worker_op_served [OF assms(3)] comp_step_inv [OF assms(2)] assms(2)
  by (auto split: option.splits)

end

end
