(* ===== verification/Program.thy ===== *)
theory Program
  imports Intake Cache_Transparency Reconcile_Steps
begin

section \<open>The whole program\<close>

text \<open>
  The controller as it runs: the listener and its goroutines, the HTTP server, the scheduler and the worker of the policy
  controller, over one compiler and one cluster. Between any two calls of the worker the others may act. To the rest of the process
  the worker is a part of the environment of \<open>Open_System\<close>, so what holds there holds here; and what the
  program as a whole writes to the cluster is known.
\<close>

subsection \<open>Steps\<close>

record ('v, 'c, 'w, 'q, 'n, 'x) prog =
  pg_app :: "('v, 'c, 'w, 'q, 'n) app"
  pg_worker :: "'x worker"

text \<open>
  \<open>Pick k\<close>: the worker takes a key from its queue, which may hold any; \<open>Work\<close>: its next call; \<open>Rest\<close>: it returns. The
  compiler is called by nobody else.
\<close>

datatype ('v, 'x, 'w, 'q, 'n) prog_action =
    Serve "('v, 'x, 'w, 'q, 'n) app_action"
  | Pick "string \<times> string"
  | Work
  | Rest

fun by_reconciler :: "('v, 'x, 'w, 'q, 'n) app_action \<Rightarrow> bool" where
  "by_reconciler (Step (Reconciler c)) = True"
| "by_reconciler _ = False"

definition running :: "('v, 'c, 'w, 'q, 'n, 'x) prog \<Rightarrow> bool" where
  "running x \<longleftrightarrow> \<not> crashed (sy_main (ap_sys (pg_app x)))"

definition shared_state :: "('v, 'c, 'w, 'q, 'n, 'x) prog \<Rightarrow> ('c, 'w) sstate" where
  "shared_state x = sy_state (ap_sys (pg_app x))"

definition put_shared :: "'c \<Rightarrow> 'w \<Rightarrow> ('v, 'c, 'w, 'q, 'n) app \<Rightarrow> ('v, 'c, 'w, 'q, 'n) app" where
  "put_shared c w y =
     y\<lparr>ap_sys := (ap_sys y)\<lparr>sy_state := (sy_state (ap_sys y))\<lparr>st_cache := c, st_world := w\<rparr>\<rparr>\<rparr>"

fun prog_exec ::
  "('v, 'n) gin \<Rightarrow> ('v, 'n) server \<Rightarrow> ('v, 'q) listener \<Rightarrow> ('a, 'p, 'v, 'c, 'w, 'x) scheduler \<Rightarrow> 'x policy set
     \<Rightarrow> ('a, 'p, 'v, 'c, 'w, 'x) reconciler \<Rightarrow> ('v, 'x, 'w, 'q, 'n) prog_action
     \<Rightarrow> ('v, 'c, 'w, 'q, 'n, 'x) prog \<Rightarrow> ('v, 'c, 'w, 'q, 'n, 'x) prog option" where
  "prog_exec G V L S R r (Serve a) x =
     (if by_reconciler a then None else map_option (\<lambda>y. x\<lparr>pg_app := y\<rparr>) (app_exec G V L S R a (pg_app x)))"
| "prog_exec G V L S R r (Pick k) x =
     (case pg_worker x of Waiting \<Rightarrow> if running x then Some (x\<lparr>pg_worker := Reading k\<rparr>) else None | _ \<Rightarrow> None)"
| "prog_exec G V L S R r Work x =
     (if \<not> running x then None
      else
        (case worker_step r (pg_worker x) (st_cache (shared_state x), st_world (shared_state x)) of
           None \<Rightarrow> None
         | Some (t, c, w) \<Rightarrow> Some \<lparr>pg_app = put_shared c w (pg_app x), pg_worker = t\<rparr>))"
| "prog_exec G V L S R r Rest x =
     (case pg_worker x of Finished err \<Rightarrow> if running x then Some (x\<lparr>pg_worker := Waiting\<rparr>) else None | _ \<Rightarrow> None)"

definition prog_init :: "(('v, 'c, 'w, 'q) sys \<Rightarrow> bool) \<Rightarrow> ('v, 'c, 'w, 'q, 'n, 'x) prog \<Rightarrow> bool" where
  "prog_init init x \<longleftrightarrow> app_init init (pg_app x) \<and> pg_worker x = Waiting"

lemma prog_exec_cases [consumes 1, case_names serve pick work rest]:
  assumes "prog_exec G V L S R r a x = Some x'"
  obtains b y where "a = Serve b" "\<not> by_reconciler b" "app_exec G V L S R b (pg_app x) = Some y" "x' = x\<lparr>pg_app := y\<rparr>"
  | k where "a = Pick k" "pg_worker x = Waiting" "x' = x\<lparr>pg_worker := Reading k\<rparr>"
  | t c w where "a = Work" "running x"
      "worker_step r (pg_worker x) (st_cache (shared_state x), st_world (shared_state x)) = Some (t, c, w)"
      "x' = \<lparr>pg_app = put_shared c w (pg_app x), pg_worker = t\<rparr>"
  | err where "a = Rest" "pg_worker x = Finished err" "x' = x\<lparr>pg_worker := Waiting\<rparr>"
  using assms by (cases a) (auto split: if_splits worker.splits option.splits)

lemma put_shared_simps [simp]:
  "sy_state (ap_sys (put_shared c w y)) = (sy_state (ap_sys y))\<lparr>st_cache := c, st_world := w\<rparr>"
  "ap_served (put_shared c w y) = ap_served y" "ap_auth (put_shared c w y) = ap_auth y"
  by (simp_all add: put_shared_def)

subsection \<open>The worker is a part of the environment\<close>

definition worker_acts ::
  "('a, 'p, 'v, 'c, 'w, 'x) reconciler \<Rightarrow> 'x worker \<Rightarrow> 'w \<Rightarrow> ('v, 'x, 'w, 'q, 'n) app_action list" where
  "worker_acts r t w = (case worker_op r t of None \<Rightarrow> [] | Some c \<Rightarrow> [Step (Reconciler c)]) @ [Step (Cluster w)]"

lemma work_is_environment:
  assumes "rr_compiler r = policyCompiler S" "worker_ok r R (pg_worker x)" "running x"
    and "worker_step r (pg_worker x) (st_cache (shared_state x), st_world (shared_state x)) = Some (t, c, w)"
  shows "run_acts (app_exec G V L S R) (worker_acts r (pg_worker x) w) (pg_app x) = Some (put_shared c w (pg_app x))"
proof -
  note c = worker_step_cache [OF assms(4)]
  show ?thesis
  proof (cases "worker_op r (pg_worker x)")
    case None
    with c show ?thesis by (simp add: worker_acts_def put_shared_def shared_state_def)
  next
    case (Some op)
    from worker_op_served [OF assms(2) Some] c Some assms(1,3) show ?thesis
      by (simp add: worker_acts_def put_shared_def shared_state_def running_def)
  qed
qed

locale whole_program = intake S contents R G A J opts V
  for S :: "('a, 'p, 'v, 'c, 'w, 'x) scheduler" and contents :: "'c \<Rightarrow> (string \<rightharpoonup> 'p cached)" and R :: "'x policy set"
    and G :: "('v, 'n) gin" and A :: "('u, 'n) auth" and J :: jlib and opts :: http_options and V :: "('v, 'n) server" +
  fixes r :: "('a, 'p, 'v, 'c, 'w, 'x) reconciler"
  assumes shared: "rr_compiler r = policyCompiler S" and read: "gets_served (rr_client r) R"
begin

definition sound :: "('v, 'c, 'w, 'q, 'n, 'x) prog \<Rightarrow> bool" where
  "sound x \<longleftrightarrow> inv (st_cache (shared_state x)) \<and> worker_ok r R (pg_worker x)"

lemma app_inv_step:
  assumes "inv (st_cache (sy_state (ap_sys y)))" "app_exec G V L S R a y = Some y'"
  shows "inv (st_cache (sy_state (ap_sys y')))"
proof (cases a)
  case (Step b)
  with assms(2) have "open_exec L S R b (ap_sys y) = Some (ap_sys y')" by (auto split: if_splits)
  then show ?thesis by (rule open_inv_step [OF assms(1)])
qed (use assms in \<open>auto simp: Let_def split: if_splits\<close>)

lemma sound_step:
  assumes "sound x" "prog_exec G V L S R r a x = Some x'"
  shows "sound x'"
  using assms(2)
proof (cases rule: prog_exec_cases)
  case (serve b y)
  then show ?thesis using app_inv_step [OF _ serve(3)] assms(1) by (simp add: sound_def shared_state_def)
next
  case (work t c w)
  from assms(1) have i: "inv (st_cache (shared_state x))" "worker_ok r R (pg_worker x)" by (simp_all add: sound_def)
  have "inv c" by (rule worker_step_inv [OF shared i work(3)])
  moreover have "worker_ok r R t" by (rule worker_step_ok [OF shared read i work(3)])
  ultimately show ?thesis using work(4) by (simp add: sound_def shared_state_def)
qed (use assms(1) in \<open>simp_all add: sound_def shared_state_def\<close>)

end

sublocale whole_program \<subseteq> soundness: inductive_invariant
  "prog_init (\<lambda>s. sys_init s \<and> inv (st_cache (sy_state s)))" "prog_exec G V L S R r" sound for L
proof
  show "prog_init (\<lambda>s. sys_init s \<and> inv (st_cache (sy_state s))) x \<Longrightarrow> sound x" for x
    by (simp add: prog_init_def app_init_def sound_def shared_state_def)
qed (rule sound_step)

context whole_program begin

text \<open>Every reachable state of the program is one of the process in its environment.\<close>

lemma prog_reach:
  assumes "reach (prog_init (\<lambda>s. sys_init s \<and> inv (st_cache (sy_state s)))) (prog_exec G V L S R r) x"
  shows "reach (app_init (\<lambda>s. sys_init s \<and> inv (st_cache (sy_state s)))) (app_exec G V L S R) (pg_app x)"
  using assms
proof (induction rule: reach.induct)
  case (start x)
  then show ?case by (auto simp: prog_init_def intro: reach.start)
next
  case (move x x')
  from soundness.reach_inv [OF move.hyps(1)] have ok: "worker_ok r R (pg_worker x)" by (simp add: sound_def)
  from move.hyps(2) obtain a where "prog_exec G V L S R r a x = Some x'" by (rule step_ofE)
  then show ?case
  proof (cases rule: prog_exec_cases)
    case (serve b y)
    from reach.move [OF move.IH step_of.act [where exec = "app_exec G V L S R", OF serve(3)]] serve(4) show ?thesis by simp
  next
    case (work t c w)
    from run_acts_reach [OF move.IH work_is_environment [OF shared ok work(2,3)]] work(4) show ?thesis by simp
  qed (use move.IH in simp_all)
qed

lemma program_change:
  assumes "reach (prog_init (\<lambda>s. sys_init s \<and> inv (st_cache (sy_state s)))) (prog_exec G V L S R r) x"
    and "prog_exec G V L S R r a x = Some x'" "\<And>w. a \<noteq> Serve (Step (Cluster w))"
    and "st_world (shared_state x') \<noteq> st_world (shared_state x)"
  shows "(\<exists>src rs n err. sy_sched (ap_sys (pg_app x)) = SBusy rs n \<and> Sent n src rs \<in> set (sy_log (ap_sys (pg_app x)))
        \<and> justified L A J (ap_served (pg_app x)) src rs
        \<and> event_spec S rs (st_world (shared_state x)) = (err, st_world (shared_state x')))
     \<or> (\<exists>k. pg_worker x = Reading k \<and> st_world (shared_state x') = snd (rc_get (rr_client r) k (st_world (shared_state x))))
     \<or> (\<exists>p fs. pg_worker x = Updating p fs \<and> worker_ok r R (Updating p fs)
        \<and> st_world (shared_state x') = snd (rc_update (rr_client r) (p\<lparr>pol_finalizers := fs\<rparr>) (st_world (shared_state x))))
     \<or> (\<exists>p cs. pg_worker x = Writing p cs \<and> worker_ok r R (Writing p cs)
        \<and> st_world (shared_state x') = snd (rc_statusUpdate (rr_client r) (p\<lparr>pol_conditions := cs\<rparr>) (st_world (shared_state x))))"
  using assms(2)
proof (cases rule: prog_exec_cases)
  case (serve b y)
  have "b \<noteq> Step (Cluster w)" for w using assms(3) serve(1) by blast
  from world_change [OF prog_reach [OF assms(1)] serve(3) this] assms(4) serve(4) show ?thesis
    by (auto simp: shared_state_def)
next
  case (work t c w)
  from soundness.reach_inv [OF assms(1)] have ok: "worker_ok r R (pg_worker x)" by (simp add: sound_def)
  have w: "st_world (shared_state x') = w" using work(4) by (simp add: shared_state_def)
  show ?thesis
  proof (cases "pg_worker x")
    case (Reading k)
    with work(3) w show ?thesis by (auto split: prod.splits sum.splits)
  next
    case (Having p)
    with work(3) w assms(4) show ?thesis
      by (auto simp: Let_def split_beta Remove_def split: if_splits prod.splits)
  next
    case (Updating p fs)
    with work(3) w ok show ?thesis by (auto simp: split_beta Let_def)
  next
    case (Writing p cs)
    with work(3) w ok show ?thesis by (auto simp: split_beta Let_def)
  qed (use work(3) in simp_all)
qed (use assms(4) in \<open>simp_all add: shared_state_def\<close>)

end

subsection \<open>The program without its cache\<close>

definition uncached_rec :: "('a, 'p, 'v, 'c, 'w, 'x) reconciler \<Rightarrow> ('a, 'p, 'v, unit, 'w, 'x) reconciler" where
  "uncached_rec r = \<lparr>rr_client = rr_client r, rr_util = rr_util r,
     rr_compiler = \<lparr>comp_env = comp_env (rr_compiler r), comp_lru = no_lru\<rparr>\<rparr>"

definition forget_app :: "('v, 'c, 'w, 'q, 'n) app \<Rightarrow> ('v, unit, 'w, 'q, 'n) app" where
  "forget_app y = \<lparr>ap_sys = forget_sys (ap_sys y), ap_auth = ap_auth y, ap_served = ap_served y\<rparr>"

definition forget_prog :: "('v, 'c, 'w, 'q, 'n, 'x) prog \<Rightarrow> ('v, unit, 'w, 'q, 'n, 'x) prog" where
  "forget_prog x = \<lparr>pg_app = forget_app (pg_app x), pg_worker = pg_worker x\<rparr>"

lemma forget_prog_simps [simp]:
  "ap_sys (forget_app y) = forget_sys (ap_sys y)" "ap_auth (forget_app y) = ap_auth y"
  "ap_served (forget_app y) = ap_served y" "pg_app (forget_prog x) = forget_app (pg_app x)"
  "pg_worker (forget_prog x) = pg_worker x" "running (forget_prog x) = running x"
  "shared_state (forget_prog x) = forget (shared_state x)"
  by (simp_all add: forget_app_def forget_prog_def running_def shared_state_def)

lemma forget_put_shared: "put_shared () w (forget_app y) = forget_app (put_shared c w y)"
  by (simp add: put_shared_def forget_app_def forget_sys_def forget_def)

lemma forget_prog_step: "forget_prog \<lparr>pg_app = y, pg_worker = t\<rparr> = \<lparr>pg_app = forget_app y, pg_worker = t\<rparr>"
  by (simp add: forget_prog_def)

lemma Get_no_lru: "Get \<lparr>comp_env = e, comp_lru = no_lru\<rparr> p u = (compile e p, ())"
  by (simp add: Get_def no_lru_def compile_and_add_def split: sum.split)

context compiler_model begin

lemma worker_uncached:
  assumes "rr_compiler r = C" "inv c" "worker_ok r R t"
  shows "worker_step (uncached_rec r) t (u, w) = map_option (\<lambda>(t', c', w'). (t', (), w')) (worker_step r t (c, w))"
proof (cases t)
  case (Having p)
  with assms(3) have "p \<in> R" by simp
  from Get_correct(1) [OF assms(2) this] have g: "fst (Get (rr_compiler r) p c) = compile (comp_env (rr_compiler r)) p"
    by (simp add: assms(1))
  show ?thesis
    using Having g by (simp add: uncached_rec_def Get_no_lru Remove_def Let_def split_beta)
qed (simp_all add: uncached_rec_def Let_def split_beta split: sum.split)

end

context whole_program begin

lemma app_uncached:
  assumes "inv (st_cache (sy_state (ap_sys y)))"
  shows "app_exec G V L (uncached S) R a (forget_app y) = map_option forget_app (app_exec G V L S R a y)"
proof (cases a)
  case (Step b)
  have "open_exec L (uncached S) R b (forget_sys (ap_sys y)) = map_option forget_sys (open_exec L S R b (ap_sys y))"
    by (rule open_exec_uncached [OF assms])
  with Step show ?thesis by (cases "open_exec L S R b (ap_sys y)") (simp_all add: forget_app_def)
next
  case (Request rq)
  then show ?thesis by (simp add: forget_app_def Let_def forget_sys_updates)
next
  case (Tokens n)
  then show ?thesis by (simp add: forget_app_def)
qed

lemma prog_uncached:
  assumes "sound x"
  shows "prog_exec G V L (uncached S) R (uncached_rec r) a (forget_prog x) = map_option forget_prog (prog_exec G V L S R r a x)"
proof (cases a)
  case (Serve b)
  from assms have "inv (st_cache (sy_state (ap_sys (pg_app x))))" by (simp add: sound_def shared_state_def)
  note same = app_uncached [OF this, where a = b and L = L]
  show ?thesis
    using Serve same by (cases "app_exec G V L S R b (pg_app x)") (simp_all add: forget_prog_def)
next
  case (Pick k)
  then show ?thesis by (simp add: forget_prog_def running_def split: worker.split)
next
  case Work
  from assms have i: "inv (st_cache (shared_state x))" "worker_ok r R (pg_worker x)" by (simp_all add: sound_def)
  note same = worker_uncached [OF shared i]
  show ?thesis
    using Work by (simp add: same split_beta forget_put_shared forget_prog_step split: option.split)
next
  case Rest
  then show ?thesis by (simp add: forget_prog_def running_def split: worker.split)
qed

end

sublocale whole_program \<subseteq> uncached_prog: lockstep
  "prog_init (\<lambda>s. sys_init s \<and> inv (st_cache (sy_state s)))" "prog_exec G V L S R r" sound
  "prog_exec G V L (uncached S) R (uncached_rec r)" forget_prog for L
  by unfold_locales (rule prog_uncached)

context whole_program begin

lemma uncached_prog_runs:
  "sound x \<Longrightarrow> run_acts (prog_exec G V L (uncached S) R (uncached_rec r)) as (forget_prog x)
     = map_option forget_prog (run_acts (prog_exec G V L S R r) as x)"
  by (rule uncached_prog.same_runs)

end

subsection \<open>A reference program\<close>

text \<open>
  One world for the reference API server of the policy controller and that of the scheduler: the store of the policies and the
  list of the pipelines. It serves policies with the specification of \<open>one_policy\<close> only, and lists the one at one key.
\<close>

type_synonym both_world = "unit ref_store \<times> unit pipeline list"

definition both_R :: "unit policy set" where
  "both_R = {p. pol_spec p = pol_spec one_policy}"

definition served_at :: "unit ref_store \<Rightarrow> string \<times> string \<Rightarrow> unit policy option" where
  "served_at s k = (case ref_objs s k of None \<Rightarrow> None | Some p \<Rightarrow> if pol_spec p = pol_spec one_policy then Some p else None)"

definition both_client :: "(both_world, unit) kclient" where
  "both_client = \<lparr>cl_get = (\<lambda>k n m w. (None, w)),
     cl_list_pipelines = (\<lambda>l f (s, w). (fst (cl_list_pipelines (ref_client []) l f w), (s, w))),
     cl_list_policies = (\<lambda>(s, w). (Inr (case served_at s (''scan'', ''docker'') of None \<Rightarrow> [] | Some p \<Rightarrow> [p]), (s, w))),
     cl_create = (\<lambda>p (s, w). (fst (cl_create (ref_client []) p w), (s, snd (cl_create (ref_client []) p w))))\<rparr>"

definition both_rclient :: "(both_world, unit) rclient" where
  "both_rclient = \<lparr>
     rc_get = (\<lambda>k (s, w). (case served_at s k of None \<Rightarrow> Inl (ErrMsg ''not found'') | Some p \<Rightarrow> Inr p, (s, w))),
     rc_update = (\<lambda>p (s, w). (fst (rc_update ref_rclient p s), (snd (rc_update ref_rclient p s), w))),
     rc_statusUpdate = (\<lambda>p (s, w). (fst (rc_statusUpdate ref_rclient p s), (snd (rc_statusUpdate ref_rclient p s), w))),
     rc_ignoreNotFound = rc_ignoreNotFound (ref_rclient :: (unit ref_store, unit) rclient)\<rparr>"

definition both_scheduler ::
  "(string, string, rval, string cached list_cache, both_world, unit) scheduler" where
  "both_scheduler = \<lparr>rejectPipelineThreshold = 0, maxPipelinesPerPolicy = 5, mgrClient = both_client,
     policyCompiler = ref_compiler, isConditionTrue = ref_ready\<rparr>"

definition both_reconciler ::
  "(string, string, rval, string cached list_cache, both_world, unit) reconciler" where
  "both_reconciler = \<lparr>rr_client = both_rclient, rr_util = ref_util, rr_compiler = ref_compiler\<rparr>"

lemma both_laws:
  "compiler_model (policyCompiler both_scheduler) lc_contents both_R" "lists_served (mgrClient both_scheduler) both_R"
  "rr_compiler both_reconciler = policyCompiler both_scheduler" "gets_served (rr_client both_reconciler) both_R"
proof -
  have "generation_stable both_R"
    unfolding both_R_def by (rule generation_stable_by [of "\<lambda>u g. pol_spec one_policy"])
  then show "compiler_model (policyCompiler both_scheduler) lc_contents both_R"
    by (simp add: both_scheduler_def compiler_model_def compiler_model_axioms_def list_lru_laws)
qed (auto simp: both_scheduler_def both_reconciler_def both_client_def both_rclient_def lists_served_def gets_served_def
       served_at_def both_R_def split: option.splits if_splits)

lemma programI:
  assumes "compiler_model (policyCompiler S) contents R" "lists_served (mgrClient S) R"
    and "gin_engine G" "NewServer (Inr A) J opts = Inr V"
    and "rr_compiler r = policyCompiler S" "gets_served (rr_client r) R"
  shows "whole_program S contents R G A J opts V r"
  using intakeI [OF assms(1-4)] assms(5,6) by (simp add: whole_program_def whole_program_axioms_def)

interpretation both: whole_program both_scheduler lc_contents both_R ref_gin ref_auth ref_jlib demo_options demo_server both_reconciler
  by (rule programI [OF both_laws(1,2) refg.gin_engine_axioms demo_server both_laws(3,4)])

definition fresh_policy :: "unit policy" where
  "fresh_policy = one_policy\<lparr>pol_conditions := [], pol_finalizers := []\<rparr>"

definition both_prog ::
  "(rval, string cached list_cache, both_world, message list, unit, unit) prog" where
  "both_prog = \<lparr>pg_app = \<lparr>ap_sys = \<lparr>sy_cancelled = False, sy_main = MPoll, sy_sched = SIdle,
       sy_state = \<lparr>st_cache = (4, []), st_world = ([(''scan'', ''docker'') \<mapsto> fresh_policy], []), st_events = [],
         st_metrics = st_metrics (ref_state [])\<rparr>,
       sy_chans = Map.empty, sy_next = 0, sy_await = [], sy_delete = [], sy_http = [], sy_aws = [],
       sy_metrics = sy_metrics (demo_sys []), sy_log = []\<rparr>, ap_auth = (), ap_served = []\<rparr>,
     pg_worker = Waiting\<rparr>"

abbreviation both_exec ::
  "(rval, unit, both_world, message list, unit) prog_action
     \<Rightarrow> (rval, string cached list_cache, both_world, message list, unit, unit) prog
     \<Rightarrow> (rval, string cached list_cache, both_world, message list, unit, unit) prog option" where
  "both_exec \<equiv> prog_exec ref_gin demo_server ref_listener both_scheduler both_R both_reconciler"

lemmas both_run = both_prog_def both_scheduler_def both_reconciler_def both_client_def both_rclient_def served_at_def
  fresh_policy_def put_shared_def shared_state_def running_def ref_rec_run

text \<open>
  A new policy is read, gets its finalizer, is read again, compiled and marked \<open>Ready\<close>; then a report of an allowed request
  creates its pipeline.
\<close>

abbreviation both_life :: "(rval, unit, both_world, message list, unit) prog_action list" where
  "both_life \<equiv> [Pick (''scan'', ''docker''), Work, Work, Work, Rest, Pick (''scan'', ''docker''), Work, Work, Work, Rest,
     Serve (Request (demo_request ''admin'' ''reports'')), Serve (Step (Own (AHttpSend 0)))]"

lemma both_create:
  "\<exists>x x'. run_acts both_exec both_life both_prog = Some x \<and> both_exec (Serve (Step (Own ASched))) x = Some x'
     \<and> pg_worker x = Waiting \<and> lc_contents (st_cache (shared_state x')) \<noteq> Map.empty
     \<and> fst (st_world (shared_state x')) = fst (st_world (shared_state x)) \<and> snd (st_world (shared_state x)) = [] \<and> length (snd (st_world (shared_state x'))) = 1"
  by (simp add: both_run demo_bus one_run)

lemma both_finalizer:
  "\<exists>x x'. run_acts both_exec [Pick (''scan'', ''docker''), Work, Work] both_prog = Some x \<and> both_exec Work x = Some x'
     \<and> pg_worker x = Updating fresh_policy [policyCacheFinalizer]
     \<and> map_option pol_finalizers (fst (st_world (shared_state x)) (''scan'', ''docker'')) = Some []
     \<and> map_option pol_finalizers (fst (st_world (shared_state x')) (''scan'', ''docker'')) = Some [policyCacheFinalizer]"
  by (simp add: both_run demo_bus one_run)

abbreviation both_start :: "(rval, string cached list_cache, both_world, message list, unit, unit) prog \<Rightarrow> bool" where
  "both_start \<equiv> prog_init (\<lambda>s. sys_init s
     \<and> coherent (comp_env (policyCompiler both_scheduler)) both_R (lc_contents (st_cache (sy_state s))))"

lemma both_reach: "run_acts both_exec as both_prog = Some x \<Longrightarrow> reach both_start both_exec x"
proof -
  have "both_start both_prog"
    by (simp add: prog_init_def app_init_def both_prog_def sys_init_def both_scheduler_def demo_sys_def)
  then have "reach both_start both_exec both_prog" by (rule reach.start)
  from run_acts_reach [OF this] show "run_acts both_exec as both_prog = Some x \<Longrightarrow> reach both_start both_exec x" .
qed

text \<open>
  The finalizer is there so that a deleted policy leaves the cache before it leaves the cluster. Another goroutine may act
  between the two calls: the scheduler still lists the policy, compiles it again and generates its pipelines, and the compiled policy stays when
  the last finalizer goes.
\<close>

definition dying_policy :: "unit policy" where
  "dying_policy = one_policy\<lparr>pol_deletionTimestamp := Some 0, pol_finalizers := [policyCacheFinalizer]\<rparr>"

definition dying_prog :: "(rval, string cached list_cache, both_world, message list, unit, unit) prog" where
  "dying_prog = both_prog\<lparr>pg_app := put_shared (4, []) ([(''scan'', ''docker'') \<mapsto> dying_policy], []) (pg_app both_prog)\<rparr>"

theorem deleted_policy_stays_cached:
  "\<exists>x. run_acts both_exec [Pick (''scan'', ''docker''), Work, Work, Serve (Request (demo_request ''admin'' ''reports'')),
         Serve (Step (Own (AHttpSend 0))), Serve (Step (Own ASched)), Work] dying_prog = Some x
     \<and> pg_worker x = Finished None \<and> fst (st_world (shared_state x)) (''scan'', ''docker'') = None
     \<and> lc_contents (st_cache (shared_state x)) (pol_uid dying_policy) \<noteq> None
     \<and> length (snd (st_world (shared_state x))) = 1"
  by (simp add: dying_prog_def dying_policy_def both_run demo_bus one_run)

subsection \<open>Properties of the program\<close>

text \<open>
  C3. Whatever the program does to the cluster, it does for a message of the queue, for a request that was allowed, or to keep
  the finalizer and the condition of a policy. In every reachable state of the whole program (the listener and its goroutines,
  the HTTP server, the scheduler and the policy controller, over one cache), whatever requests come and whatever others do to
  accounts and roles, to the queue and to the cluster: when a step that is not theirs changes the cluster, then it is one of three. It is
  the scheduler's, with an event that was sent for a message which the parser had made exactly these reports of without an error,
  or by the handler of an earlier \<open>POST\<close> to the report path that the authenticator accepted and the authorizer allowed at that
  moment, whose body decodes to exactly these reports; and the change is what the specification says. Or it is an \<open>Update\<close> of
  a served policy, which only adds the controller's finalizer to a live one that lacks it or takes it off one under
  deletion. Or it is a \<open>Status().Update\<close> of a live one with the finalizer, whose \<open>Ready\<close> condition is that of compiling it afresh.
\<close>

theorem program_writes_are_justified:
  assumes "compiler_model (policyCompiler S) contents R" "lists_served (mgrClient S) R"
    and "gin_engine G" "NewServer (Inr A) J opts = Inr V"
    and "rr_compiler r = policyCompiler S" "gets_served (rr_client r) R" "\<And>k w. snd (rc_get (rr_client r) k w) = w"
    and "reach (prog_init (\<lambda>s. sys_init s \<and> coherent (comp_env (policyCompiler S)) R (contents (st_cache (sy_state s)))))
           (prog_exec G V L S R r) x"
    and "prog_exec G V L S R r a x = Some x'" "\<And>w. a \<noteq> Serve (Step (Cluster w))"
    and "st_world (shared_state x') \<noteq> st_world (shared_state x)"
  shows "(\<exists>src rs n err. sy_sched (ap_sys (pg_app x)) = SBusy rs n \<and> Sent n src rs \<in> set (sy_log (ap_sys (pg_app x)))
        \<and> justified L A J (ap_served (pg_app x)) src rs
        \<and> event_spec S rs (st_world (shared_state x)) = (err, st_world (shared_state x')))
     \<or> (\<exists>p \<in> R. \<exists>fs. (if pol_deletionTimestamp p \<noteq> None then fs = ou_remove (rr_util r) (pol_finalizers p) policyCacheFinalizer
             else \<not> ou_contains (rr_util r) (pol_finalizers p) policyCacheFinalizer
                \<and> fs = ou_add (rr_util r) (pol_finalizers p) policyCacheFinalizer)
        \<and> st_world (shared_state x') = snd (rc_update (rr_client r) (p\<lparr>pol_finalizers := fs\<rparr>) (st_world (shared_state x))))
     \<or> (\<exists>p \<in> R. \<exists>cs. pol_deletionTimestamp p = None \<and> ou_contains (rr_util r) (pol_finalizers p) policyCacheFinalizer
        \<and> ou_setCondition (rr_util r) (pol_conditions p) (ready_condition (compile (comp_env (policyCompiler S)) p) p) = (True, cs)
        \<and> st_world (shared_state x') = snd (rc_statusUpdate (rr_client r) (p\<lparr>pol_conditions := cs\<rparr>) (st_world (shared_state x))))"
  using whole_program.program_change [OF programI [OF assms(1-6)] assms(8-11)] assms(11)
  unfolding worker_ok.simps assms(5,7) by blast

theorem program_writes_are_justified_witness:
  "\<exists>x x' src rs n err y y'. run_acts both_exec both_life both_prog = Some x \<and> both_exec (Serve (Step (Own ASched))) x = Some x'
     \<and> snd (st_world (shared_state x)) = [] \<and> length (snd (st_world (shared_state x'))) = 1
     \<and> sy_sched (ap_sys (pg_app x)) = SBusy rs n
     \<and> justified ref_listener ref_auth ref_jlib (ap_served (pg_app x)) src rs
     \<and> event_spec both_scheduler rs (st_world (shared_state x)) = (err, st_world (shared_state x'))
     \<and> run_acts both_exec [Pick (''scan'', ''docker''), Work, Work] both_prog = Some y \<and> both_exec Work y = Some y'
     \<and> map_option pol_finalizers (fst (st_world (shared_state y)) (''scan'', ''docker'')) = Some []
     \<and> map_option pol_finalizers (fst (st_world (shared_state y')) (''scan'', ''docker'')) = Some [policyCacheFinalizer]"
proof -
  from both_create obtain x x' where x: "run_acts both_exec both_life both_prog = Some x"
    "both_exec (Serve (Step (Own ASched))) x = Some x'" "snd (st_world (shared_state x)) = []"
    "length (snd (st_world (shared_state x'))) = 1" by blast
  have kept: "snd (snd (rc_get (rr_client both_reconciler) k w)) = snd w" "snd (rc_get (rr_client both_reconciler) k w) = w"
    "snd (snd (rc_update (rr_client both_reconciler) p w)) = snd w"
    "snd (snd (rc_statusUpdate (rr_client both_reconciler) p w)) = snd w" for k w p
    by (simp_all add: both_reconciler_def both_rclient_def split_beta)
  from x(3,4) have new: "st_world (shared_state x') \<noteq> st_world (shared_state x)"
    "\<And>p. st_world (shared_state x') \<noteq> snd (rc_update (rr_client both_reconciler) p (st_world (shared_state x)))"
    "\<And>p. st_world (shared_state x') \<noteq> snd (rc_statusUpdate (rr_client both_reconciler) p (st_world (shared_state x)))"
    using kept(3,4) [where w = "st_world (shared_state x)"] by auto
  from program_writes_are_justified [OF both_laws(1,2) refg.gin_engine_axioms demo_server both_laws(3,4) kept(2)
      both_reach [OF x(1)] x(2) _ new(1)] new(2,3)
  obtain src rs n err where "sy_sched (ap_sys (pg_app x)) = SBusy rs n"
    "justified ref_listener ref_auth ref_jlib (ap_served (pg_app x)) src rs"
    "event_spec both_scheduler rs (st_world (shared_state x)) = (err, st_world (shared_state x'))" by blast
  with x both_finalizer show ?thesis by blast
qed

text \<open>
  C9. The cache cannot be noticed. The program with its cache of compiled policies and the program whose scheduler and policy
  controller compile every policy afresh run in lockstep, from any state with a coherent cache: under every schedule of the process's own steps,
  of the controller's calls, of requests and of changes of the cluster and the queue, the same steps are enabled, and both end
  with the same log, channels, cluster, recorded events and metrics, and the worker with the same error.
\<close>

theorem program_cache_transparent:
  assumes "compiler_model (policyCompiler S) contents R" "lists_served (mgrClient S) R"
    and "gin_engine G" "NewServer (Inr A) J opts = Inr V"
    and "rr_compiler r = policyCompiler S" "gets_served (rr_client r) R"
    and "coherent (comp_env (policyCompiler S)) R (contents (st_cache (shared_state x)))" "worker_ok r R (pg_worker x)"
  shows "run_acts (prog_exec G V L (uncached S) R (uncached_rec r)) as (forget_prog x)
     = map_option forget_prog (run_acts (prog_exec G V L S R r) as x)"
proof -
  note p = programI [OF assms(1-6)]
  from assms(7,8) have "whole_program.sound S contents R r x" by (simp add: whole_program.sound_def [OF p])
  then show ?thesis by (rule whole_program.uncached_prog_runs [OF p])
qed

theorem program_cache_transparent_witness:
  "\<exists>s t. run_acts both_exec (both_life @ [Serve (Step (Own ASched))]) both_prog = Some s
     \<and> run_acts (prog_exec ref_gin demo_server ref_listener (uncached both_scheduler) both_R (uncached_rec both_reconciler))
         (both_life @ [Serve (Step (Own ASched))]) (forget_prog both_prog) = Some t
     \<and> lc_contents (st_cache (shared_state s)) \<noteq> Map.empty
     \<and> st_world (shared_state t) = st_world (shared_state s) \<and> length (snd (st_world (shared_state s))) = 1"
proof -
  let ?acts = "both_life @ [Serve (Step (Own ASched))]"
  from both_create obtain x s where x: "run_acts both_exec both_life both_prog = Some x"
    "both_exec (Serve (Step (Own ASched))) x = Some s" "length (snd (st_world (shared_state s))) = 1"
    "lc_contents (st_cache (shared_state s)) \<noteq> Map.empty" by blast
  from x(1,2) have s: "run_acts both_exec ?acts both_prog = Some s"
    by (simp only: run_acts_append run_acts.simps option.case)
  have "coherent (comp_env (policyCompiler both_scheduler)) both_R (lc_contents (st_cache (shared_state both_prog)))"
    "worker_ok both_reconciler both_R (pg_worker both_prog)"
    by (simp_all add: both_prog_def shared_state_def)
  note same = program_cache_transparent [OF both_laws(1,2) refg.gin_engine_axioms demo_server both_laws(3,4) this]
  have "run_acts (prog_exec ref_gin demo_server ref_listener (uncached both_scheduler) both_R (uncached_rec both_reconciler))
      ?acts (forget_prog both_prog) = Some (forget_prog s)"
    by (simp only: same s option.map)
  with s x(3,4) show ?thesis by (intro exI [of _ s] exI [of _ "forget_prog s"]) simp
qed

end
