(* ===== verification/Server_Start.thy ===== *)
theory Server_Start
  imports Http_Server Transitions
begin

section \<open>The life of the report server\<close>

text \<open>
  \<open>Start\<close> of \<^verbatim>\<open>internal/reports/httpserver/server.go\<close>: a goroutine that listens and serves, and the caller's, which
  waits for the context to end, closes the server and returns. What \<open>ListenAndServe\<close> and \<open>Close\<close> return is in the
  actions; \<open>ErrServerClosed\<close> is \<^verbatim>\<open>http.ErrServerClosed\<close>.
\<close>

datatype serving = Serving listening | Exited "goerr option"

datatype start_main = Waiting | Returned "goerr option"

record start_state =
  ss_done :: "goerr option"
  ss_main :: start_main
  ss_serving :: serving
  ss_logged :: "goerr list"

text \<open>\<open>ctx.Err()\<close> becomes \<open>err\<close>; \<open>ListenAndServe\<close> returns; the caller goes on, with what \<open>Close\<close> returns.\<close>

datatype start_act = CtxDone goerr | ServeReturns "goerr option" | CloseReturns "goerr option"

definition serve_exit :: "goerr \<Rightarrow> goerr option \<Rightarrow> start_state \<Rightarrow> start_state" where
  "serve_exit ErrServerClosed serverErr s =
     (case serverErr of
        Some e \<Rightarrow>
          if \<not> errors_is e ErrServerClosed
          then s\<lparr>ss_serving := Exited serverErr, ss_logged := ss_logged s @ [e]\<rparr>
          else s\<lparr>ss_serving := Exited serverErr\<rparr>
      | None \<Rightarrow> s\<lparr>ss_serving := Exited serverErr\<rparr>)"

definition start_return :: "goerr option \<Rightarrow> goerr option \<Rightarrow> goerr option" where
  "start_return closeErr ctxErr =
     (case closeErr of Some err \<Rightarrow> Some (ErrWrap ''error shutting down server: '' err '''') | None \<Rightarrow> ctxErr)"

fun start_exec :: "goerr \<Rightarrow> start_act \<Rightarrow> start_state \<Rightarrow> start_state option" where
  "start_exec ErrServerClosed (CtxDone err) s =
     (if ss_done s = None then Some (s\<lparr>ss_done := Some err\<rparr>) else None)"
| "start_exec ErrServerClosed (ServeReturns serverErr) s =
     (case ss_serving s of Serving l \<Rightarrow> Some (serve_exit ErrServerClosed serverErr s) | Exited e \<Rightarrow> None)"
| "start_exec ErrServerClosed (CloseReturns closeErr) s =
     (if ss_main s = Waiting \<and> ss_done s \<noteq> None
      then Some (s\<lparr>ss_main := Returned (start_return closeErr (ss_done s))\<rparr>) else None)"

definition server_started :: "http_options \<Rightarrow> start_state" where
  "server_started opts =
     \<lparr>ss_done = None, ss_main = Waiting, ss_serving = Serving (server_listening opts), ss_logged = []\<rparr>"

subsection \<open>The invariant\<close>

text \<open>
  The caller waits until the context ends and then returns an error in any case; a failure to serve is
  in the log and nowhere else.
\<close>

definition returned_ok :: "start_state \<Rightarrow> bool" where
  "returned_ok s \<longleftrightarrow> (\<forall>r. ss_main s = Returned r \<longrightarrow> (\<exists>c. ss_done s = Some c
     \<and> (r = Some c \<or> (\<exists>e. r = Some (ErrWrap ''error shutting down server: '' e '''')))))"

definition logged_ok :: "goerr \<Rightarrow> http_options \<Rightarrow> start_state \<Rightarrow> bool" where
  "logged_ok ErrServerClosed opts s \<longleftrightarrow>
     (case ss_serving s of
        Serving l \<Rightarrow> l = server_listening opts \<and> ss_logged s = []
      | Exited e \<Rightarrow> ss_logged s = (case e of Some err \<Rightarrow> if errors_is err ErrServerClosed then [] else [err] | None \<Rightarrow> []))"

definition start_inv :: "goerr \<Rightarrow> http_options \<Rightarrow> start_state \<Rightarrow> bool" where
  "start_inv ErrServerClosed opts s \<longleftrightarrow> returned_ok s \<and> logged_ok ErrServerClosed opts s"

lemmas start_inv_defs = start_inv_def returned_ok_def logged_ok_def

lemma logged_ok_frame [simp]: "logged_ok C opts (s\<lparr>ss_main := m\<rparr>) = logged_ok C opts s"
  by (simp add: logged_ok_def split: serving.split)

lemma start_inv_exec:
  assumes "start_inv C opts s" "start_exec C a s = Some s'"
  shows "start_inv C opts s'"
proof (cases a)
  case (CloseReturns closeErr)
  with assms(2) obtain c where c: "ss_done s = Some c"
    and s': "s' = s\<lparr>ss_main := Returned (start_return closeErr (Some c))\<rparr>"
    by (auto split: if_splits)
  have "start_return closeErr (Some c) = Some c
      \<or> (\<exists>e. start_return closeErr (Some c) = Some (ErrWrap ''error shutting down server: '' e ''''))"
    by (simp add: start_return_def split: option.split)
  with c s' have "returned_ok s'" by (auto simp: returned_ok_def)
  moreover have "logged_ok C opts s'" using s' assms(1) by (simp add: start_inv_def)
  ultimately show ?thesis by (simp add: start_inv_def)
qed (use assms in \<open>auto simp: start_inv_defs serve_exit_def split: if_splits serving.splits option.splits\<close>)

interpretation starting: inductive_invariant "\<lambda>s. s = server_started opts" "start_exec C" "start_inv C opts" for opts C
proof
  show "start_inv C opts s" if "s = server_started opts" for s
    using that by (simp add: start_inv_defs server_started_def)
qed (rule start_inv_exec)

subsection \<open>Properties of \<open>Start\<close>\<close>

text \<open>
  \<open>Start\<close> does not say when it cannot serve. Until the context ends it has not returned, whatever
  \<open>ListenAndServe\<close> returned (an address in use, a certificate that is not there), which is logged only; and when the
  context has ended it returns an error in any case, the context's own or the one of closing the server.
\<close>

theorem start_hides_listen_errors:
  assumes "reach (\<lambda>s. s = server_started opts) (start_exec ErrServerClosed) s"
  shows "(ss_done s = None \<longrightarrow> ss_main s = Waiting)
    \<and> (\<forall>r. ss_main s = Returned r \<longrightarrow> r \<noteq> None)
    \<and> (\<forall>err. ss_serving s = Exited (Some err) \<longrightarrow> \<not> errors_is err ErrServerClosed \<longrightarrow> ss_logged s = [err])"
proof -
  have inv: "start_inv ErrServerClosed opts s" by (rule starting.reach_inv [OF assms])
  then have "ss_main s = Waiting" if "ss_done s = None"
    using that by (cases "ss_main s") (simp_all add: start_inv_defs)
  with inv show ?thesis by (auto simp: start_inv_defs)
qed

text \<open>A server whose address is in use: the context has not ended, nobody serves, and \<open>Start\<close> waits.\<close>

theorem start_hides_listen_errors_witness:
  "\<exists>s. run_acts (start_exec (ErrMsg ''http: Server closed'')) [ServeReturns (Some (ErrMsg ''address already in use''))]
         (server_started opts) = Some s
     \<and> ss_serving s = Exited (Some (ErrMsg ''address already in use'')) \<and> ss_main s = Waiting
     \<and> ss_logged s = [ErrMsg ''address already in use'']"
proof -
  let ?C = "ErrMsg ''http: Server closed''"
  have "\<exists>s. run_acts (start_exec ?C) [ServeReturns (Some (ErrMsg ''address already in use''))] (server_started opts) = Some s
     \<and> ss_done s = None \<and> ss_serving s = Exited (Some (ErrMsg ''address already in use''))"
    by (simp add: server_started_def serve_exit_def)
  then obtain s where s: "run_acts (start_exec ?C) [ServeReturns (Some (ErrMsg ''address already in use''))]
      (server_started opts) = Some s" "ss_done s = None"
    "ss_serving s = Exited (Some (ErrMsg ''address already in use''))" by blast
  have "reach (\<lambda>s. s = server_started opts) (start_exec ?C) s"
    by (rule run_acts_reach [OF reach.start s(1)]) simp
  from start_hides_listen_errors [OF this] s show ?thesis by auto
qed

end
