(* ===== verification/Compiler_Threads.thy ===== *)
theory Compiler_Threads
  imports Policy_Compiler Transitions
begin

section \<open>The policy compiler under concurrent calls\<close>

text \<open>
  \<^verbatim>\<open>internal/policy/compiler.go\<close> again, one statement at a time: \<open>Get\<close> and \<open>Remove\<close> hold \<open>c.mu\<close> from
  their first statement to their return, \<open>Clear\<close> takes no lock, and the goroutines of the scheduler and
  of the reconciler call them on one \<open>Compiler\<close>. The cache is safe for concurrent use (each of its
  operations is one step). The theory \<open>Policy_Compiler\<close> has the operations as atomic functions; here every
  interleaving of the statements is shown to be a sequence of those functions, and every call in
  progress to be able to finish.
\<close>

subsection \<open>Goroutines\<close>

text \<open>
  What a call answers, and where a goroutine is in its call: before \<open>Lock\<close>, before \<open>cache.Get\<close>, before
  \<open>compile\<close> (after a miss or a stale hit), before \<open>cache.Add\<close>, before the deferred \<open>Unlock\<close>.
\<close>

datatype 'p answer = GotPolicy "'p compiled_policy res" | Removed "goerr option" | Cleared

datatype ('x, 'p) pc =
    Idle
  | GetLock "'x policy" | GetLookup "'x policy" | GetCompile "'x policy"
  | GetAdd "'x policy" "'p compiled_policy" | GetUnlock "'x policy" "'p compiled_policy res"
  | RemoveLock "'x policy" | RemoveDo "'x policy" | RemoveUnlock "'x policy"
  | ClearDo | ClearReturn

text \<open>
  The history is not part of the program: it records when each call was made, took effect on the
  cache, and returned.
\<close>

datatype ('x, 'p) event =
    ECall nat "'x comp_op" | EEffect nat "'x comp_op" "'p answer" | EReturn nat "'x comp_op" "'p answer"

record ('x, 'p, 'c) shared =
  sh_cache :: 'c
  sh_mu :: "nat option"
  sh_pcs :: "('x, 'p) pc list"
  sh_trace :: "('x, 'p) event list"

definition goto :: "nat \<Rightarrow> ('x, 'p) pc \<Rightarrow> ('x, 'p) event list \<Rightarrow> ('x, 'p, 'c) shared \<Rightarrow> ('x, 'p, 'c) shared" where
  "goto g k es s = s\<lparr>sh_pcs := (sh_pcs s)[g := k], sh_trace := sh_trace s @ es\<rparr>"

fun entry_point :: "'x comp_op \<Rightarrow> ('x, 'p) pc" where
  "entry_point (OpGet p) = GetLock p"
| "entry_point (OpRemove p) = RemoveLock p"
| "entry_point OpClear = ClearDo"

text \<open>
  One statement of goroutine \<open>g\<close>. \<open>Lock\<close> waits while another goroutine holds the mutex. A call takes
  effect where the cache answers for the last time: at the lookup for a hit, at the failed compilation,
  at \<open>Add\<close>, at \<open>Remove\<close>, at \<open>Clear\<close>.
\<close>

fun statement :: "('a, 'p, 'v, 'c) compiler \<Rightarrow> nat \<Rightarrow> ('x, 'p) pc \<Rightarrow> ('x, 'p, 'c) shared \<Rightarrow>
    ('x, 'p, 'c) shared option" where
  "statement C g Idle s = None"
| "statement C g (GetLock p) s =
     (if sh_mu s = None then Some (goto g (GetLookup p) [] (s\<lparr>sh_mu := Some g\<rparr>)) else None)"
| "statement C g (GetLookup p) s =
     (case lru_get (comp_lru C) (sh_cache s) (cacheKey p) of
        (Some (CForeign t), c) \<Rightarrow>
          (let r = Inl (ErrMsg (''invalid type in cache, got '' @ t))
           in Some (goto g (GetUnlock p r) [EEffect g (OpGet p) (GotPolicy r)] (s\<lparr>sh_cache := c\<rparr>)))
      | (Some (CPolicy q), c) \<Rightarrow>
          if cp_observedGeneration q = pol_generation p
          then Some (goto g (GetUnlock p (Inr q)) [EEffect g (OpGet p) (GotPolicy (Inr q))] (s\<lparr>sh_cache := c\<rparr>))
          else Some (goto g (GetCompile p) [] (s\<lparr>sh_cache := c\<rparr>))
      | (None, c) \<Rightarrow> Some (goto g (GetCompile p) [] (s\<lparr>sh_cache := c\<rparr>)))"
| "statement C g (GetCompile p) s =
     (case compile (comp_env C) p of
        Inl e \<Rightarrow> Some (goto g (GetUnlock p (Inl e)) [EEffect g (OpGet p) (GotPolicy (Inl e))] s)
      | Inr q \<Rightarrow> Some (goto g (GetAdd p q) [] s))"
| "statement C g (GetAdd p q) s =
     Some (goto g (GetUnlock p (Inr q)) [EEffect g (OpGet p) (GotPolicy (Inr q))]
       (s\<lparr>sh_cache := lru_add (comp_lru C) (sh_cache s) (cacheKey p) (CPolicy q)\<rparr>))"
| "statement C g (GetUnlock p r) s =
     Some (goto g Idle [EReturn g (OpGet p) (GotPolicy r)] (s\<lparr>sh_mu := None\<rparr>))"
| "statement C g (RemoveLock p) s =
     (if sh_mu s = None then Some (goto g (RemoveDo p) [] (s\<lparr>sh_mu := Some g\<rparr>)) else None)"
| "statement C g (RemoveDo p) s =
     Some (goto g (RemoveUnlock p) [EEffect g (OpRemove p) (Removed None)]
       (s\<lparr>sh_cache := lru_remove (comp_lru C) (sh_cache s) (cacheKey p)\<rparr>))"
| "statement C g (RemoveUnlock p) s =
     Some (goto g Idle [EReturn g (OpRemove p) (Removed None)] (s\<lparr>sh_mu := None\<rparr>))"
| "statement C g ClearDo s =
     Some (goto g ClearReturn [EEffect g OpClear Cleared]
       (s\<lparr>sh_cache := lru_clear (comp_lru C) (sh_cache s)\<rparr>))"
| "statement C g ClearReturn s = Some (goto g Idle [EReturn g OpClear Cleared] s)"

text \<open>A goroutine makes a call, or a goroutine executes its next statement.\<close>

datatype 'x thread_act = TCall nat "'x comp_op" | TStep nat

fun threads_exec :: "('a, 'p, 'v, 'c) compiler \<Rightarrow> 'x thread_act \<Rightarrow> ('x, 'p, 'c) shared \<Rightarrow>
    ('x, 'p, 'c) shared option" where
  "threads_exec C (TCall g x) s =
     (if g < length (sh_pcs s) \<and> sh_pcs s ! g = Idle then Some (goto g (entry_point x) [ECall g x] s) else None)"
| "threads_exec C (TStep g) s =
     (if g < length (sh_pcs s) then statement C g (sh_pcs s ! g) s else None)"

definition threads_start :: "nat \<Rightarrow> 'c \<Rightarrow> ('x, 'p, 'c) shared" where
  "threads_start n c = \<lparr>sh_cache = c, sh_mu = None, sh_pcs = replicate n Idle, sh_trace = []\<rparr>"

abbreviation threads_reach :: "('a, 'p, 'v, 'c) compiler \<Rightarrow> nat \<Rightarrow> 'c \<Rightarrow> ('x, 'p, 'c) shared \<Rightarrow> bool" where
  "threads_reach C n c \<equiv> reach (\<lambda>s. s = threads_start n c) (threads_exec C)"

lemma goto_simps [simp]:
  "sh_cache (goto g k es s) = sh_cache s" "sh_mu (goto g k es s) = sh_mu s"
  "sh_pcs (goto g k es s) = (sh_pcs s)[g := k]" "sh_trace (goto g k es s) = sh_trace s @ es"
  by (simp_all add: goto_def)

subsection \<open>The specification: operations that take effect at one point\<close>

text \<open>
  The effects of a history in their order; a sequence of effects is legal when each answer is the one
  the atomic operation gives on the cache that the earlier ones left.
\<close>

fun atomically :: "('a, 'p, 'v, 'c) compiler \<Rightarrow> 'x comp_op \<Rightarrow> 'c \<Rightarrow> 'p answer" where
  "atomically C (OpGet p) c = GotPolicy (fst (Get C p c))"
| "atomically C (OpRemove p) c = Removed (fst (Remove C p c))"
| "atomically C OpClear c = Cleared"

fun effects :: "('x, 'p) event list \<Rightarrow> ('x comp_op \<times> 'p answer) list" where
  "effects [] = []"
| "effects (EEffect g x a # es) = (x, a) # effects es"
| "effects (e # es) = effects es"

fun legal :: "('a, 'p, 'v, 'c) compiler \<Rightarrow> 'c \<Rightarrow> ('x comp_op \<times> 'p answer) list \<Rightarrow> bool" where
  "legal C c [] = True"
| "legal C c ((x, a) # es) = (a = atomically C x c \<and> legal C (comp_step C x c) es)"

text \<open>
  The events of one goroutine must be calls that each take effect once, between the call and the
  return, and that return the answer of their effect.
\<close>

datatype ('x, 'p) phase = Outside | Called "'x comp_op" | Effective "'x comp_op" "'p answer"

fun follow :: "('x, 'p) phase \<Rightarrow> ('x, 'p) event list \<Rightarrow> ('x, 'p) phase option" where
  "follow ph [] = Some ph"
| "follow Outside (ECall g x # es) = follow (Called x) es"
| "follow (Called x) (EEffect g y a # es) = (if y = x then follow (Effective x a) es else None)"
| "follow (Effective x a) (EReturn g y b # es) = (if y = x \<and> b = a then follow Outside es else None)"
| "follow ph (e # es) = None"

fun event_thread :: "('x, 'p) event \<Rightarrow> nat" where
  "event_thread (ECall g x) = g"
| "event_thread (EEffect g x a) = g"
| "event_thread (EReturn g x a) = g"

definition events_of :: "nat \<Rightarrow> ('x, 'p) event list \<Rightarrow> ('x, 'p) event list" where
  "events_of g es = filter (\<lambda>e. event_thread e = g) es"

lemma effects_append [simp]: "effects (es @ fs) = effects es @ effects fs"
  by (induction es rule: effects.induct) simp_all

lemma run_ops_append [simp]: "run_ops C (xs @ ys) c = run_ops C ys (run_ops C xs c)"
  by (induction xs arbitrary: c) simp_all

lemma legal_append:
  "legal C c (es @ fs) \<longleftrightarrow> legal C c es \<and> legal C (run_ops C (map fst es) c) fs"
  by (induction C c es rule: legal.induct) simp_all

lemma follow_append:
  "follow ph (es @ fs) = (case follow ph es of None \<Rightarrow> None | Some ph' \<Rightarrow> follow ph' fs)"
  by (induction ph es rule: follow.induct) simp_all

lemma events_of_simps [simp]:
  "events_of g [] = []" "events_of g (es @ fs) = events_of g es @ events_of g fs"
  "events_of g (e # es) = (if event_thread e = g then e # events_of g es else events_of g es)"
  by (simp_all add: events_of_def)


subsection \<open>Mutual exclusion\<close>

text \<open>The goroutines between their \<open>Lock\<close> and their \<open>Unlock\<close>.\<close>

fun holds :: "('x, 'p) pc \<Rightarrow> bool" where
  "holds (GetLookup p) = True"
| "holds (GetCompile p) = True"
| "holds (GetAdd p q) = True"
| "holds (GetUnlock p r) = True"
| "holds (RemoveDo p) = True"
| "holds (RemoveUnlock p) = True"
| "holds k = False"

definition exclusive :: "('x, 'p, 'c) shared \<Rightarrow> bool" where
  "exclusive s \<longleftrightarrow>
     (\<forall>g < length (sh_pcs s). holds (sh_pcs s ! g) \<longleftrightarrow> sh_mu s = Some g)
   \<and> (\<forall>g. sh_mu s = Some g \<longrightarrow> g < length (sh_pcs s))"

lemma entry_point_simps [simp]:
  "\<not> holds (entry_point x)" "entry_point x \<noteq> Idle"
  by (cases x; simp)+

text \<open>What a statement does to the mutex and to the program counter of its goroutine.\<close>

lemma statement_frame:
  "statement C g k s = Some s' \<Longrightarrow> \<exists>k' es. sh_pcs s' = (sh_pcs s)[g := k'] \<and> sh_trace s' = sh_trace s @ es
     \<and> k' \<noteq> k
     \<and> (if holds k = holds k' then sh_mu s' = sh_mu s
        else if holds k then sh_mu s' = None else sh_mu s = None \<and> sh_mu s' = Some g)"
  by (cases k)
     (auto simp: Let_def split: if_splits prod.splits option.splits cached.splits sum.splits)

lemma exclusive_exec:
  assumes "exclusive s" "threads_exec C a s = Some s'"
  shows "exclusive s'"
proof (cases a)
  case (TCall g x)
  with assms(2) have g: "g < length (sh_pcs s)" "sh_pcs s ! g = Idle"
    and s': "s' = goto g (entry_point x) [ECall g x] s" by (auto split: if_splits)
  from g assms(1) have "sh_mu s \<noteq> Some g" by (force simp: exclusive_def)
  with s' g assms(1) show ?thesis
    unfolding exclusive_def by (auto simp: nth_list_update)
next
  case (TStep g)
  with assms(2) have g: "g < length (sh_pcs s)" and st: "statement C g (sh_pcs s ! g) s = Some s'"
    by (auto split: if_splits)
  from statement_frame [OF st] assms(1) g show ?thesis
    unfolding exclusive_def by (auto simp: nth_list_update split: if_splits)
qed

interpretation mutex: inductive_invariant
  "\<lambda>s. s = threads_start n c" "threads_exec C" exclusive
  for n c C
proof
  fix s :: "('x, 'p, 'c) shared"
  show "exclusive s" if "s = threads_start n c" using that by (simp add: exclusive_def threads_start_def)
qed (rule exclusive_exec)

subsection \<open>Calls in progress can finish\<close>

text \<open>
  Nobody waits for ever: while some call is in progress a goroutine can move on (the holder of the mutex
  when there is one), and every statement brings its call nearer to its end.
\<close>

fun todo :: "('x, 'p) pc \<Rightarrow> nat" where
  "todo Idle = 0"
| "todo (GetLock p) = 5"
| "todo (GetLookup p) = 4"
| "todo (GetCompile p) = 3"
| "todo (GetAdd p q) = 2"
| "todo (GetUnlock p r) = 1"
| "todo (RemoveLock p) = 3"
| "todo (RemoveDo p) = 2"
| "todo (RemoveUnlock p) = 1"
| "todo ClearDo = 2"
| "todo ClearReturn = 1"

definition in_progress :: "('x, 'p, 'c) shared \<Rightarrow> nat" where
  "in_progress s = sum_list (map todo (sh_pcs s))"

fun is_step :: "'x thread_act \<Rightarrow> bool" where
  "is_step (TStep g) = True"
| "is_step (TCall g x) = False"

lemma statement_todo:
  "statement C g k s = Some s' \<Longrightarrow> \<exists>k'. sh_pcs s' = (sh_pcs s)[g := k'] \<and> todo k' < todo k"
  by (cases k)
     (auto simp: Let_def split: if_splits prod.splits option.splits cached.splits sum.splits)

lemma statement_enabled:
  assumes "k \<noteq> Idle" "holds k \<or> sh_mu s = None"
  shows "\<exists>s'. statement C g k s = Some s'"
  using assms
  by (cases k) (auto simp: Let_def split: prod.split option.split cached.split sum.split)

lemma todo_0 [simp]: "todo k = 0 \<longleftrightarrow> k = Idle"
  by (cases k) simp_all

lemma sum_list_map_update_less:
  fixes f :: "'b \<Rightarrow> nat"
  shows "g < length xs \<Longrightarrow> f k < f (xs ! g) \<Longrightarrow> sum_list (map f (xs[g := k])) < sum_list (map f xs)"
  by (induction xs arbitrary: g) (auto simp: nth_Cons less_Suc_eq_0_disj split: nat.splits)

lemma sum_todo_pos: "0 < sum_list (map todo ks) \<Longrightarrow> \<exists>k \<in> set ks. k \<noteq> Idle"
  by (induction ks) auto

lemma threads_progress:
  assumes "exclusive s" "0 < in_progress s"
  shows "\<exists>a s'. is_step a \<and> threads_exec C a s = Some s'"
proof -
  from assms(2) obtain k where "k \<in> set (sh_pcs s)" "k \<noteq> Idle"
    using sum_todo_pos by (auto simp: in_progress_def)
  then obtain g where g: "g < length (sh_pcs s)" "sh_pcs s ! g \<noteq> Idle"
    by (auto simp: in_set_conv_nth)
  have "\<exists>h < length (sh_pcs s). sh_pcs s ! h \<noteq> Idle \<and> (holds (sh_pcs s ! h) \<or> sh_mu s = None)"
  proof (cases "sh_mu s")
    case None
    with g show ?thesis by blast
  next
    case (Some h)
    with assms(1) have "h < length (sh_pcs s)" "holds (sh_pcs s ! h)"
      by (auto simp: exclusive_def)
    then show ?thesis by force
  qed
  then obtain h where h: "h < length (sh_pcs s)" "sh_pcs s ! h \<noteq> Idle"
    "holds (sh_pcs s ! h) \<or> sh_mu s = None" by blast
  from statement_enabled [OF h(2,3)] h(1) show ?thesis
    by (intro exI [of _ "TStep h"]) simp
qed

lemma threads_decrease:
  assumes "is_step a" "threads_exec C a s = Some s'"
  shows "in_progress s' < in_progress s"
proof -
  from assms obtain g where g: "g < length (sh_pcs s)" "statement C g (sh_pcs s ! g) s = Some s'"
    by (cases a) (auto split: if_splits)
  from statement_todo [OF g(2)] sum_list_map_update_less [OF g(1), of todo] show ?thesis
    by (auto simp: in_progress_def)
qed

interpretation finishing: draining
  "\<lambda>s. s = threads_start n c" "threads_exec C" exclusive is_step in_progress "\<lambda>s. False"
  for n c C
  by (intro draining.intro draining_axioms.intro mutex.inductive_invariant_axioms)
     (rule threads_progress threads_decrease; assumption)+


subsection \<open>Each goroutine's calls take effect once, between call and return\<close>

fun phase_of :: "('x, 'p) pc \<Rightarrow> ('x, 'p) phase" where
  "phase_of Idle = Outside"
| "phase_of (GetLock p) = Called (OpGet p)"
| "phase_of (GetLookup p) = Called (OpGet p)"
| "phase_of (GetCompile p) = Called (OpGet p)"
| "phase_of (GetAdd p q) = Called (OpGet p)"
| "phase_of (GetUnlock p r) = Effective (OpGet p) (GotPolicy r)"
| "phase_of (RemoveLock p) = Called (OpRemove p)"
| "phase_of (RemoveDo p) = Called (OpRemove p)"
| "phase_of (RemoveUnlock p) = Effective (OpRemove p) (Removed None)"
| "phase_of ClearDo = Called OpClear"
| "phase_of ClearReturn = Effective OpClear Cleared"

definition in_phase :: "('x, 'p, 'c) shared \<Rightarrow> bool" where
  "in_phase s \<longleftrightarrow>
     (\<forall>g. follow Outside (events_of g (sh_trace s))
          = Some (if g < length (sh_pcs s) then phase_of (sh_pcs s ! g) else Outside))"

lemma phase_entry_point [simp]: "phase_of (entry_point x) = Called x"
  by (cases x) simp_all

lemma statement_events:
  "statement C g k s = Some s' \<Longrightarrow> \<exists>k' es. sh_pcs s' = (sh_pcs s)[g := k'] \<and> sh_trace s' = sh_trace s @ es
     \<and> list_all (\<lambda>e. event_thread e = g) es \<and> follow (phase_of k) es = Some (phase_of k')"
  by (cases k)
     (auto simp: Let_def split: if_splits prod.splits option.splits cached.splits sum.splits)

lemma in_phase_update:
  assumes "in_phase s" "g < length (sh_pcs s)" "list_all (\<lambda>e. event_thread e = g) es"
    and "follow (phase_of (sh_pcs s ! g)) es = Some (phase_of k)"
    and "sh_pcs s' = (sh_pcs s)[g := k]" "sh_trace s' = sh_trace s @ es"
  shows "in_phase s'"
proof -
  from assms(3) have "events_of h es = (if h = g then es else [])" for h
    by (induction es) (auto simp: events_of_def)
  with assms show ?thesis by (auto simp: in_phase_def follow_append)
qed

lemma in_phase_exec:
  assumes "in_phase s" "threads_exec C a s = Some s'"
  shows "in_phase s'"
proof (cases a)
  case (TCall g x)
  with assms(2) have "g < length (sh_pcs s)" "sh_pcs s ! g = Idle"
    and "s' = goto g (entry_point x) [ECall g x] s" by (auto split: if_splits)
  then show ?thesis
    by (intro in_phase_update [OF assms(1), of g "[ECall g x]" "entry_point x"]) simp_all
next
  case (TStep g)
  with assms(2) have g: "g < length (sh_pcs s)" and st: "statement C g (sh_pcs s ! g) s = Some s'"
    by (auto split: if_splits)
  from statement_events [OF st] in_phase_update [OF assms(1) g] show ?thesis by blast
qed

interpretation phases: inductive_invariant
  "\<lambda>s. s = threads_start n c" "threads_exec C" in_phase
  for n c C
proof
  fix s :: "('x, 'p, 'c) shared"
  show "in_phase s" if "s = threads_start n c" using that by (simp add: in_phase_def threads_start_def)
qed (rule in_phase_exec)

subsection \<open>The effects are a legal sequence\<close>

text \<open>
  Two more documented facts of the cache: a lookup that misses leaves it as it is (it moves no entry to
  the front), and an emptied cache is the same whatever order its entries were in.
\<close>

locale steady_lru = lru_cache +
  assumes get_miss: "fst (lru_get L c k) = None \<Longrightarrow> snd (lru_get L c k) = c"
    and clear_get: "lru_clear L (snd (lru_get L c k)) = lru_clear L c"
begin

lemma get_cleared: "lru_get L (lru_clear L c) k = (None, lru_clear L c)"
  using get_hit [of "lru_clear L c" k] get_miss [of "lru_clear L c" k]
  by (simp add: contents_clear prod_eq_iff)

end

text \<open>A \<open>Get\<close> that has looked its policy up and found nothing it can use.\<close>

fun unusable :: "'x policy \<Rightarrow> 'p cached option \<Rightarrow> bool" where
  "unusable p None = True"
| "unusable p (Some (CPolicy q)) = (cp_observedGeneration q \<noteq> pol_generation p)"
| "unusable p (Some (CForeign t)) = False"

fun looked_up :: "('x, 'p) pc \<Rightarrow> 'x policy option" where
  "looked_up (GetCompile p) = Some p"
| "looked_up (GetAdd p q) = Some p"
| "looked_up k = None"

definition pending :: "('x, 'p, 'c) shared \<Rightarrow> 'x policy option" where
  "pending s = (case sh_mu s of None \<Rightarrow> None | Some g \<Rightarrow> looked_up (sh_pcs s ! g))"

text \<open>
  The cache is the one the effects produced, or, while a \<open>Get\<close> works between its lookup and its effect,
  that one after an unusable lookup.
\<close>

definition behind :: "('a, 'p, 'v, 'c) compiler \<Rightarrow> 'x policy option \<Rightarrow> 'c \<Rightarrow> 'c \<Rightarrow> bool" where
  "behind C pend c cache \<longleftrightarrow>
     (case pend of
        None \<Rightarrow> cache = c
      | Some p \<Rightarrow>
          unusable p (fst (lru_get (comp_lru C) c (cacheKey p)))
        \<and> cache = snd (lru_get (comp_lru C) c (cacheKey p)))"

definition compiled_pcs :: "('a, 'p, 'v, 'c) compiler \<Rightarrow> ('x, 'p, 'c) shared \<Rightarrow> bool" where
  "compiled_pcs C s \<longleftrightarrow>
     (\<forall>p q. GetAdd p q \<in> set (sh_pcs s) \<longrightarrow> compile (comp_env C) p = Inr q)"

definition effects_cache :: "('a, 'p, 'v, 'c) compiler \<Rightarrow> 'c \<Rightarrow> ('x, 'p) event list \<Rightarrow> 'c" where
  "effects_cache C c es = run_ops C (map fst (effects es)) c"

definition consistent :: "('a, 'p, 'v, 'c) compiler \<Rightarrow> 'c \<Rightarrow> ('x, 'p, 'c) shared \<Rightarrow> bool" where
  "consistent C c s \<longleftrightarrow>
     exclusive s \<and> compiled_pcs C s \<and> legal C c (effects (sh_trace s))
   \<and> behind C (pending s) (effects_cache C c (sh_trace s)) (sh_cache s)"

lemma Get_unusable:
  assumes "unusable p (fst (lru_get (comp_lru C) c (cacheKey p)))"
  shows "Get C p c = compile_and_add C p (snd (lru_get (comp_lru C) c (cacheKey p)))"
proof (cases "lru_get (comp_lru C) c (cacheKey p)")
  case (Pair h c1)
  with assms show ?thesis by (cases "(p, h)" rule: unusable.cases) (simp_all add: Get_def)
qed


lemma pending_goto:
  "sh_mu s = Some g \<Longrightarrow> g < length (sh_pcs s) \<Longrightarrow> pending (goto g k es s) = looked_up k"
  by (simp add: pending_def)

lemma pending_held:
  "exclusive s \<Longrightarrow> g < length (sh_pcs s) \<Longrightarrow> holds (sh_pcs s ! g) \<Longrightarrow>
   sh_mu s = Some g \<and> pending s = looked_up (sh_pcs s ! g)"
  by (auto simp: exclusive_def pending_def)

lemma pending_other:
  assumes "exclusive s" "g < length (sh_pcs s)" "\<not> holds (sh_pcs s ! g)"
  shows "pending (goto g k es (s\<lparr>sh_cache := c\<rparr>)) = pending s"
proof -
  from assms have "sh_mu s \<noteq> Some g" by (auto simp: exclusive_def)
  then show ?thesis by (auto simp: pending_def split: option.split)
qed

lemma pending_free: "sh_mu s = None \<Longrightarrow> pending s = None"
  by (simp add: pending_def)

lemma effects_cache_snoc [simp]:
  "effects_cache C c (es @ [ECall g x]) = effects_cache C c es"
  "effects_cache C c (es @ [EReturn g x a]) = effects_cache C c es"
  "effects_cache C c (es @ [EEffect g x a]) = comp_step C x (effects_cache C c es)"
  by (simp_all add: effects_cache_def)

lemma legal_snoc [simp]:
  "legal C c (effects es @ [(x, a)])
     \<longleftrightarrow> legal C c (effects es) \<and> a = atomically C x (effects_cache C c es)"
  by (simp add: legal_append effects_cache_def)

lemma compiled_pcs_exec:
  assumes "compiled_pcs C s" "threads_exec C a s = Some s'"
  shows "compiled_pcs C s'"
proof -
  have upd: "compiled_pcs C s'"
    if "sh_pcs s' = (sh_pcs s)[g := k]" "\<And>p q. k = GetAdd p q \<Longrightarrow> compile (comp_env C) p = Inr q" for g k
    using assms(1) that set_update_subset_insert [of "sh_pcs s" g k]
    by (auto simp: compiled_pcs_def)
  show ?thesis
  proof (cases a)
    case (TCall g x)
    with assms(2) have "sh_pcs s' = (sh_pcs s)[g := entry_point x]" by (auto split: if_splits)
    then show ?thesis by (rule upd) (cases x; simp)
  next
    case (TStep g)
    with assms(2) have "statement C g (sh_pcs s ! g) s = Some s'" by (auto split: if_splits)
    then have "\<exists>k. sh_pcs s' = (sh_pcs s)[g := k] \<and> (\<forall>p q. k = GetAdd p q \<longrightarrow> compile (comp_env C) p = Inr q)"
      by (cases "sh_pcs s ! g")
         (auto simp: Let_def split: if_splits prod.splits option.splits cached.splits sum.splits)
    then show ?thesis using upd by blast
  qed
qed

text \<open>The effect of each kind of call, from what its goroutine has seen.\<close>

lemma compile_and_add_eqs:
  "compile (comp_env C) p = Inl e \<Longrightarrow> compile_and_add C p c = (Inl e, c)"
  "compile (comp_env C) p = Inr q \<Longrightarrow>
     compile_and_add C p c = (Inr q, lru_add (comp_lru C) c (cacheKey p) (CPolicy q))"
  by (simp_all add: compile_and_add_def)

lemma behind_lookup:
  assumes "lru_get (comp_lru C) c (cacheKey p) = (h, c1)" "unusable p h"
  shows "behind C (Some p) c c1"
  using assms by (simp add: behind_def)

lemma behind_None [simp]: "behind C None c cache \<longleftrightarrow> cache = c"
  by (simp add: behind_def)

lemma behind_compile:
  assumes "behind C (Some p) c cache"
  shows "Get C p c = compile_and_add C p cache"
  using assms by (simp add: behind_def Get_unusable)


lemma behind_hit:
  assumes "lru_get (comp_lru C) c (cacheKey p) = (Some h, c1)"
  shows "h = CForeign t \<Longrightarrow> Get C p c = (Inl (ErrMsg (''invalid type in cache, got '' @ t)), c1)"
    and "h = CPolicy q \<Longrightarrow> cp_observedGeneration q = pol_generation p \<Longrightarrow> Get C p c = (Inr q, c1)"
  using assms by (simp_all add: Get_def)

text \<open>A \<open>Clear\<close> may come between the lookup and the effect: it is as if it had come before the \<open>Get\<close>.\<close>

lemma behind_Clear:
  assumes "steady_lru (comp_lru C) contents" "behind C pend c cache"
  shows "behind C pend (comp_step C OpClear c) (lru_clear (comp_lru C) cache)"
proof (cases pend)
  case None
  with assms(2) show ?thesis by (simp add: Clear_def)
next
  case (Some p)
  with assms(2) show ?thesis
    using steady_lru.get_cleared [OF assms(1)] steady_lru.clear_get [OF assms(1)]
    by (simp add: behind_def Clear_def)
qed

lemmas take_effect = atomically.simps comp_step.simps legal_snoc effects_cache_snoc

lemma lookup_consistent:
  assumes "cache = effects_cache C c (sh_trace s)" "legal C c (effects (sh_trace s))"
    and "sh_cache s = cache" "sh_mu s = Some g" "g < length (sh_pcs s)"
    and "statement C g (GetLookup p) s = Some s'"
  shows "legal C c (effects (sh_trace s')) \<and> behind C (pending s') (effects_cache C c (sh_trace s')) (sh_cache s')"
proof -
  obtain h c1 where g: "lru_get (comp_lru C) cache (cacheKey p) = (h, c1)" by force
  show ?thesis
  proof (cases "unusable p h")
    case True
    with assms(3,6) g have s': "s' = goto g (GetCompile p) [] (s\<lparr>sh_cache := c1\<rparr>)"
      by (cases "(p, h)" rule: unusable.cases) simp_all
    with assms(2,4,5) assms(1) [symmetric] behind_lookup [OF g True] show ?thesis
      by (simp add: pending_goto)
  next
    case False
    then obtain e where e: "h = Some e" by (cases h) simp_all
    obtain r where s': "s' = goto g (GetUnlock p r) [EEffect g (OpGet p) (GotPolicy r)] (s\<lparr>sh_cache := c1\<rparr>)"
      and r: "Get C p cache = (r, c1)"
      using False assms(3,6) g e behind_hit [OF g [unfolded e]]
      by (cases e) (auto simp: Let_def)
    with assms(2,4,5) assms(1) [symmetric] show ?thesis by (simp add: pending_goto take_effect)
  qed
qed

lemma statement_consistent:
  assumes "steady_lru (comp_lru C) contents" "consistent C c s" "g < length (sh_pcs s)"
    and "statement C g (sh_pcs s ! g) s = Some s'"
  shows "legal C c (effects (sh_trace s')) \<and> behind C (pending s') (effects_cache C c (sh_trace s')) (sh_cache s')"
proof -
  from assms(2) have ex: "exclusive s" and lg: "legal C c (effects (sh_trace s))"
    and bh: "behind C (pending s) (effects_cache C c (sh_trace s)) (sh_cache s)"
    and cs: "compiled_pcs C s" by (simp_all add: consistent_def)
  note held = pending_held [OF ex assms(3)] and other = pending_other [OF ex assms(3)]
  note st = assms(4)
  show ?thesis
  proof (cases "sh_pcs s ! g")
    case (GetLookup p)
    with held bh have "sh_mu s = Some g" "sh_cache s = effects_cache C c (sh_trace s)" by simp_all
    with lookup_consistent [OF refl lg _ _ assms(3)] st GetLookup show ?thesis by simp
  next
    case (GetCompile p)
    with held bh have mu: "sh_mu s = Some g" and b: "behind C (Some p) (effects_cache C c (sh_trace s)) (sh_cache s)"
      by simp_all
    with st GetCompile lg assms(3) show ?thesis
      by (auto simp: pending_goto take_effect behind_compile compile_and_add_eqs split: sum.splits)
  next
    case (GetAdd p q)
    with held bh have mu: "sh_mu s = Some g" and b: "behind C (Some p) (effects_cache C c (sh_trace s)) (sh_cache s)"
      by simp_all
    from cs GetAdd assms(3) have "compile (comp_env C) p = Inr q"
      unfolding compiled_pcs_def by (metis nth_mem)
    with st GetAdd lg assms(3) mu b show ?thesis
      by (auto simp: pending_goto take_effect behind_compile compile_and_add_eqs)
  next
    case (RemoveDo p)
    with held bh have "sh_mu s = Some g" "sh_cache s = effects_cache C c (sh_trace s)" by simp_all
    with st RemoveDo lg assms(3) show ?thesis
      by (auto simp: pending_goto take_effect Remove_def)
  next
    case ClearDo
    with st lg bh other behind_Clear [OF assms(1) bh] show ?thesis
      by (auto simp: take_effect)
  next
    case ClearReturn
    with st lg bh other [where k = Idle and c = "sh_cache s"] show ?thesis by auto
  qed (use st lg bh held assms(3) in \<open>auto simp: pending_goto pending_free split: if_splits\<close>)
qed


lemma consistent_exec:
  assumes "steady_lru (comp_lru C) contents" "consistent C c s" "threads_exec C a s = Some s'"
  shows "consistent C c s'"
proof -
  from assms(2) have inv: "exclusive s" "compiled_pcs C s" by (simp_all add: consistent_def)
  have "legal C c (effects (sh_trace s')) \<and> behind C (pending s') (effects_cache C c (sh_trace s')) (sh_cache s')"
  proof (cases a)
    case (TCall g x)
    with assms(3) have g: "g < length (sh_pcs s)" "sh_pcs s ! g = Idle"
      and s': "s' = goto g (entry_point x) [ECall g x] s" by (auto split: if_splits)
    from pending_other [OF inv(1) g(1), where k = "entry_point x" and c = "sh_cache s"] g(2) s' assms(2)
    show ?thesis by (simp add: consistent_def)
  next
    case (TStep g)
    with assms(3) have "g < length (sh_pcs s)" "statement C g (sh_pcs s ! g) s = Some s'"
      by (auto split: if_splits)
    then show ?thesis by (rule statement_consistent [OF assms(1,2)])
  qed
  with exclusive_exec [OF inv(1) assms(3)] compiled_pcs_exec [OF inv(2) assms(3)]
  show ?thesis by (simp add: consistent_def)
qed

text \<open>The goroutines of a compiler over any cache with the laws.\<close>

locale compiler_threads = steady_lru "comp_lru C" contents
  for C :: "('a, 'p, 'v, 'c) compiler" and contents :: "'c \<Rightarrow> (string \<rightharpoonup> 'p cached)"

sublocale compiler_threads \<subseteq> lin: inductive_invariant
  "\<lambda>s. s = threads_start n c" "threads_exec C" "consistent C c" for n c
proof
  fix s :: "('x, 'p, 'c) shared"
  show "consistent C c s" if "s = threads_start n c"
    using that
    by (auto simp: consistent_def exclusive_def compiled_pcs_def threads_start_def pending_def effects_cache_def)
qed (rule consistent_exec [OF steady_lru_axioms])

context compiler_threads begin

lemma linearizable:
  assumes "threads_reach C n c s"
  shows "legal C c (effects (sh_trace s))"
    and "sh_mu s = None \<Longrightarrow> sh_cache s = run_ops C (map fst (effects (sh_trace s))) c"
  using lin.reach_inv [OF assms] by (simp_all add: consistent_def pending_def effects_cache_def)

end

text \<open>The answer that a call returned is the one of an effect, which the atomic operation gives.\<close>

lemma follow_returned:
  "follow ph es \<noteq> None \<Longrightarrow> EReturn g x a \<in> set es \<Longrightarrow> ph = Effective x a \<or> (x, a) \<in> set (effects es)"
  by (induction ph es rule: follow.induct) (auto split: if_splits)

lemma effects_events_of: "(x, a) \<in> set (effects (events_of g es)) \<Longrightarrow> (x, a) \<in> set (effects es)"
  by (induction es rule: effects.induct) (auto split: if_splits)

lemma returned_effect:
  assumes "threads_reach C n c s" "EReturn g x a \<in> set (sh_trace s)"
  shows "(x, a) \<in> set (effects (sh_trace s))"
proof -
  from phases.reach_inv [OF assms(1)] have "follow Outside (events_of g (sh_trace s)) \<noteq> None"
    by (simp add: in_phase_def)
  moreover from assms(2) have "EReturn g x a \<in> set (events_of g (sh_trace s))"
    by (simp add: events_of_def)
  ultimately have "(x, a) \<in> set (effects (events_of g (sh_trace s)))"
    using follow_returned by blast
  then show ?thesis by (rule effects_events_of)
qed

lemma legal_answer:
  "legal C c es \<Longrightarrow> (x, a) \<in> set es \<Longrightarrow>
   \<exists>pre post. es = pre @ (x, a) # post \<and> a = atomically C x (run_ops C (map fst pre) c)"
proof (induction C c es rule: legal.induct)
  case (2 C c y b es)
  show ?case
  proof (cases "(y, b) = (x, a)")
    case True
    with "2.prems" show ?thesis by (intro exI [of _ "[]"] exI [of _ es]) simp
  next
    case False
    with 2 obtain pre post where "es = pre @ (x, a) # post"
      "a = atomically C x (run_ops C (map fst pre) (comp_step C y c))" by auto
    then show ?thesis by (intro exI [of _ "(y, b) # pre"] exI [of _ post]) simp
  qed
qed simp


lemma follow_called:
  "follow ph es \<noteq> None \<Longrightarrow> EEffect g x a \<in> set es \<Longrightarrow> ph = Called x \<or> (\<exists>h. ECall h x \<in> set es)"
  by (induction ph es rule: follow.induct) (auto split: if_splits)

lemma effects_mem: "(x, a) \<in> set (effects es) \<longleftrightarrow> (\<exists>g. EEffect g x a \<in> set es)"
  by (induction es rule: effects.induct) auto

lemma effect_called:
  assumes "threads_reach C n c s" "(x, a) \<in> set (effects (sh_trace s))"
  shows "\<exists>h. ECall h x \<in> set (sh_trace s)"
proof -
  from assms(2) obtain g where g: "EEffect g x a \<in> set (sh_trace s)" by (auto simp: effects_mem)
  from phases.reach_inv [OF assms(1)] have f: "follow Outside (events_of g (sh_trace s)) \<noteq> None"
    by (simp add: in_phase_def)
  have "EEffect g x a \<in> set (events_of g (sh_trace s))" using g by (simp add: events_of_def)
  from follow_called [OF f this] show ?thesis by (auto simp: events_of_def)
qed

lemma effects_from:
  assumes "threads_reach C n c s" "\<And>g p. ECall g (OpGet p) \<in> set (sh_trace s) \<Longrightarrow> p \<in> R"
  shows "list_all (gets_from R) (map fst (effects (sh_trace s)))"
proof -
  have "gets_from R x" if "(x, a) \<in> set (effects (sh_trace s))" for x a
    using effect_called [OF assms(1) that] assms(2) by (cases x) auto
  then show ?thesis by (auto simp: list_all_iff)
qed

subsection \<open>The reference cache keeps the laws\<close>

lemma list_lru_steady: "steady_lru list_lru lc_contents"
proof (intro steady_lru.intro steady_lru_axioms.intro list_lru_laws)
  fix c :: "'e list_cache" and k
  obtain n es where c: "c = (n, es)" by force
  show "fst (lru_get list_lru c k) = None \<Longrightarrow> snd (lru_get list_lru c k) = c"
    by (auto simp: c list_lru_def split: option.splits)
  show "lru_clear list_lru (snd (lru_get list_lru c k)) = lru_clear list_lru c"
    by (simp add: c list_lru_def split: option.split)
qed

interpretation refthreads: compiler_threads "\<lparr>comp_env = env, comp_lru = list_lru\<rparr>" lc_contents
  for env :: "('a, 'p, 'v) cel"
  by (intro compiler_threads.intro) (simp add: list_lru_steady)

subsection \<open>Properties of concurrent calls\<close>

text \<open>
  C4. The compiler is linearizable: in every reachable state of any number of goroutines that call
  \<open>Get\<close>, \<open>Remove\<close> and \<open>Clear\<close> on one compiler, \<open>Clear\<close> without the mutex included, each call of each
  goroutine takes effect once, between its call and its return, and returns the answer of that effect;
  the effects in their order are a run of the atomic operations, each with the answer the atomic
  operation gives; and while nobody holds the mutex the cache is the one that this run produces.
\<close>

theorem compiler_linearizable:
  assumes "steady_lru (comp_lru C) contents" "threads_reach C n c0 s"
  shows "legal C c0 (effects (sh_trace s))
    \<and> (\<forall>g. follow Outside (events_of g (sh_trace s)) \<noteq> None)
    \<and> (sh_mu s = None \<longrightarrow> sh_cache s = run_ops C (map fst (effects (sh_trace s))) c0)"
  using compiler_threads.linearizable [OF compiler_threads.intro [OF assms(1)] assms(2)]
    phases.reach_inv [OF assms(2)]
  by (simp add: in_phase_def)

text \<open>
  C5. Whatever the interleaving, a \<open>Get\<close> that returns gives what compiling the resource it was
  called with gives: on a new compiler, where the resources asked for are versions the API server served.
\<close>

theorem concurrent_get_compiles:
  assumes "steady_lru L contents" "NewCompiler newEnv L cacheSize = Inr (C, c0)"
    and "generation_stable R" "threads_reach C n c0 s"
    and "\<And>g p. ECall g (OpGet p) \<in> set (sh_trace s) \<Longrightarrow> p \<in> R"
    and "EReturn g (OpGet p) a \<in> set (sh_trace s)"
  shows "a = GotPolicy (compile (comp_env C) p)"
proof -
  from assms(2) have C: "comp_lru C = L" "c0 = lru_new L cacheSize"
    by (auto simp: NewCompiler_def split: sum.splits)
  with assms(1) have "compiler_threads C contents" by (simp add: compiler_threads.intro)
  note legal = compiler_threads.linearizable(1) [OF this assms(4)]
  from legal_answer [OF legal returned_effect [OF assms(4,6)]] obtain pre post where
    es: "effects (sh_trace s) = pre @ (OpGet p, a) # post"
    and a: "a = GotPolicy (fst (Get C p (run_ops C (map fst pre) c0)))" by auto
  have from_R: "list_all (gets_from R) (map fst (pre @ (OpGet p, a) # post))"
    using effects_from [where R = R, OF assms(4,5)] by (simp add: es)
  have "compiler_model C contents R"
    using assms(1,3) C(1) by (simp add: steady_lru_def compiler_model.intro compiler_model_axioms.intro)
  from compiler_model.new_transparent [OF this, of "map fst pre" p cacheSize] from_R C a
  show ?thesis by simp
qed

text \<open>
  C23. No call waits for ever: from every reachable state the calls in progress can all finish, within
  the number of statements they have left, and leave the mutex free; and no schedule of the
  goroutines' statements is longer than that, whatever it does.
\<close>

theorem compiler_calls_finish:
  assumes "threads_reach C n c0 s"
  shows "(\<exists>as s'. list_all is_step as \<and> length as \<le> in_progress s
      \<and> run_acts (threads_exec C) as s = Some s' \<and> set (sh_pcs s') \<subseteq> {Idle} \<and> sh_mu s' = None)
    \<and> (\<forall>bs t. list_all is_step bs \<longrightarrow> run_acts (threads_exec C) bs s = Some t \<longrightarrow> length bs \<le> in_progress s)"
proof -
  note ex = mutex.reach_inv [OF assms]
  from finishing.drains [OF ex] obtain as s' where as: "list_all is_step as" "length as \<le> in_progress s"
    "run_acts (threads_exec C) as s = Some s'" and idle: "in_progress s' = 0" by blast
  from idle have pcs: "set (sh_pcs s') \<subseteq> {Idle}" by (auto simp: in_progress_def)
  have "exclusive s'" by (rule mutex.run_inv [OF ex as(3)])
  with pcs have "sh_mu s' = None" by (cases "sh_mu s'") (force simp: exclusive_def dest: nth_mem)+
  moreover have "length bs \<le> in_progress s"
    if "list_all is_step bs" "run_acts (threads_exec C) bs s = Some t" for bs t
    using finishing.busy_bounded [OF ex that] by simp
  ultimately show ?thesis using as pcs by blast
qed

text \<open>A run for the witnesses: goroutine 1 clears the cache while goroutine 0 is in the middle of a \<open>Get\<close>.\<close>

definition race :: "unit thread_act list" where
  "race = [TCall 0 (OpGet (demo_policy ''true'' None)), TStep 0, TStep 0, TCall 1 OpClear, TStep 1, TStep 0]"

definition race_end :: "unit thread_act list" where
  "race_end = [TStep 0, TStep 0, TStep 1]"

lemma race_runs:
  "\<exists>s t q. run_acts (threads_exec ref_compiler) race (threads_start 2 (2, [])) = Some s
    \<and> sh_pcs s ! 0 = GetAdd (demo_policy ''true'' None) q
    \<and> sh_mu s = Some 0 \<and> in_progress s = 3
    \<and> run_acts (threads_exec ref_compiler) race_end s = Some t
    \<and> sh_mu t = None \<and> sh_pcs t = [Idle, Idle] \<and> sh_cache t = (2, [(''u1'', CPolicy q)])
    \<and> sh_trace t = [ECall 0 (OpGet (demo_policy ''true'' None)), ECall 1 OpClear, EEffect 1 OpClear Cleared,
         EEffect 0 (OpGet (demo_policy ''true'' None)) (GotPolicy (Inr q)),
         EReturn 0 (OpGet (demo_policy ''true'' None)) (GotPolicy (Inr q)), EReturn 1 OpClear Cleared]"
  by (simp add: race_def race_end_def threads_start_def goto_def list_lru_def cacheKey_def ref_run
      in_progress_def numeral_2_eq_2 lc_trim_def)

lemma reach_by_run:
  "run_acts (threads_exec C) as (threads_start n c) = Some s \<Longrightarrow> threads_reach C n c s"
  by (rule run_acts_reach [OF reach.start]) simp_all

theorem compiler_linearizable_witness:
  "\<exists>(s :: (unit, string, string cached list_cache) shared) q.
      effects (sh_trace s) = [(OpClear, Cleared), (OpGet (demo_policy ''true'' None), GotPolicy (Inr q))]
    \<and> legal ref_compiler (2, []) (effects (sh_trace s))
    \<and> sh_cache s = run_ops ref_compiler [OpClear, OpGet (demo_policy ''true'' None)] (2, [])"
proof -
  from race_runs obtain s t q where s: "run_acts (threads_exec ref_compiler) race (threads_start 2 (2, [])) = Some s"
    and t: "run_acts (threads_exec ref_compiler) race_end s = Some t" "sh_mu t = None"
      "effects (sh_trace t) = [(OpClear, Cleared), (OpGet (demo_policy ''true'' None), GotPolicy (Inr q))]"
    by auto
  have reach: "threads_reach ref_compiler 2 (2, []) t" by (rule run_acts_reach [OF reach_by_run [OF s] t(1)])
  have "steady_lru (comp_lru ref_compiler) lc_contents" by (simp add: list_lru_steady)
  note lin0 = compiler_linearizable [OF this reach]
  then have lin: "legal ref_compiler (2, []) (effects (sh_trace t))" by (rule conjunct1)
  from lin0 t(2) have "sh_cache t = run_ops ref_compiler (map fst (effects (sh_trace t))) (2, [])"
    by blast
  then have "sh_cache t = run_ops ref_compiler [OpClear, OpGet (demo_policy ''true'' None)] (2, [])"
    unfolding t(3) by (simp only: list.map fst_conv)
  with t(3) lin show ?thesis by blast
qed

theorem concurrent_get_compiles_witness:
  "\<exists>s a. threads_reach ref_compiler 2 (2, []) s
    \<and> EReturn 0 (OpGet (demo_policy ''true'' None)) a \<in> set (sh_trace s)
    \<and> a = GotPolicy (compile ref_cel (demo_policy ''true'' None))"
proof -
  let ?p = "demo_policy ''true'' None"
  from race_runs obtain s t q where s: "run_acts (threads_exec ref_compiler) race (threads_start 2 (2, [])) = Some s"
    and t: "run_acts (threads_exec ref_compiler) race_end s = Some t"
    and tr: "sh_trace t = [ECall 0 (OpGet ?p), ECall 1 OpClear, EEffect 1 OpClear Cleared,
         EEffect 0 (OpGet ?p) (GotPolicy (Inr q)), EReturn 0 (OpGet ?p) (GotPolicy (Inr q)), EReturn 1 OpClear Cleared]"
    by auto
  have reach: "threads_reach ref_compiler 2 (2, []) t" by (rule run_acts_reach [OF reach_by_run [OF s] t])
  have new: "NewCompiler (Inr ref_cel) list_lru 2 = Inr (ref_compiler, (2, []))" by (simp add: NewCompiler_ref)
  have stable: "generation_stable {?p}" by (simp add: generation_stable_def)
  have ret: "EReturn 0 (OpGet ?p) (GotPolicy (Inr q)) \<in> set (sh_trace t)" by (simp add: tr)
  have "GotPolicy (Inr q) = GotPolicy (compile (comp_env ref_compiler) ?p)"
    by (rule concurrent_get_compiles [OF list_lru_steady new stable reach _ ret]) (auto simp: tr)
  with reach ret show ?thesis by auto
qed

theorem compiler_calls_finish_witness:
  "\<exists>s as s'. run_acts (threads_exec ref_compiler) race (threads_start 2 (2, [])) = Some s \<and> sh_mu s = Some 0
    \<and> length as \<le> 3 \<and> run_acts (threads_exec ref_compiler) as s = Some s' \<and> sh_mu s' = None"
proof -
  from race_runs obtain s where s: "run_acts (threads_exec ref_compiler) race (threads_start 2 (2, [])) = Some s"
    "sh_mu s = Some 0" "in_progress s = 3" by auto
  from compiler_calls_finish [OF reach_by_run [OF s(1)]] s show ?thesis by auto
qed

end
