(* ===== verification/Report_Types.thy ===== *)
theory Report_Types
  imports Sqs_Parsers Http_Server Scheduler
begin

section \<open>The types of decoded reports\<close>

text \<open>
  A report is a \<open>map[string]any\<close>, and \<open>any\<close> could be anything. What the two message parsers and the HTTP
  handler make of JSON has only the six dynamic types \<^verbatim>\<open>encoding/json\<close> decodes into, at every depth, and the
  scheduler accepts only those reports whose action id is of one of them, \<^verbatim>\<open>string\<close>.
\<close>

inductive json_value :: "'v any \<Rightarrow> bool" where
  nil: "json_value ANil"
| bool: "json_value (ABool b)"
| number: "json_value (AFloat64 w)"
| string: "json_value (AString s)"
| array: "\<forall>x \<in> set xs. json_value x \<Longrightarrow> json_value (ASlice xs)"
| object: "\<forall>x \<in> ran m. json_value x \<Longrightarrow> json_value (AMap m)"

inductive_simps json_value_simps [simp]:
  "json_value (ASlice xs)" "json_value (AMap m)" "json_value (AInt64 i)" "json_value (ARefVals vs)"
  "json_value (AOpaque t v)"

inductive_cases json_valueE: "json_value x"

definition json_report :: "'v report \<Rightarrow> bool" where
  "json_report r \<longleftrightarrow> (\<forall>v \<in> ran r. json_value v)"

lemma json_report_empty [simp]: "json_report Map.empty"
  by (simp add: json_report_def)




subsection \<open>Properties of decoded reports\<close>











end
