(* ===== verification/Go_Flag.thy ===== *)
theory Go_Flag
  imports Go_Path "HOL-Library.Char_ord"
begin

section \<open>Command-line flags of the Go standard library\<close>

text \<open>
  What \<^verbatim>\<open>package flag\<close> does with the arguments of a program (\<open>FlagSet.parseOne\<close>, with the exit codes of
  \<open>ExitOnError\<close>) and \<open>strconv.ParseBool\<close> and \<open>strconv.ParseInt\<close> with base 0, which it reads values with. The
  variables that flags are bound to are the fields of a record \<open>'f\<close>.
\<close>

subsection \<open>Values\<close>

definition ParseBool :: "string \<Rightarrow> bool option" where
  "ParseBool s =
     (if s \<in> {''1'', ''t'', ''T'', ''true'', ''TRUE'', ''True''} then Some True
      else if s \<in> {''0'', ''f'', ''F'', ''false'', ''FALSE'', ''False''} then Some False
      else None)"

definition lower_letter :: "char \<Rightarrow> nat" where
  "lower_letter c = (let n = of_char c in if 65 \<le> n \<and> n \<le> 90 then n + 32 else n)"

definition digit_value :: "char \<Rightarrow> nat option" where
  "digit_value c =
     (let n = of_char c; l = lower_letter c in
      if 48 \<le> n \<and> n \<le> 57 then Some (n - 48)
      else if 97 \<le> l \<and> l \<le> 122 then Some (l - 97 + 10)
      else None)"

text \<open>The digits of \<open>s\<close> in a base; \<open>_\<close> is skipped when \<open>us\<close> is set. \<open>None\<close> is a syntax error.\<close>

fun read_digits :: "bool \<Rightarrow> nat \<Rightarrow> string \<Rightarrow> nat \<Rightarrow> nat option" where
  "read_digits us base [] n = Some n"
| "read_digits us base (c # s) n =
     (if us \<and> c = CHR ''_'' then read_digits us base s n
      else
        (case digit_value c of
           None \<Rightarrow> None
         | Some d \<Rightarrow> if base \<le> d then None else read_digits us base s (n * base + d)))"

text \<open>\<open>underscoreOK\<close>: \<open>prev\<close> is what came before: \<open>0\<close> for a digit, \<open>_\<close>, or anything else.\<close>

fun underscores_ok :: "bool \<Rightarrow> char \<Rightarrow> string \<Rightarrow> bool" where
  "underscores_ok hex prev [] = (prev \<noteq> CHR ''_'')"
| "underscores_ok hex prev (c # s) =
     (if (48 \<le> (of_char c :: nat) \<and> of_char c \<le> (57 :: nat)) \<or> hex \<and> 97 \<le> lower_letter c \<and> lower_letter c \<le> 102
      then underscores_ok hex (CHR ''0'') s
      else if c = CHR ''_'' then prev = CHR ''0'' \<and> underscores_ok hex (CHR ''_'') s
      else prev \<noteq> CHR ''_'' \<and> underscores_ok hex (CHR ''!'') s)"

definition base_prefix :: "string \<Rightarrow> nat option" where
  "base_prefix s =
     (case s of
        z # b # _ \<Rightarrow>
          if z \<noteq> CHR ''0'' then None
          else if b \<in> {CHR ''b'', CHR ''B''} then Some 2
          else if b \<in> {CHR ''o'', CHR ''O''} then Some 8
          else if b \<in> {CHR ''x'', CHR ''X''} then Some 16
          else None
      | _ \<Rightarrow> None)"

definition underscoreOK :: "string \<Rightarrow> bool" where
  "underscoreOK s =
     (case base_prefix s of
        None \<Rightarrow> underscores_ok False (CHR ''^'') s
      | Some b \<Rightarrow> underscores_ok (b = 16) (CHR ''0'') (drop 2 s))"

text \<open>\<open>ParseUint(s, 0, 64)\<close> without its range check: the base and the digits that are read.\<close>

definition uint_parts :: "string \<Rightarrow> nat \<times> string" where
  "uint_parts s =
     (if s \<noteq> [] \<and> hd s = CHR ''0'' then
        (case base_prefix s of
           Some b \<Rightarrow> if 3 \<le> length s then (b, drop 2 s) else (8, tl s)
         | None \<Rightarrow> (8, tl s))
      else (10, s))"

definition parse_nat :: "string \<Rightarrow> nat option" where
  "parse_nat s =
     (if s = [] then None
      else
        (let (base, digits) = uint_parts s in
         case read_digits True base digits 0 of
           None \<Rightarrow> None
         | Some n \<Rightarrow> if CHR ''_'' \<in> set digits \<and> \<not> underscoreOK s then None else Some n))"

text \<open>
  \<open>ParseInt(s, 0, 64)\<close>: \<open>None\<close> is a syntax or a range error. A range error stops reading early, so a text
  out of range that is not well formed after that point is an error as well.
\<close>

definition ParseInt :: "string \<Rightarrow> int option" where
  "ParseInt s =
     (let neg = (s \<noteq> [] \<and> hd s = CHR ''-'');
          digits = (if s \<noteq> [] \<and> hd s \<in> {CHR ''+'', CHR ''-''} then tl s else s) in
      case parse_nat digits of
        None \<Rightarrow> None
      | Some n \<Rightarrow>
          if \<not> neg \<and> 2 ^ 63 \<le> n then None
          else if neg \<and> 2 ^ 63 < n then None
          else Some (if neg then - int n else int n))"

subsection \<open>Flags\<close>

text \<open>
  A flag is bound with \<open>StringVar\<close>, \<open>BoolVar\<close> or \<open>IntVar\<close>, or is a \<open>Value\<close> of another package, of which
  the first component is \<open>IsBoolFlag\<close> and the function is \<open>Set\<close>, \<open>None\<close> being an error.
\<close>

datatype 'f binding =
    StringVar "string \<Rightarrow> 'f \<Rightarrow> 'f"
  | BoolVar "bool \<Rightarrow> 'f \<Rightarrow> 'f"
  | IntVar "int \<Rightarrow> 'f \<Rightarrow> 'f"
  | OtherVar bool "string \<Rightarrow> 'f \<Rightarrow> 'f option"

fun is_bool_flag :: "'f binding \<Rightarrow> bool" where
  "is_bool_flag (BoolVar f) = True"
| "is_bool_flag (OtherVar b f) = b"
| "is_bool_flag _ = False"

fun set_flag :: "'f binding \<Rightarrow> string \<Rightarrow> 'f \<Rightarrow> 'f option" where
  "set_flag (StringVar f) v x = Some (f v x)"
| "set_flag (BoolVar f) v x = map_option (\<lambda>b. f b x) (ParseBool v)"
| "set_flag (IntVar f) v x = map_option (\<lambda>i. f i x) (ParseInt v)"
| "set_flag (OtherVar b f) v x = f v x"

datatype flag_error =
    BadSyntax string
  | NotDefined string
  | HelpRequested
  | NeedsArgument string
  | InvalidValue string string

text \<open>\<open>None\<close> when \<open>arg\<close> is not a flag, \<open>Some None\<close> for the argument \<open>--\<close>, else the text after the dashes.\<close>

definition flag_text :: "string \<Rightarrow> string option option" where
  "flag_text arg =
     (if length arg < 2 \<or> hd arg \<noteq> CHR ''-'' then None
      else if arg ! 1 = CHR ''-'' then (if length arg = 2 then Some None else Some (Some (drop 2 arg)))
      else Some (Some (tl arg)))"

text \<open>The name, and the value after the first \<open>=\<close>, if there is one.\<close>

definition split_value :: "string \<Rightarrow> string \<times> string option" where
  "split_value s =
     (let name = takeWhile (\<lambda>c. c \<noteq> CHR ''='') s; rest = dropWhile (\<lambda>c. c \<noteq> CHR ''='') s
      in (name, if rest = [] then None else Some (tl rest)))"

text \<open>\<open>FlagSet.Parse\<close>: the variables and the arguments left, or the error it stops at.\<close>

function parse_flags ::
  "(string \<times> 'f binding) list \<Rightarrow> string list \<Rightarrow> 'f \<Rightarrow> flag_error + 'f \<times> string list" where
  "parse_flags defs [] x = Inr (x, [])"
| "parse_flags defs (arg # args) x =
     (case flag_text arg of
        None \<Rightarrow> Inr (x, arg # args)
      | Some None \<Rightarrow> Inr (x, args)
      | Some (Some s) \<Rightarrow>
          if s = [] \<or> hd s = CHR ''-'' \<or> hd s = CHR ''='' then Inl (BadSyntax arg)
          else
            (let (name, value) = split_value s in
             case map_of defs name of
               None \<Rightarrow> Inl (if name = ''help'' \<or> name = ''h'' then HelpRequested else NotDefined name)
             | Some b \<Rightarrow>
                 if is_bool_flag b then
                   (let v = (case value of None \<Rightarrow> ''true'' | Some v \<Rightarrow> v) in
                    case set_flag b v x of
                      None \<Rightarrow> Inl (InvalidValue name v)
                    | Some x1 \<Rightarrow> parse_flags defs args x1)
                 else
                   (case value of
                      Some v \<Rightarrow>
                        (case set_flag b v x of
                           None \<Rightarrow> Inl (InvalidValue name v)
                         | Some x1 \<Rightarrow> parse_flags defs args x1)
                    | None \<Rightarrow>
                        (case args of
                           [] \<Rightarrow> Inl (NeedsArgument name)
                         | v # args1 \<Rightarrow>
                             (case set_flag b v x of
                                None \<Rightarrow> Inl (InvalidValue name v)
                              | Some x1 \<Rightarrow> parse_flags defs args1 x1)))))"
  by pat_completeness auto

termination
  by (relation "measure (\<lambda>(defs, args, x). length args)") auto

text \<open>\<open>ExitOnError\<close>.\<close>

fun flag_exit :: "flag_error \<Rightarrow> nat" where
  "flag_exit HelpRequested = 0"
| "flag_exit _ = 2"

subsection \<open>Reading back what was written\<close>

lemma digit_value_decimal: "n < 10 \<Longrightarrow> digit_value (char_of (48 + n)) = Some n"
  by (simp add: digit_value_def lower_letter_def Let_def)

text \<open>Decimal numerals are read as they are rendered, whatever is already read before them.\<close>

lemma read_digits_append:
  "read_digits us b (u @ v) n =
     (case read_digits us b u n of None \<Rightarrow> None | Some m \<Rightarrow> read_digits us b v m)"
  by (induction u arbitrary: n) (auto split: option.split)

lemma of_decimal: "d < (10 :: nat) \<Longrightarrow> of_char (char_of (48 + d) :: char) = 48 + d"
  by simp

lemma decimal_char_neq:
  assumes "d < (10 :: nat)" "of_char c < (48 :: nat) \<or> 57 < (of_char c :: nat)"
  shows "char_of (48 + d) \<noteq> c"
proof
  assume "char_of (48 + d) = c"
  with of_decimal [OF assms(1)] have "of_char c = 48 + d" by simp
  with assms show False by auto
qed

lemma decimal_not_underscore: "d < (10 :: nat) \<Longrightarrow> char_of (48 + d) \<noteq> CHR ''_''"
  by (rule decimal_char_neq) simp_all

lemma show_nat_read:
  "read_digits us 10 (show_nat n) m = Some (m * 10 ^ length (show_nat n) + n)"
proof (induction n arbitrary: m rule: show_nat.induct)
  case (1 n)
  show ?case
  proof (cases "n < 10")
    case True
    then show ?thesis
      by (subst show_nat.simps, subst show_nat.simps) (simp add: digit_value_decimal decimal_not_underscore)
  next
    case False
    have s: "show_nat n = show_nat (n div 10) @ [char_of (48 + n mod 10)]"
      using False by (subst show_nat.simps) simp
    from "1.IH" [OF False] show ?thesis
      unfolding s by (simp add: read_digits_append digit_value_decimal decimal_not_underscore algebra_simps)
  qed
qed

lemma show_nat_digits: "c \<in> set (show_nat n) \<Longrightarrow> \<exists>d < (10 :: nat). c = char_of (48 + d)"
proof (induction n rule: show_nat.induct)
  case (1 n)
  show ?case
  proof (cases "n < 10")
    case True
    with "1.prems" have "c = char_of (48 + n)" by (subst (asm) show_nat.simps) simp
    with True show ?thesis by blast
  next
    case False
    with "1.prems" have "c \<in> set (show_nat (n div 10)) \<or> c = char_of (48 + n mod 10)"
      by (subst (asm) show_nat.simps) auto
    then show ?thesis
    proof
      assume "c \<in> set (show_nat (n div 10))"
      then show ?thesis by (rule "1.IH" [OF False])
    next
      assume "c = char_of (48 + n mod 10)"
      then show ?thesis by (intro exI [of _ "n mod 10"]) simp
    qed
  qed
qed

lemma hd_show_nat: "0 < n \<Longrightarrow> \<exists>d. 0 < d \<and> d < (10 :: nat) \<and> hd (show_nat n) = char_of (48 + d)"
proof (induction n rule: show_nat.induct)
  case (1 n)
  show ?case
  proof (cases "n < 10")
    case True
    with "1.prems" show ?thesis by (subst show_nat.simps) auto
  next
    case False
    then have "hd (show_nat n) = hd (show_nat (n div 10))" by (subst show_nat.simps) simp
    with "1.IH" [OF False] False show ?thesis by simp
  qed
qed

lemma show_nat_free: "of_char c < (48 :: nat) \<or> 57 < (of_char c :: nat) \<Longrightarrow> c \<notin> set (show_nat n)"
  using show_nat_digits decimal_char_neq by metis

lemma parse_nat_show: "parse_nat (show_nat n) = Some n"
proof (cases "n = 0")
  case True
  then show ?thesis by (simp add: parse_nat_def uint_parts_def base_prefix_def Let_def)
next
  case False
  then obtain d where "0 < d" "d < (10 :: nat)" "hd (show_nat n) = char_of (48 + d)"
    using hd_show_nat [of n] by blast
  moreover from this have "char_of (48 + d) \<noteq> CHR ''0''"
  proof -
    assume "0 < d" "d < 10"
    with of_decimal [of d] have "of_char (char_of (48 + d) :: char) \<noteq> (of_char (CHR ''0'') :: nat)" by simp
    then show ?thesis by (rule contrapos_nn) (rule arg_cong)
  qed
  ultimately have "uint_parts (show_nat n) = (10, show_nat n)" by (simp add: uint_parts_def)
  moreover have "CHR ''_'' \<notin> set (show_nat n)" by (rule show_nat_free) simp
  ultimately show ?thesis by (simp add: parse_nat_def show_nat_read)
qed

lemma ParseInt_show:
  assumes "- (2 ^ 63) \<le> i" "i < 2 ^ 63"
  shows "ParseInt (show_int i) = Some i"
proof (cases "i < 0")
  case True
  then show ?thesis using assms by (simp add: ParseInt_def show_int_def parse_nat_show nat_le_iff)
next
  case False
  have h: "hd (show_nat (nat i)) \<in> set (show_nat (nat i))" by (rule hd_in_set) (rule show_nat_nonempty)
  have "CHR ''-'' \<notin> set (show_nat (nat i))" "CHR ''+'' \<notin> set (show_nat (nat i))"
    by (rule show_nat_free, simp)+
  with h have "hd (show_nat (nat i)) \<notin> {CHR ''+'', CHR ''-''}" by (metis empty_iff insert_iff)
  with False show ?thesis using assms by (simp add: ParseInt_def show_int_def parse_nat_show)
qed

lemma ParseInt_range:
  assumes "ParseInt s = Some i"
  shows "- (2 ^ 63) \<le> i \<and> i < 2 ^ 63"
  using assms by (auto simp: ParseInt_def Let_def split: option.splits if_splits)

subsection \<open>Arguments of the form --name=value\<close>

definition eq_arg :: "string \<times> string \<Rightarrow> string" where
  "eq_arg nv = ''--'' @ fst nv @ ''='' @ snd nv"

definition flag_name :: "string \<Rightarrow> bool" where
  "flag_name n \<longleftrightarrow> n \<noteq> [] \<and> hd n \<noteq> CHR ''-'' \<and> CHR ''='' \<notin> set n"

lemma split_value_eq: "CHR ''='' \<notin> set n \<Longrightarrow> split_value (n @ ''='' @ v) = (n, Some v)"
proof -
  assume "CHR ''='' \<notin> set n"
  then have n: "\<And>c. c \<in> set n \<Longrightarrow> c \<noteq> CHR ''=''" by metis
  have "takeWhile (\<lambda>c. c \<noteq> CHR ''='') (n @ ''='' @ v) = n"
    "dropWhile (\<lambda>c. c \<noteq> CHR ''='') (n @ ''='' @ v) = ''='' @ v"
    using n by (simp_all add: takeWhile_append2 dropWhile_append2)
  then show ?thesis by (simp add: split_value_def)
qed

lemma parse_eq_arg:
  assumes "flag_name n" "map_of defs n = Some b" "set_flag b v x = Some x1"
  shows "parse_flags defs (eq_arg (n, v) # args) x = parse_flags defs args x1"
proof -
  have t: "flag_text (eq_arg (n, v)) = Some (Some (n @ ''='' @ v))"
    by (simp add: flag_text_def eq_arg_def)
  have n: "n @ ''='' @ v \<noteq> []" "hd (n @ ''='' @ v) \<noteq> CHR ''-''" "hd (n @ ''='' @ v) \<noteq> CHR ''=''"
    using assms(1) by (cases n; auto simp: flag_name_def)+
  have s: "split_value (n @ ''='' @ v) = (n, Some v)"
    using assms(1) split_value_eq by (simp add: flag_name_def)
  show ?thesis
    using n by (subst parse_flags.simps) (simp add: t s assms(2,3) del: append.simps)
qed

text \<open>A list of such arguments sets their flags one after the other.\<close>

fun set_flags :: "(string \<times> 'f binding) list \<Rightarrow> (string \<times> string) list \<Rightarrow> 'f \<Rightarrow> 'f option" where
  "set_flags defs [] x = Some x"
| "set_flags defs ((n, v) # nvs) x =
     (case map_of defs n of
        None \<Rightarrow> None
      | Some b \<Rightarrow> (case set_flag b v x of None \<Rightarrow> None | Some x1 \<Rightarrow> set_flags defs nvs x1))"

lemma parse_eq_args:
  assumes "\<forall>nv \<in> set nvs. flag_name (fst nv)" "set_flags defs nvs x = Some y"
  shows "parse_flags defs (map eq_arg nvs @ args) x = parse_flags defs args y"
  using assms
proof (induction nvs arbitrary: x)
  case Nil
  then show ?case by simp
next
  case (Cons nv nvs)
  obtain n v where nv: "nv = (n, v)" by force
  from Cons.prems nv obtain b x1 where b: "map_of defs n = Some b" "set_flag b v x = Some x1"
    "set_flags defs nvs x1 = Some y" "flag_name n"
    by (auto split: option.splits)
  from parse_eq_arg [OF b(4,1,2)] Cons.IH [OF _ b(3)] Cons.prems(1) nv show ?case by simp
qed

definition show_bool :: "bool \<Rightarrow> string" where
  "show_bool b = (if b then ''true'' else ''false'')"

lemma ParseBool_show [simp]: "ParseBool (show_bool b) = Some b"
  by (simp add: ParseBool_def show_bool_def)

end
