(* ===== verification/Aws_Config.thy ===== *)
theory Aws_Config
  imports Prelude
begin

section \<open>The configuration of AWS clients\<close>

text \<open>
  \<^verbatim>\<open>internal/utils/aws.go\<close>, which the uploader and the controller build their clients from. Loading the
  configuration is the library's; here it is its error.
\<close>

text \<open>\<open>utils.BuildAWSConfig\<close>: the error, if any; the configuration itself is only passed on.\<close>

definition BuildAWSConfig :: "goerr option \<Rightarrow> goerr option" where
  "BuildAWSConfig err =
     (case err of None \<Rightarrow> None | Some e \<Rightarrow> Some (ErrWrap ''failed to load AWS configuration: '' e ''''))"

end
