(* ===== verification/Controller_Main.thy ===== *)
theory Controller_Main
  imports Webhook Reconciler Sqs_Listener Http_Server Go_Flag Aws_Config
begin

section \<open>The controller program\<close>

text \<open>
  \<^verbatim>\<open>cmd/controller/main.go\<close>: the flags, the options made of them, and the order in which the components are
  built and registered in the manager. controller-runtime, zap and the AWS clients are parameters: the
  record \<open>ctl_env\<close> has the result of each call. Registering has no effect before the manager is started,
  so a run is either an exit before that, or the manager that was started, with the exit code.
\<close>

subsection \<open>Flags\<close>

record 'z flags =
  fg_metricsAddr :: string
  fg_probeAddr :: string
  fg_enableLeaderElection :: bool
  fg_secureMetrics :: bool
  fg_webhookCertPath :: string
  fg_webhookCertName :: string
  fg_webhookCertKey :: string
  fg_metricsCertPath :: string
  fg_metricsCertName :: string
  fg_metricsCertKey :: string
  fg_enableHTTP2 :: bool
  fg_clusterDownloaderName :: string
  fg_reportHTTPAddr :: string
  fg_secureReportHTTP :: bool
  fg_reportHTTPCertPath :: string
  fg_reportHTTPCertName :: string
  fg_reportHTTPCertKey :: string
  fg_sqsQueueURL :: string
  fg_sqsParser :: string
  fg_rejectReportPipelineThreshold :: int
  fg_schedulerMaxPipelinesPerPolicy :: int
  fg_zap :: 'z

definition default_flags :: "'z \<Rightarrow> 'z flags" where
  "default_flags z =
     \<lparr>fg_metricsAddr = ''0'', fg_probeAddr = '':8081'', fg_enableLeaderElection = False,
      fg_secureMetrics = True, fg_webhookCertPath = '''', fg_webhookCertName = ''tls.crt'',
      fg_webhookCertKey = ''tls.key'', fg_metricsCertPath = '''', fg_metricsCertName = ''tls.crt'',
      fg_metricsCertKey = ''tls.key'', fg_enableHTTP2 = False, fg_clusterDownloaderName = ''chalkular-report'',
      fg_reportHTTPAddr = ''0'', fg_secureReportHTTP = True, fg_reportHTTPCertPath = '''',
      fg_reportHTTPCertName = ''tls.crt'', fg_reportHTTPCertKey = ''tls.key'', fg_sqsQueueURL = '''',
      fg_sqsParser = ''message-body'', fg_rejectReportPipelineThreshold = 100,
      fg_schedulerMaxPipelinesPerPolicy = 20, fg_zap = z\<rparr>"

text \<open>
  The flags of the zap logger act on its own options; \<open>zapFlags\<close> also stands for a flag that an imported package declares (the
  \<^verbatim>\<open>--kubeconfig\<close> of controller-runtime).
\<close>

fun zap_binding :: "'z binding \<Rightarrow> 'z flags binding" where
  "zap_binding (StringVar f) = StringVar (\<lambda>v F. F\<lparr>fg_zap := f v (fg_zap F)\<rparr>)"
| "zap_binding (BoolVar f) = BoolVar (\<lambda>v F. F\<lparr>fg_zap := f v (fg_zap F)\<rparr>)"
| "zap_binding (IntVar f) = IntVar (\<lambda>v F. F\<lparr>fg_zap := f v (fg_zap F)\<rparr>)"
| "zap_binding (OtherVar b f) = OtherVar b (\<lambda>v F. map_option (\<lambda>z. F\<lparr>fg_zap := z\<rparr>) (f v (fg_zap F)))"

definition controller_flags :: "(string \<times> 'z binding) list \<Rightarrow> (string \<times> 'z flags binding) list" where
  "controller_flags zapFlags =
     [(''metrics-bind-address'', StringVar (\<lambda>v F. F\<lparr>fg_metricsAddr := v\<rparr>)),
      (''health-probe-bind-address'', StringVar (\<lambda>v F. F\<lparr>fg_probeAddr := v\<rparr>)),
      (''leader-elect'', BoolVar (\<lambda>v F. F\<lparr>fg_enableLeaderElection := v\<rparr>)),
      (''metrics-secure'', BoolVar (\<lambda>v F. F\<lparr>fg_secureMetrics := v\<rparr>)),
      (''webhook-cert-path'', StringVar (\<lambda>v F. F\<lparr>fg_webhookCertPath := v\<rparr>)),
      (''webhook-cert-name'', StringVar (\<lambda>v F. F\<lparr>fg_webhookCertName := v\<rparr>)),
      (''webhook-cert-key'', StringVar (\<lambda>v F. F\<lparr>fg_webhookCertKey := v\<rparr>)),
      (''metrics-cert-path'', StringVar (\<lambda>v F. F\<lparr>fg_metricsCertPath := v\<rparr>)),
      (''metrics-cert-name'', StringVar (\<lambda>v F. F\<lparr>fg_metricsCertName := v\<rparr>)),
      (''metrics-cert-key'', StringVar (\<lambda>v F. F\<lparr>fg_metricsCertKey := v\<rparr>)),
      (''enable-http2'', BoolVar (\<lambda>v F. F\<lparr>fg_enableHTTP2 := v\<rparr>)),
      (''cluster-downloader-name'', StringVar (\<lambda>v F. F\<lparr>fg_clusterDownloaderName := v\<rparr>)),
      (''report-http-bind-address'', StringVar (\<lambda>v F. F\<lparr>fg_reportHTTPAddr := v\<rparr>)),
      (''report-http-secure'', BoolVar (\<lambda>v F. F\<lparr>fg_secureReportHTTP := v\<rparr>)),
      (''report-http-cert-path'', StringVar (\<lambda>v F. F\<lparr>fg_reportHTTPCertPath := v\<rparr>)),
      (''report-http-cert-name'', StringVar (\<lambda>v F. F\<lparr>fg_reportHTTPCertName := v\<rparr>)),
      (''report-http-cert-key'', StringVar (\<lambda>v F. F\<lparr>fg_reportHTTPCertKey := v\<rparr>)),
      (''sqs-queue-url'', StringVar (\<lambda>v F. F\<lparr>fg_sqsQueueURL := v\<rparr>)),
      (''sqs-parser'', StringVar (\<lambda>v F. F\<lparr>fg_sqsParser := v\<rparr>)),
      (''reject-report-pipeline-threshold'', IntVar (\<lambda>v F. F\<lparr>fg_rejectReportPipelineThreshold := v\<rparr>)),
      (''max-pipelines-per-policy'', IntVar (\<lambda>v F. F\<lparr>fg_schedulerMaxPipelinesPerPolicy := v\<rparr>))]
     @ map (\<lambda>(n, b). (n, zap_binding b)) zapFlags"

subsection \<open>Options\<close>

text \<open>A TLS option changes the list \<open>NextProtos\<close> of a configuration.\<close>

type_synonym tls_opt = "string list \<Rightarrow> string list"

definition disableHTTP2 :: tls_opt where
  "disableHTTP2 protos = [''http/1.1'']"

definition tls_opts :: "'z flags \<Rightarrow> tls_opt list" where
  "tls_opts F = (if \<not> fg_enableHTTP2 F then [disableHTTP2] else [])"

text \<open>The options of a server of controller-runtime. Its certificate fields stay empty when no path is given.\<close>

record certs =
  ct_CertDir :: string
  ct_CertName :: string
  ct_KeyName :: string

definition certs_of :: "string \<Rightarrow> string \<Rightarrow> string \<Rightarrow> certs" where
  "certs_of path name key =
     (if 0 < length path then \<lparr>ct_CertDir = path, ct_CertName = name, ct_KeyName = key\<rparr>
      else \<lparr>ct_CertDir = '''', ct_CertName = '''', ct_KeyName = ''''\<rparr>)"

record manager_options =
  mo_webhookTLS :: "tls_opt list"
  mo_webhookCerts :: certs
  mo_metricsBindAddress :: string
  mo_metricsSecure :: bool
  mo_metricsTLS :: "tls_opt list"
  mo_metricsAuthn :: bool
  mo_metricsCerts :: certs
  mo_probeAddr :: string
  mo_leaderElection :: bool
  mo_leaderElectionID :: string

definition manager_options_of :: "'z flags \<Rightarrow> manager_options" where
  "manager_options_of F =
     \<lparr>mo_webhookTLS = tls_opts F,
      mo_webhookCerts = certs_of (fg_webhookCertPath F) (fg_webhookCertName F) (fg_webhookCertKey F),
      mo_metricsBindAddress = fg_metricsAddr F, mo_metricsSecure = fg_secureMetrics F,
      mo_metricsTLS = tls_opts F, mo_metricsAuthn = fg_secureMetrics F,
      mo_metricsCerts = certs_of (fg_metricsCertPath F) (fg_metricsCertName F) (fg_metricsCertKey F),
      mo_probeAddr = fg_probeAddr F, mo_leaderElection = fg_enableLeaderElection F,
      mo_leaderElectionID = ''e8dd21f7.chalk.ocular.crashoverride.run''\<rparr>"

definition report_options :: "'z flags \<Rightarrow> http_options" where
  "report_options F =
     (let c = certs_of (fg_reportHTTPCertPath F) (fg_reportHTTPCertName F) (fg_reportHTTPCertKey F)
      in \<lparr>ho_BindAddress = fg_reportHTTPAddr F, ho_Secure = fg_secureReportHTTP F,
          ho_CertDir = ct_CertDir c, ho_CertName = ct_CertName c, ho_KeyName = ct_KeyName c,
          ho_TlsOpts = tls_opts F, ho_DevelopmentMode = False\<rparr>)"

subsection \<open>The manager\<close>

datatype ('a, 'p, 'v, 'c, 'w, 'x, 'n, 'q) runnable =
    RunScheduler "('a, 'p, 'v, 'c, 'w, 'x) scheduler"
  | RunReportServer "('v, 'n) server"
  | RunListener "('v, 'q) listener"

record ('a, 'p, 'v, 'c, 'w, 'x, 'n, 'q) ctl_manager =
  cm_options :: manager_options
  cm_runnables :: "('a, 'p, 'v, 'c, 'w, 'x, 'n, 'q) runnable list"
  cm_reconciler :: "('a, 'p, 'v, 'c, 'w, 'x) reconciler"
  cm_webhook :: "defaulter option"
  cm_healthz :: "string list"
  cm_readyz :: "string list"

text \<open>
  The calls of the libraries that may fail, each with its error: \<open>ctrl.GetConfigOrDie\<close> exits with 1 itself;
  \<open>ce_setupController\<close> is \<open>Complete\<close> of the controller's builder;
  \<open>ce_add\<close> is \<open>mgr.Add\<close>; \<open>ce_s3\<close> is the S3 client, with path-style addressing or without.
\<close>

record ('a, 'p, 'v, 'c, 'w, 'x, 'u, 'n, 'q, 'm, 'z) ctl_env =
  ce_zapFlags :: "(string \<times> 'z binding) list"
  ce_zapOptions :: 'z
  ce_getenv :: "string \<Rightarrow> string"
  ce_getConfig :: "goerr option"
  ce_newManager :: "manager_options \<Rightarrow> goerr option"
  ce_newEnv :: "('a, 'p, 'v) cel res"
  ce_lru :: "('c, 'p cached) lru"
  ce_indexField :: "goerr option"
  ce_client :: "('w, 'x) kclient"
  ce_isTrue :: "condition list \<Rightarrow> string \<Rightarrow> bool"
  ce_rclient :: "('w, 'x) rclient"
  ce_util :: object_util
  ce_add :: "('a, 'p, 'v, 'c, 'w, 'x, 'n, 'q) runnable \<Rightarrow> goerr option"
  ce_authClients :: "('u, 'n) auth res"
  ce_json :: jlib
  ce_loadConfig :: "goerr option"
  ce_s3 :: "bool \<Rightarrow> ('q, 'm) s3_env"
  ce_sqs :: "'q sqs_client"
  ce_setupController :: "controller_builder \<Rightarrow> goerr option"
  ce_setupWebhook :: "goerr option"
  ce_addHealthz :: "goerr option"
  ce_addReadyz :: "goerr option"
  ce_start :: "('a, 'p, 'v, 'c, 'w, 'x, 'n, 'q) ctl_manager \<Rightarrow> goerr option"

subsection \<open>The queue listener\<close>

definition sqs_parser ::
  "('a, 'p, 'v, 'c, 'w, 'x, 'u, 'n, 'q, 'm, 'z) ctl_env \<Rightarrow> string \<Rightarrow> ('v, 'q) parser res" where
  "sqs_parser E p =
     (if p = ''s3-event'' then Inr (S3EventReportParser (ce_s3 E (ce_getenv E ''AWS_S3_USE_PATH_STYLE'' \<noteq> '''')))
      else if p = ''message-body'' then Inr (RawReportParser (ce_json E))
      else if p = '''' then Inl (ErrMsg ''SQS parser must be supplied via --sqs-parser'')
      else Inl (ErrMsg (''unknown SQS parser '' @ p)))"

definition configureSQSListener ::
  "('a, 'p, 'v, 'c, 'w, 'x, 'u, 'n, 'q, 'm, 'z) ctl_env \<Rightarrow> string \<Rightarrow> string \<Rightarrow> ('v, 'q) listener res" where
  "configureSQSListener E q p =
     (case sqs_parser E p of
        Inl err \<Rightarrow> Inl err
      | Inr parser \<Rightarrow>
          (case NewListener (ce_sqs E) q (Some parser) of Inl err \<Rightarrow> Inl err | Inr l \<Rightarrow> Inr l))"

subsection \<open>The program\<close>

datatype 'm run = Exit nat | Ran 'm nat

text \<open>\<open>if err != nil { os.Exit(1) }\<close>.\<close>

definition must :: "goerr option \<Rightarrow> 'm run \<Rightarrow> 'm run" where
  "must err k = (case err of None \<Rightarrow> k | Some _ \<Rightarrow> Exit 1)"

definition must_have :: "'b res \<Rightarrow> ('b \<Rightarrow> 'm run) \<Rightarrow> 'm run" where
  "must_have r k = (case r of Inl _ \<Rightarrow> Exit 1 | Inr x \<Rightarrow> k x)"

text \<open>The listener, when there is a queue.\<close>

definition start_listener ::
  "('a, 'p, 'v, 'c, 'w, 'x, 'u, 'n, 'q, 'm, 'z) ctl_env \<Rightarrow> 'z flags
     \<Rightarrow> (('a, 'p, 'v, 'c, 'w, 'x, 'n, 'q) runnable list \<Rightarrow> 'r run) \<Rightarrow> 'r run" where
  "start_listener E F k =
     (if fg_sqsQueueURL F \<noteq> '''' then
        must (BuildAWSConfig (ce_loadConfig E))
          (must_have (configureSQSListener E (fg_sqsQueueURL F) (fg_sqsParser F))
             (\<lambda>l. must (ce_add E (RunListener l)) (k [RunListener l])))
      else k [])"

definition run_controller ::
  "('a, 'p, 'v, 'c, 'w, 'x, 'u, 'n, 'q, 'm, 'z) ctl_env \<Rightarrow> 'z flags
     \<Rightarrow> ('a, 'p, 'v, 'c, 'w, 'x, 'n, 'q) ctl_manager run" where
  "run_controller E F =
     must (ce_getConfig E) (
     must (ce_newManager E (manager_options_of F)) (
     must_have (NewCompiler (ce_newEnv E) (ce_lru E) 1024) (\<lambda>(policyCompiler, cache).
     must_have (NewScheduler (ce_indexField E) (ce_client E) (ce_isTrue E) policyCompiler
                 (fg_rejectReportPipelineThreshold F) (fg_schedulerMaxPipelinesPerPolicy F)) (\<lambda>scheduler.
     must (ce_add E (RunScheduler scheduler)) (
     must_have (NewServer (ce_authClients E) (ce_json E) (report_options F)) (\<lambda>reportHTTPServer.
     must (if fg_reportHTTPAddr F \<noteq> ''0'' then ce_add E (RunReportServer reportHTTPServer) else None) (
     start_listener E F (\<lambda>listeners.
     must (SetupWithManager (ce_setupController E)) (
     must (if ce_getenv E ''ENABLE_WEBHOOKS'' \<noteq> ''false'' then ce_setupWebhook E else None) (
     must (ce_addHealthz E) (
     must (ce_addReadyz E) (
       (let m = \<lparr>cm_options = manager_options_of F,
                 cm_runnables = [RunScheduler scheduler]
                   @ (if fg_reportHTTPAddr F \<noteq> ''0'' then [RunReportServer reportHTTPServer] else [])
                   @ listeners,
                 cm_reconciler = \<lparr>rr_client = ce_rclient E, rr_util = ce_util E, rr_compiler = policyCompiler\<rparr>,
                 cm_webhook = (if ce_getenv E ''ENABLE_WEBHOOKS'' \<noteq> ''false''
                               then Some (webhook_defaulter (fg_clusterDownloaderName F)) else None),
                 cm_healthz = [''healthz''], cm_readyz = [''readyz'']\<rparr>
        in case ce_start E m of None \<Rightarrow> Ran m 0 | Some _ \<Rightarrow> Ran m 1)))))))))))))"

definition controller_main ::
  "('a, 'p, 'v, 'c, 'w, 'x, 'u, 'n, 'q, 'm, 'z) ctl_env \<Rightarrow> string list
     \<Rightarrow> ('a, 'p, 'v, 'c, 'w, 'x, 'n, 'q) ctl_manager run" where
  "controller_main E args =
     (case parse_flags (controller_flags (ce_zapFlags E)) args (default_flags (ce_zapOptions E)) of
        Inl err \<Rightarrow> Exit (flag_exit err)
      | Inr (F, _) \<Rightarrow> run_controller E F)"

subsection \<open>Command lines\<close>

text \<open>The arguments that set every flag of the program itself.\<close>

definition flag_values :: "'z flags \<Rightarrow> (string \<times> string) list" where
  "flag_values F =
     [(''metrics-bind-address'', fg_metricsAddr F), (''health-probe-bind-address'', fg_probeAddr F),
      (''leader-elect'', show_bool (fg_enableLeaderElection F)), (''metrics-secure'', show_bool (fg_secureMetrics F)),
      (''webhook-cert-path'', fg_webhookCertPath F), (''webhook-cert-name'', fg_webhookCertName F),
      (''webhook-cert-key'', fg_webhookCertKey F), (''metrics-cert-path'', fg_metricsCertPath F),
      (''metrics-cert-name'', fg_metricsCertName F), (''metrics-cert-key'', fg_metricsCertKey F),
      (''enable-http2'', show_bool (fg_enableHTTP2 F)), (''cluster-downloader-name'', fg_clusterDownloaderName F),
      (''report-http-bind-address'', fg_reportHTTPAddr F), (''report-http-secure'', show_bool (fg_secureReportHTTP F)),
      (''report-http-cert-path'', fg_reportHTTPCertPath F), (''report-http-cert-name'', fg_reportHTTPCertName F),
      (''report-http-cert-key'', fg_reportHTTPCertKey F), (''sqs-queue-url'', fg_sqsQueueURL F),
      (''sqs-parser'', fg_sqsParser F),
      (''reject-report-pipeline-threshold'', show_int (fg_rejectReportPipelineThreshold F)),
      (''max-pipelines-per-policy'', show_int (fg_schedulerMaxPipelinesPerPolicy F))]"

definition int64 :: "int \<Rightarrow> bool" where
  "int64 i \<longleftrightarrow> - (2 ^ 63) \<le> i \<and> i < 2 ^ 63"

lemma flag_values_names: "\<forall>nv \<in> set (flag_values F). flag_name (fst nv)"
  by (simp add: flag_values_def flag_name_def)

lemma set_flag_values:
  assumes "int64 (fg_rejectReportPipelineThreshold F)" "int64 (fg_schedulerMaxPipelinesPerPolicy F)"
  shows "set_flags (controller_flags zs) (flag_values F) (default_flags (fg_zap F)) = Some F"
proof -
  have i: "ParseInt (show_int (fg_rejectReportPipelineThreshold F)) = Some (fg_rejectReportPipelineThreshold F)"
    "ParseInt (show_int (fg_schedulerMaxPipelinesPerPolicy F)) = Some (fg_schedulerMaxPipelinesPerPolicy F)"
    using assms by (simp_all only: int64_def ParseInt_show)
  show ?thesis
    by (simp add: flag_values_def controller_flags_def i default_flags_def)
qed

lemma parse_flag_values:
  assumes "int64 (fg_rejectReportPipelineThreshold F)" "int64 (fg_schedulerMaxPipelinesPerPolicy F)"
  shows "parse_flags (controller_flags zs) (map eq_arg (flag_values F)) (default_flags (fg_zap F)) = Inr (F, [])"
  using parse_eq_args [OF flag_values_names set_flag_values [OF assms], where args = "[]"] by simp

text \<open>An argument that names no flag ends the program, whatever stands after it.\<close>

lemma parse_undefined:
  assumes "flag_name n" "map_of defs n = None"
  shows "parse_flags defs (eq_arg (n, v) # args) x
    = Inl (if n = ''help'' \<or> n = ''h'' then HelpRequested else NotDefined n)"
proof -
  have t: "flag_text (eq_arg (n, v)) = Some (Some (n @ ''='' @ v))"
    by (simp add: flag_text_def eq_arg_def)
  have n: "n @ ''='' @ v \<noteq> []" "hd (n @ ''='' @ v) \<noteq> CHR ''-''" "hd (n @ ''='' @ v) \<noteq> CHR ''=''"
    using assms(1) by (cases n; auto simp: flag_name_def)+
  have s: "split_value (n @ ''='' @ v) = (n, Some v)"
    using assms(1) split_value_eq by (simp add: flag_name_def)
  show ?thesis
    using n by (subst parse_flags.simps) (simp add: t s assms(2) del: append.simps)
qed

subsection \<open>What is started\<close>

text \<open>The errors that keep the manager from being started, in the order in which the program meets them.\<close>

definition sqs_errors ::
  "('a, 'p, 'v, 'c, 'w, 'x, 'u, 'n, 'q, 'm, 'z) ctl_env \<Rightarrow> 'z flags \<Rightarrow> goerr option list" where
  "sqs_errors E F =
     (if fg_sqsQueueURL F = '''' then []
      else [ce_loadConfig E,
            (case sqs_parser E (fg_sqsParser F) of Inl e \<Rightarrow> Some e | Inr p \<Rightarrow> None),
            (case configureSQSListener E (fg_sqsQueueURL F) (fg_sqsParser F) of
               Inl e \<Rightarrow> Some e | Inr l \<Rightarrow> ce_add E (RunListener l))])"

definition the_compiler ::
  "('a, 'p, 'v, 'c, 'w, 'x, 'u, 'n, 'q, 'm, 'z) ctl_env \<Rightarrow> ('a, 'p, 'v, 'c) compiler" where
  "the_compiler E = \<lparr>comp_env = projr (ce_newEnv E), comp_lru = ce_lru E\<rparr>"

definition the_scheduler ::
  "('a, 'p, 'v, 'c, 'w, 'x, 'u, 'n, 'q, 'm, 'z) ctl_env \<Rightarrow> 'z flags \<Rightarrow> ('a, 'p, 'v, 'c, 'w, 'x) scheduler" where
  "the_scheduler E F =
     \<lparr>rejectPipelineThreshold = fg_rejectReportPipelineThreshold F,
      maxPipelinesPerPolicy = fg_schedulerMaxPipelinesPerPolicy F, mgrClient = ce_client E,
      policyCompiler = the_compiler E, isConditionTrue = ce_isTrue E\<rparr>"

definition the_server ::
  "('a, 'p, 'v, 'c, 'w, 'x, 'u, 'n, 'q, 'm, 'z) ctl_env \<Rightarrow> 'z flags \<Rightarrow> ('v, 'n) server" where
  "the_server E F = projr (NewServer (ce_authClients E) (ce_json E) (report_options F))"

definition startup_errors ::
  "('a, 'p, 'v, 'c, 'w, 'x, 'u, 'n, 'q, 'm, 'z) ctl_env \<Rightarrow> 'z flags \<Rightarrow> goerr option list" where
  "startup_errors E F =
     [ce_getConfig E, ce_newManager E (manager_options_of F),
      (case ce_newEnv E of Inl e \<Rightarrow> Some e | Inr v \<Rightarrow> None), ce_indexField E,
      ce_add E (RunScheduler (the_scheduler E F)),
      (case ce_authClients E of Inl e \<Rightarrow> Some e | Inr a \<Rightarrow> None),
      (if fg_reportHTTPAddr F = ''0'' then None else ce_add E (RunReportServer (the_server E F)))]
     @ sqs_errors E F
     @ [SetupWithManager (ce_setupController E),
        (if ce_getenv E ''ENABLE_WEBHOOKS'' = ''false'' then None else ce_setupWebhook E),
        ce_addHealthz E, ce_addReadyz E]"

lemma must_None [simp]: "must None k = k"
  by (simp add: must_def)

lemma must_Some [simp]: "must (Some e) k = Exit 1"
  by (simp add: must_def)

lemma must_have_simps [simp]: "must_have (Inl e) f = Exit 1" "must_have (Inr x) f = f x"
  by (simp_all add: must_have_def)

lemma foldr_must: "foldr must es k = (if \<exists>e. Some e \<in> set es then Exit 1 else k)"
  by (induction es) (auto simp: must_def split: option.split)

lemma start_listener_eq:
  "start_listener E F k = foldr must (sqs_errors E F)
     (k (if fg_sqsQueueURL F = '''' then []
         else [RunListener (projr (configureSQSListener E (fg_sqsQueueURL F) (fg_sqsParser F)))]))"
  by (cases "ce_loadConfig E"; cases "sqs_parser E (fg_sqsParser F)")
     (auto simp: start_listener_def sqs_errors_def BuildAWSConfig_def configureSQSListener_def NewListener_def)

text \<open>The manager that is started when nothing fails.\<close>

definition the_manager ::
  "('a, 'p, 'v, 'c, 'w, 'x, 'u, 'n, 'q, 'm, 'z) ctl_env \<Rightarrow> 'z flags
     \<Rightarrow> ('a, 'p, 'v, 'c, 'w, 'x, 'n, 'q) ctl_manager" where
  "the_manager E F =
     \<lparr>cm_options = manager_options_of F,
      cm_runnables = [RunScheduler (the_scheduler E F)]
        @ (if fg_reportHTTPAddr F = ''0'' then [] else [RunReportServer (the_server E F)])
        @ (if fg_sqsQueueURL F = '''' then []
           else [RunListener (projr (configureSQSListener E (fg_sqsQueueURL F) (fg_sqsParser F)))]),
      cm_reconciler = \<lparr>rr_client = ce_rclient E, rr_util = ce_util E, rr_compiler = the_compiler E\<rparr>,
      cm_webhook = (if ce_getenv E ''ENABLE_WEBHOOKS'' = ''false'' then None
                    else Some (webhook_defaulter (fg_clusterDownloaderName F))),
      cm_healthz = [''healthz''], cm_readyz = [''readyz'']\<rparr>"

lemma flip_if: "(if a \<noteq> b then x else y) = (if a = b then y else x)"
  by simp

lemma ran_code: "(case e of None \<Rightarrow> Ran m 0 | Some _ \<Rightarrow> Ran m 1) = Ran m (if e = None then 0 else 1)"
  by (cases e) simp_all

lemma run_controller_eq:
  "run_controller E F =
     (if \<exists>e. Some e \<in> set (startup_errors E F) then Exit 1
      else Ran (the_manager E F) (if ce_start E (the_manager E F) = None then 0 else 1))"
proof (cases "ce_newEnv E")
  case (Inl e)
  then show ?thesis
    unfolding run_controller_def foldr_must [symmetric]
    by (simp add: startup_errors_def NewCompiler_def)
next
  case env: (Inr env)
  then have c: "NewCompiler (ce_newEnv E) (ce_lru E) 1024 = Inr (the_compiler E, lru_new (ce_lru E) 1024)"
    by (simp add: NewCompiler_def the_compiler_def)
  show ?thesis
  proof (cases "ce_indexField E")
    case (Some e)
    then show ?thesis
      unfolding run_controller_def c must_have_simps split foldr_must [symmetric]
      by (simp add: startup_errors_def NewScheduler_def env)
  next
    case None
    then have s: "NewScheduler (ce_indexField E) (ce_client E) (ce_isTrue E) (the_compiler E)
        (fg_rejectReportPipelineThreshold F) (fg_schedulerMaxPipelinesPerPolicy F) = Inr (the_scheduler E F)"
      by (simp add: NewScheduler_def the_scheduler_def)
    show ?thesis
    proof (cases "ce_authClients E")
      case (Inl e)
      then show ?thesis
        unfolding run_controller_def c s must_have_simps split foldr_must [symmetric]
        by (simp add: startup_errors_def NewServer_def env None)
    next
      case (Inr A)
      then have v: "NewServer (ce_authClients E) (ce_json E) (report_options F) = Inr (the_server E F)"
        by (simp add: the_server_def NewServer_def)
      show ?thesis
        unfolding run_controller_def c s v must_have_simps split start_listener_eq foldr_must [symmetric]
          startup_errors_def foldr_append
        by (simp only: env None Inr Let_def the_manager_def [symmetric] foldr.simps o_apply id_apply sum.case
            flip_if ran_code must_None)
    qed
  qed
qed

subsection \<open>A reference environment\<close>

text \<open>
  \<open>authOK\<close>, \<open>awsOK\<close>: whether the clients of the API server and the AWS configuration can be built. Everything
  else succeeds.
\<close>

definition demo_ctl ::
  "bool \<Rightarrow> bool \<Rightarrow> (string \<Rightarrow> string) \<Rightarrow>
     (string, string, rval, string cached list_cache, unit pipeline list, unit, string, unit, message list,
      goerr list, bool) ctl_env" where
  "demo_ctl authOK awsOK getenv = \<lparr>
     ce_zapFlags = [(''zap-devel'', BoolVar (\<lambda>b z. b))], ce_zapOptions = False, ce_getenv = getenv,
     ce_getConfig = None, ce_newManager = (\<lambda>m. None), ce_newEnv = Inr ref_cel, ce_lru = list_lru,
     ce_indexField = None, ce_client = ref_client [], ce_isTrue = ref_ready,
     ce_rclient = \<lparr>rc_get = (\<lambda>k w. (Inl (ErrMsg ''not found''), w)), rc_update = (\<lambda>p w. (None, w)),
        rc_statusUpdate = (\<lambda>p w. (None, w)), rc_ignoreNotFound = (\<lambda>e. None)\<rparr>,
     ce_util = ref_util, ce_add = (\<lambda>r. None),
     ce_authClients = (if authOK then Inr ref_auth else Inl (ErrMsg ''no CA'')),
     ce_json = ref_jlib, ce_loadConfig = (if awsOK then None else Some (ErrMsg ''no region'')),
     ce_s3 = (\<lambda>b. \<lparr>s3_json = ref_jlib, s3_multi = ref_multi,
        s3_getObject = (\<lambda>i w. (Inl (ErrMsg ''NoSuchKey''), w))\<rparr>),
     ce_sqs = ref_sqs, ce_setupController = (\<lambda>b. None), ce_setupWebhook = None, ce_addHealthz = None,
     ce_addReadyz = None, ce_start = (\<lambda>m. None)\<rparr>"

lemmas demo_ctl_defs = demo_ctl_def SetupWithManager_def startup_errors_def sqs_errors_def configureSQSListener_def sqs_parser_def
  NewListener_def

lemma sqs_parser_unknown: "p \<notin> {''message-body'', ''s3-event''} \<Longrightarrow> \<exists>err. sqs_parser E p = Inl err"
  by (simp add: sqs_parser_def)

subsection \<open>Properties of the program\<close>

text \<open>
  C20. The flags decide what runs. When the manager is started, its runnables are the scheduler, with the
  threshold and the limit of the flags; the report server, with the options of the flags, exactly when
  its address is not \<^verbatim>\<open>0\<close>; and a listener on the queue of the flags exactly when there is one, with the
  parser that the flag names, which is one of the two there are. Scheduler and reconciler compile with
  the same compiler, and the defaulting webhook, unless it is disabled, has the downloader of the flags.
\<close>

theorem started_as_configured:
  assumes "run_controller E F = Ran m code"
  shows "cm_runnables m = [RunScheduler (the_scheduler E F)]
           @ (if fg_reportHTTPAddr F = ''0'' then [] else [RunReportServer (the_server E F)])
           @ (if fg_sqsQueueURL F = '''' then []
              else [RunListener \<lparr>li_sqsClient = ce_sqs E, li_queueURL = fg_sqsQueueURL F, li_waitTime = Second * 20,
                      li_visibilityTime = Minute,
                      li_reportParser =
                        (if fg_sqsParser F = ''message-body'' then RawReportParser (ce_json E)
                         else S3EventReportParser (ce_s3 E (ce_getenv E ''AWS_S3_USE_PATH_STYLE'' \<noteq> '''')))\<rparr>])
     \<and> (fg_sqsQueueURL F \<noteq> '''' \<longrightarrow> fg_sqsParser F \<in> {''message-body'', ''s3-event''})
     \<and> rejectPipelineThreshold (the_scheduler E F) = fg_rejectReportPipelineThreshold F
     \<and> maxPipelinesPerPolicy (the_scheduler E F) = fg_schedulerMaxPipelinesPerPolicy F
     \<and> policyCompiler (the_scheduler E F) = rr_compiler (cm_reconciler m)
     \<and> sv_opts (the_server E F) = report_options F
     \<and> cm_webhook m = (if ce_getenv E ''ENABLE_WEBHOOKS'' = ''false'' then None
                        else Some (webhook_defaulter (fg_clusterDownloaderName F)))"
proof -
  from assms have m: "m = the_manager E F" and ok: "\<And>e. Some e \<notin> set (startup_errors E F)"
    by (auto simp: run_controller_eq split: if_splits)
  have auth: "\<exists>A. ce_authClients E = Inr A"
    using ok by (cases "ce_authClients E") (auto simp: startup_errors_def)
  have p: "fg_sqsQueueURL F \<noteq> '''' \<Longrightarrow> fg_sqsParser F \<in> {''message-body'', ''s3-event''}"
    using ok sqs_parser_unknown [of "fg_sqsParser F" E] by (force simp: startup_errors_def sqs_errors_def)
  then have l: "fg_sqsQueueURL F \<noteq> '''' \<Longrightarrow> projr (configureSQSListener E (fg_sqsQueueURL F) (fg_sqsParser F))
      = \<lparr>li_sqsClient = ce_sqs E, li_queueURL = fg_sqsQueueURL F, li_waitTime = Second * 20,
         li_visibilityTime = Minute,
         li_reportParser =
           (if fg_sqsParser F = ''message-body'' then RawReportParser (ce_json E)
            else S3EventReportParser (ce_s3 E (ce_getenv E ''AWS_S3_USE_PATH_STYLE'' \<noteq> '''')))\<rparr>"
    by (auto simp: configureSQSListener_def sqs_parser_def NewListener_def)
  from auth have opts: "sv_opts (the_server E F) = report_options F"
    by (auto simp: the_server_def NewServer_def)
  show ?thesis
    using p l opts by (simp add: m the_manager_def the_scheduler_def)
qed

definition demo_flags :: "bool flags" where
  "demo_flags = (default_flags False)\<lparr>fg_reportHTTPAddr := '':7070'', fg_sqsQueueURL := ''https://sqs/q'',
     fg_rejectReportPipelineThreshold := - 3\<rparr>"

lemma demo_started:
  "run_controller (demo_ctl True True (\<lambda>v. [])) demo_flags = Ran (the_manager (demo_ctl True True (\<lambda>v. [])) demo_flags) 0"
  by (simp add: run_controller_eq demo_ctl_defs demo_flags_def default_flags_def)

theorem started_as_configured_witness:
  "length (cm_runnables (the_manager (demo_ctl True True (\<lambda>v. [])) demo_flags)) = 3
   \<and> rejectPipelineThreshold (the_scheduler (demo_ctl True True (\<lambda>v. [])) demo_flags) = - 3"
  using started_as_configured [OF demo_started] by (simp add: demo_flags_def default_flags_def)

text \<open>
  C37. Nothing is started unless everything can be. The program starts the manager exactly when none of the
  steps that its flags ask for fails; if one does, whichever it is, it exits with 1 and nothing has
  run. The clients of the report server have to be built even when that server is disabled.
\<close>

theorem exits_on_first_failure:
  "(run_controller E F = Exit n \<longleftrightarrow> n = 1 \<and> (\<exists>e. Some e \<in> set (startup_errors E F)))
   \<and> ((\<exists>m code. run_controller E F = Ran m code) \<longleftrightarrow> (\<forall>e \<in> set (startup_errors E F). e = None))
   \<and> (ce_authClients E = Inl err \<longrightarrow> run_controller E F = Exit 1)"
proof -
  have n: "(\<exists>e. Some e \<in> set es) \<longleftrightarrow> \<not> (\<forall>e \<in> set es. e = None)" for es :: "goerr option list"
    by (metis not_None_eq)
  have a: "ce_authClients E = Inl err \<Longrightarrow> Some err \<in> set (startup_errors E F)"
    by (simp add: startup_errors_def)
  then show ?thesis
    using a unfolding run_controller_eq n by auto
qed

theorem exits_on_first_failure_witness:
  "run_controller (demo_ctl False True (\<lambda>v. [])) (default_flags False) = Exit 1
   \<and> run_controller (demo_ctl True False (\<lambda>v. [])) demo_flags = Exit 1
   \<and> (\<exists>m code. run_controller (demo_ctl True True (\<lambda>v. [])) demo_flags = Ran m code)"
  using exits_on_first_failure [of "demo_ctl False True (\<lambda>v. [])" "default_flags False" 1 "ErrMsg ''no CA''"]
    exits_on_first_failure [of "demo_ctl True False (\<lambda>v. [])" demo_flags 1 "ErrMsg ''no CA''"] demo_started
  by (auto simp: demo_ctl_defs demo_flags_def default_flags_def)

text \<open>
  HTTP/2 is off unless it is asked for: without \<^verbatim>\<open>--enable-http2\<close> the webhook server, the metrics server
  and the report server all offer \<^verbatim>\<open>http/1.1\<close> alone, whatever their configuration offered before; with it
  none of them is changed.
\<close>

theorem http2_off_by_default:
  assumes "run_controller E F = Ran m code" "RunReportServer V \<in> set (cm_runnables m)"
  shows "(\<forall>opts \<in> {mo_webhookTLS (cm_options m), mo_metricsTLS (cm_options m), ho_TlsOpts (sv_opts V)}.
            fold (\<lambda>f protos. f protos) opts protos0
              = (if fg_enableHTTP2 F then protos0 else [''http/1.1'']))
    \<and> (server_listening (sv_opts V) =
         (let offered = (if fg_enableHTTP2 F then [''h2''] else [''http/1.1'']);
              c = certs_of (fg_reportHTTPCertPath F) (fg_reportHTTPCertName F) (fg_reportHTTPCertKey F)
          in if fg_secureReportHTTP F
             then ListenTLS (fg_reportHTTPAddr F) offered (path_Join [ct_CertDir c, ct_CertName c])
                    (path_Join [ct_CertDir c, ct_KeyName c])
             else Listen (fg_reportHTTPAddr F) offered))"
proof -
  from assms(1) have m: "m = the_manager E F" and ok: "\<And>e. Some e \<notin> set (startup_errors E F)"
    by (auto simp: run_controller_eq split: if_splits)
  have auth: "\<exists>A. ce_authClients E = Inr A"
    using ok by (cases "ce_authClients E") (auto simp: startup_errors_def)
  from assms(2) m have "V = the_server E F" by (auto simp: the_manager_def split: if_splits)
  with auth have v: "sv_opts V = report_options F" by (auto simp: the_server_def NewServer_def)
  show ?thesis
    by (simp add: m v the_manager_def manager_options_of_def report_options_def tls_opts_def
        disableHTTP2_def server_listening_def Let_def)
qed

theorem http2_off_by_default_witness:
  "let E = demo_ctl True True (\<lambda>v. []); F = demo_flags\<lparr>fg_secureReportHTTP := False\<rparr>
   in server_listening (sv_opts (the_server E F)) = Listen '':7070'' [''http/1.1'']"
proof -
  let ?E = "demo_ctl True True (\<lambda>v. [])" and ?F = "demo_flags\<lparr>fg_secureReportHTTP := False\<rparr>"
  have "run_controller ?E ?F = Ran (the_manager ?E ?F) 0"
    by (simp add: run_controller_eq demo_ctl_defs demo_flags_def default_flags_def)
  moreover have "RunReportServer (the_server ?E ?F) \<in> set (cm_runnables (the_manager ?E ?F))"
    by (simp add: the_manager_def demo_flags_def default_flags_def)
  ultimately show ?thesis
    using http2_off_by_default [of ?E ?F "the_manager ?E ?F" 0 "the_server ?E ?F" "[]"]
    by (simp add: Let_def demo_flags_def default_flags_def)
qed

text \<open>
  C26. A command line that gives every flag as \<^verbatim>\<open>--name=value\<close>, numbers in decimal, is read back to exactly those
  values, for any strings, booleans and 64-bit integers, so the program runs as configured; the flags of zap stay at their defaults.
\<close>

theorem controller_flags_roundtrip:
  assumes "int64 (fg_rejectReportPipelineThreshold F)" "int64 (fg_schedulerMaxPipelinesPerPolicy F)"
    and "fg_zap F = ce_zapOptions E"
  shows "controller_main E (map eq_arg (flag_values F)) = run_controller E F"
  using parse_flag_values [OF assms(1,2)] assms(3) by (simp add: controller_main_def)

theorem controller_flags_roundtrip_witness:
  "\<exists>m. controller_main (demo_ctl True True (\<lambda>v. [])) (map eq_arg (flag_values demo_flags)) = Ran m 0
     \<and> cm_options m = manager_options_of demo_flags"
  using controller_flags_roundtrip [of demo_flags "demo_ctl True True (\<lambda>v. [])"] demo_started
  by (simp add: int64_def demo_flags_def default_flags_def the_manager_def demo_ctl_def)

text \<open>
  A flag that the program does not have ends it: after any flags that are well set, an argument that names
  no flag exits with 2 (with 0 for \<^verbatim>\<open>--help\<close> and \<^verbatim>\<open>-h\<close>), whatever follows, and nothing is built.
\<close>

theorem undefined_flag_exits:
  assumes "\<forall>nv \<in> set nvs. flag_name (fst nv)"
    and "set_flags (controller_flags (ce_zapFlags E)) nvs (default_flags (ce_zapOptions E)) = Some F"
    and "flag_name n" "map_of (controller_flags (ce_zapFlags E)) n = None"
  shows "controller_main E (map eq_arg nvs @ eq_arg (n, v) # args)
    = Exit (if n \<in> {''help'', ''h''} then 0 else 2)"
  using parse_eq_args [OF assms(1,2)] parse_undefined [OF assms(3,4)]
  by (simp add: controller_main_def)

theorem undefined_flag_exits_witness:
  "controller_main (demo_ctl True True (\<lambda>v. [])) [''--report-http-bind-addr=:7443''] = Exit 2
   \<and> controller_main (demo_ctl True True (\<lambda>v. [])) [''--sqs-parser=s3-event'', ''--help=''] = Exit 0"
proof -
  let ?E = "demo_ctl True True (\<lambda>v. [])"
  have "controller_main ?E (map eq_arg [] @ eq_arg (''report-http-bind-addr'', '':7443'') # []) = Exit 2"
    using undefined_flag_exits [of "[]" ?E "default_flags False" "''report-http-bind-addr''" "'':7443''" "[]"]
    by (simp add: flag_name_def controller_flags_def demo_ctl_def)
  moreover have "controller_main ?E (map eq_arg [(''sqs-parser'', ''s3-event'')] @ eq_arg (''help'', '''') # []) = Exit 0"
    using undefined_flag_exits [of "[(''sqs-parser'', ''s3-event'')]" ?E
        "(default_flags False)\<lparr>fg_sqsParser := ''s3-event''\<rparr>" "''help''" "''''" "[]"]
    by (simp add: flag_name_def controller_flags_def demo_ctl_def)
  ultimately show ?thesis by (simp add: eq_arg_def)
qed

end
