(* ===== verification/Helm_Patch.thy ===== *)
theory Helm_Patch
  imports Api_Types Go_Path
begin

section \<open>The chart patcher\<close>

text \<open>
  \<^verbatim>\<open>hack/kubebuilder-helm-patch\<close> (\<^verbatim>\<open>main.go\<close>, \<^verbatim>\<open>patch.go\<close>): a plugin of kubebuilder that rewrites the files of
  a generated Helm chart. The regular expressions the code compiles have four forms, which are a
  datatype with Go's matching and replacement; the order in which Go iterates over a map is an
  argument; \<^verbatim>\<open>text/template\<close>, JSON text and \<open>%q\<close> are the record \<open>helm_lib\<close>.
\<close>

subsection \<open>Regular expressions\<close>

text \<open>
  \<open>IndentedLine lit eol\<close> is \<^verbatim>\<open>(?m)^([ ]+)lit\<close>, followed by \<^verbatim>\<open>.*$\<close> when \<open>eol\<close> is set; \<open>Literal lit\<close> the text
  itself; \<open>TextStart\<close> and \<open>TextEnd\<close> are \<^verbatim>\<open>^\<close> and \<^verbatim>\<open>$\<close> without flags. Only the first has a group.
\<close>

datatype regex_form =
    IndentedLine string bool
  | Literal string
  | TextStart
  | TextEnd

record regex =
  rx_source :: string
  rx_form :: regex_form

abbreviation newline :: char where
  "newline \<equiv> CHR 0x0A"

definition dollar :: char where
  "dollar = CHR 0x24"

text \<open>The group and the rest of a line that matches. A literal does not begin with a space.\<close>

definition match_line :: "string \<Rightarrow> string \<Rightarrow> (string \<times> string) option" where
  "match_line lit line =
     (let sp = takeWhile (\<lambda>c. c = CHR '' '') line; rest = dropWhile (\<lambda>c. c = CHR '' '') line in
      if sp \<noteq> [] \<and> HasPrefix rest lit then Some (sp, drop (length lit) rest) else None)"

fun contains :: "string \<Rightarrow> string \<Rightarrow> bool" where
  "contains [] lit = (lit = [])"
| "contains (c # s) lit = (HasPrefix (c # s) lit \<or> contains s lit)"

text \<open>\<open>Regexp.Expand\<close> for the two forms that the templates have: \<^verbatim>\<open>$$\<close> and \<^verbatim>\<open>${1}\<close>.\<close>

fun expand :: "string \<Rightarrow> string \<Rightarrow> string" where
  "expand [] g = []"
| "expand (c # t) g =
     (if c = dollar \<and> HasPrefix t [dollar] then dollar # expand (drop 1 t) g
      else if c = dollar \<and> HasPrefix t ''{1}'' then g @ expand (drop 3 t) g
      else c # expand t g)"

text \<open>Leftmost matches of a text that is not empty, none overlapping another.\<close>

function replace_text :: "string \<Rightarrow> string \<Rightarrow> string \<Rightarrow> string" where
  "replace_text lit repl [] = []"
| "replace_text lit repl (c # s) =
     (if lit \<noteq> [] \<and> HasPrefix (c # s) lit then repl @ replace_text lit repl (drop (length lit) (c # s))
      else c # replace_text lit repl s)"
  by pat_completeness auto

termination
  by (relation "measure (\<lambda>(lit, repl, s). length s)") auto

definition MatchString :: "regex \<Rightarrow> string \<Rightarrow> bool" where
  "MatchString r s =
     (case rx_form r of
        IndentedLine lit eol \<Rightarrow> list_ex (\<lambda>l. match_line lit l \<noteq> None) (split_on newline s)
      | Literal lit \<Rightarrow> contains s lit
      | TextStart \<Rightarrow> True
      | TextEnd \<Rightarrow> True)"

definition ReplaceAllString :: "regex \<Rightarrow> string \<Rightarrow> string \<Rightarrow> string" where
  "ReplaceAllString r s tmpl =
     (case rx_form r of
        IndentedLine lit eol \<Rightarrow>
          join_with newline
            (map (\<lambda>l. case match_line lit l of
                        None \<Rightarrow> l
                      | Some (sp, rest) \<Rightarrow> expand tmpl sp @ (if eol then [] else rest))
               (split_on newline s))
      | Literal lit \<Rightarrow> replace_text lit (expand tmpl []) s
      | TextStart \<Rightarrow> expand tmpl [] @ s
      | TextEnd \<Rightarrow> s @ expand tmpl [])"

subsection \<open>Replacements and paddings\<close>

record replacement =
  Pattern :: regex
  Replacement :: string

record textPadding =
  Prefix :: string
  Suffix :: string

text \<open>
  The libraries: \<open>hl_quote\<close> is \<open>%q\<close>, \<open>hl_parse name content\<close> and \<open>hl_execute name content values\<close> are the two
  steps of a template; \<open>hl_chartTmpl\<close> is the embedded file \<^verbatim>\<open>Chart.yaml.template\<close>.
\<close>

record helm_lib =
  hl_quote :: "string \<Rightarrow> string"
  hl_parse :: "string \<Rightarrow> string \<Rightarrow> goerr option"
  hl_execute :: "string \<Rightarrow> string \<Rightarrow> (string \<rightharpoonup> string) \<Rightarrow> string res"
  hl_getenv :: "string \<Rightarrow> string"
  hl_chartTmpl :: string

definition replacement_apply :: "helm_lib \<Rightarrow> replacement \<Rightarrow> string \<Rightarrow> string \<times> goerr option" where
  "replacement_apply H r content =
     (if \<not> MatchString (Pattern r) content
      then (content, Some (ErrMsg (''patch '' @ hl_quote H (rx_source (Pattern r)) @ '': pattern did not match'')))
      else (ReplaceAllString (Pattern r) content (Replacement r), None))"

definition padding_apply :: "textPadding \<Rightarrow> string \<Rightarrow> string" where
  "padding_apply t content = Prefix t @ content @ Suffix t"

record 'v plugin_request =
  pr_APIVersion :: string
  pr_Command :: string
  pr_Universe :: "string \<rightharpoonup> string"
  pr_Config :: "string \<rightharpoonup> 'v any"

record plugin_response =
  ps_APIVersion :: string
  ps_Command :: string
  ps_Universe :: "string \<rightharpoonup> string"
  ps_Error :: bool
  ps_ErrorMsgs :: "string list"

definition getFileContents :: "string \<Rightarrow> 'v plugin_request \<Rightarrow> plugin_response \<Rightarrow> string res" where
  "getFileContents p req resp =
     (case ps_Universe resp p of
        Some c \<Rightarrow> Inr c
      | None \<Rightarrow>
          (case pr_Universe req p of
             Some c \<Rightarrow> Inr c
           | None \<Rightarrow> Inl (ErrMsg (''file does not exist in universe: '' @ p))))"

definition put_file :: "string \<Rightarrow> string \<Rightarrow> plugin_response \<Rightarrow> plugin_response" where
  "put_file p content resp = resp\<lparr>ps_Universe := (ps_Universe resp)(p \<mapsto> content)\<rparr>"

text \<open>The inner loop: the replacements of a file, in order.\<close>

fun replace_file :: "helm_lib \<Rightarrow> replacement list \<Rightarrow> string \<Rightarrow> string res" where
  "replace_file H [] content = Inr content"
| "replace_file H (r # rs) content =
     (case replacement_apply H r content of
        (_, Some err) \<Rightarrow> Inl err
      | (content1, None) \<Rightarrow> replace_file H rs content1)"

text \<open>The list is the map in the order of its iteration.\<close>

fun applyReplacements ::
  "helm_lib \<Rightarrow> string \<Rightarrow> (string \<times> replacement list) list \<Rightarrow> 'v plugin_request \<Rightarrow> plugin_response
     \<Rightarrow> goerr option \<times> plugin_response" where
  "applyReplacements H outputDir [] req resp = (None, resp)"
| "applyReplacements H outputDir ((p, rs) # rest) req resp =
     (let fPath = path_Join [outputDir, p] in
      case getFileContents fPath req resp of
        Inl err \<Rightarrow> (Some err, resp)
      | Inr content \<Rightarrow>
          (case replace_file H rs content of
             Inl err \<Rightarrow> (Some err, resp)
           | Inr content1 \<Rightarrow> applyReplacements H outputDir rest req (put_file fPath content1 resp)))"

fun applyPaddings ::
  "string \<Rightarrow> (string \<times> textPadding) list \<Rightarrow> 'v plugin_request \<Rightarrow> plugin_response
     \<Rightarrow> goerr option \<times> plugin_response" where
  "applyPaddings outputDir [] req resp = (None, resp)"
| "applyPaddings outputDir ((p, t) # rest) req resp =
     (let fPath = path_Join [outputDir, p] in
      case getFileContents fPath req resp of
        Inl err \<Rightarrow> (Some err, resp)
      | Inr content \<Rightarrow> applyPaddings outputDir rest req (put_file fPath (padding_apply t content) resp))"

definition templateContent :: "helm_lib \<Rightarrow> string \<Rightarrow> string \<Rightarrow> (string \<rightharpoonup> string) \<Rightarrow> string res" where
  "templateContent H name content values =
     (case hl_parse H name content of
        Some err \<Rightarrow> Inl (ErrWrap (''failed to parse template '' @ name @ '': '') err '''')
      | None \<Rightarrow>
          (case hl_execute H name content values of
             Inl err \<Rightarrow> Inl (ErrWrap (''failed to execute template '' @ name @ '': '') err '''')
           | Inr out \<Rightarrow> Inr out))"

subsection \<open>The tables\<close>

definition chartPath :: string where
  "chartPath = ''chart/Chart.yaml''"

definition managerPath :: string where
  "managerPath = ''chart/templates/manager/manager.yaml''"

definition downloaderPath :: string where
  "downloaderPath = ''chart/templates/extras/chalkmark-extract.yaml''"

definition uploaderPath :: string where
  "uploaderPath = ''chart/templates/extras/results.yaml''"

definition reportServicePath :: string where
  "reportServicePath = ''chart/templates/extras/report-http.yaml''"

definition controllerServiceAccountPath :: string where
  "controllerServiceAccountPath = ''chart/templates/rbac/controller-manager.yaml''"

text \<open>Lines that all begin with the group.\<close>

definition indented :: "string list \<Rightarrow> string" where
  "indented ls = join_with newline (map (\<lambda>l. ''${1}'' @ l) ls)"

definition bs :: string where
  "bs = [CHR 0x5C]"

definition at_indent :: "string \<Rightarrow> string \<Rightarrow> replacement" where
  "at_indent lit repl =
     \<lparr>Pattern = \<lparr>rx_source = ''(?m)^([ ]+)'' @ lit, rx_form = IndentedLine lit False\<rparr>, Replacement = repl\<rparr>"

definition whole_line :: "string \<Rightarrow> string \<Rightarrow> replacement" where
  "whole_line lit repl =
     \<lparr>Pattern = \<lparr>rx_source = ''(?m)^([ ]+)'' @ lit @ ''.*$'', rx_form = IndentedLine lit True\<rparr>, Replacement = repl\<rparr>"

definition values_text :: string where
  "values_text = ''.Values''"

definition values_replacement :: replacement where
  "values_replacement =
     \<lparr>Pattern = \<lparr>rx_source = bs @ ''.Values'', rx_form = Literal values_text\<rparr>, Replacement = ''$$values''\<rparr>"

definition label_lines :: "string \<Rightarrow> string \<Rightarrow> replacement" where
  "label_lines key source =
     at_indent (key @ '':'')
       (indented [key @ '':'', ''  {{- range $$key, $$val := '' @ source @ '' }}'',
                  ''  {{ $$key }}: {{ $$val | quote }}'', ''  {{- end}}''])"

definition image_lines :: "string \<Rightarrow> replacement list" where
  "image_lines who =
     [whole_line ''image:'' (''${1}image: {{ .Values.'' @ who @ ''.image.repository }}:{{ .Values.'' @ who @ ''.image.tag }}''),
      whole_line ''imagePullPolicy:'' (''${1}imagePullPolicy: {{ .Values.'' @ who @ ''.image.pullPolicy }}'')]"

definition arg_texts :: "string list" where
  "arg_texts =
    [''- args:'',
     ''  {{- if .Values.intake.rejectReportPipelineThreshold }}'',
     ''  - --reject-report-pipeline-threshold={{ .Values.intake.rejectReportPipelineThreshold }}'',
     ''  {{- end }}'',
     ''  {{- if .Values.intake.maxPipelinesPerPolicy }}'',
     ''  - --max-pipelines-per-policy={{ .Values.intake.maxPipelinesPerPolicy }}'',
     ''  {{- end }}'',
     ''  {{- if .Values.intake.sqs.enable}}'',
     ''  - --sqs-queue-url={{ .Values.intake.sqs.queueURL }}'',
     ''  - --sqs-parser={{ .Values.intake.sqs.parser }}'',
     ''  {{- end }}'',
     ''  {{- if .Values.intake.http.enable}}'',
     ''  - --report-http-bind-address=:{{ .Values.intake.http.port }}'',
     ''  - --report-http-secure={{ .Values.intake.http.secure }}'',
     ''  {{- if .Values.intake.http.secure }}'',
     ''  - --report-http-cert-path={{ .Values.intake.http.cert.path }}'',
     ''  - --report-http-cert-name={{ .Values.intake.http.cert.name }}'',
     ''  - --report-http-cert-key={{ .Values.intake.http.cert.key }}'',
     ''  {{- end }}'',
     ''  {{- end }}'']"

definition args_lines :: replacement where
  "args_lines =
     \<lparr>Pattern = \<lparr>rx_source = ''(?m)^([ ]+)(- args:)'', rx_form = IndentedLine ''- args:'' False\<rparr>,
      Replacement = indented arg_texts\<rparr>"

definition env_lines :: replacement where
  "env_lines =
     \<lparr>Pattern = \<lparr>rx_source = ''(?m)^([ ]+)env: '' @ bs @ ''['' @ bs @ '']'', rx_form = IndentedLine ''env: []'' False\<rparr>,
      Replacement = indented
        [''env:'', ''  {{- if .Values.manager.env }}'', ''  {{- toYaml .Values.manager.env | nindent 8 }}'',
         ''  {{- else}}'', ''  []'', ''  {{- end}}'']\<rparr>"

definition volume_lines :: "string \<Rightarrow> string \<Rightarrow> replacement" where
  "volume_lines key n =
     at_indent (key @ '':'')
       (indented [key @ '':'', ''  {{- if .Values.manager.'' @ key @ '' }}'',
                  ''  {{- toYaml .Values.manager.'' @ key @ '' | nindent '' @ n @ ''}}'', ''  {{- end}}''])"

definition replacements :: "(string \<times> replacement list) list" where
  "replacements =
     [(managerPath,
        [label_lines ''labels'' ''.Values.manager.labels'',
         label_lines ''annotations'' ''.Values.manager.annotations'',
         args_lines, env_lines, volume_lines ''volumeMounts'' ''8'', volume_lines ''volumes'' ''6'',
         values_replacement]),
      (downloaderPath, image_lines ''downloader'' @ [values_replacement]),
      (uploaderPath, image_lines ''uploader'' @ [values_replacement]),
      (reportServicePath,
        [\<lparr>Pattern = \<lparr>rx_source = ''^'', rx_form = TextStart\<rparr>,
          Replacement = ''{{- if .Values.intake.http.enable }}'' @ [newline]\<rparr>,
         \<lparr>Pattern = \<lparr>rx_source = ''$'', rx_form = TextEnd\<rparr>, Replacement = newline # ''{{- end}}''\<rparr>,
         whole_line ''port:'' ''${1}port: {{ .Values.intake.http.port }}'',
         whole_line ''targetPort:'' ''${1}targetPort: {{ .Values.intake.http.port }}'',
         values_replacement]),
      (controllerServiceAccountPath,
        [label_lines ''labels'' ''.Values.manager.serviceaccount.labels'',
         label_lines ''annotations'' ''.Values.manager.serviceaccount.annotations'',
         values_replacement])]"

definition values_padding :: textPadding where
  "values_padding =
     \<lparr>Prefix = newline # join_with newline
        [''{{- $values := (tpl (.Values | toYaml) $) | fromYaml }}'',
         ''{{- $values := (tpl ($values | toYaml) $) | fromYaml }}'', ''---'', ''''],
      Suffix = ''''\<rparr>"

definition paddings :: "(string \<times> textPadding) list" where
  "paddings =
     [(managerPath, values_padding), (uploaderPath, values_padding), (downloaderPath, values_padding),
      (controllerServiceAccountPath, values_padding), (reportServicePath, values_padding)]"

subsection \<open>The plugin\<close>

definition empty_response :: "'v plugin_request \<Rightarrow> plugin_response" where
  "empty_response req =
     \<lparr>ps_APIVersion = pr_APIVersion req, ps_Command = pr_Command req, ps_Universe = Map.empty,
      ps_Error = False, ps_ErrorMsgs = []\<rparr>"

definition chart_values :: "helm_lib \<Rightarrow> string \<rightharpoonup> string" where
  "chart_values H =
     [''ChartVersion'' \<mapsto> TrimLeft (hl_getenv H ''CHALKULAR_HELM_VERSION'') (CHR ''v''),
      ''AppVersion'' \<mapsto> TrimLeft (hl_getenv H ''CHALKULAR_VERSION'') (CHR ''v'')]"

text \<open>The two lists are the tables in the orders in which the maps are iterated over.\<close>

definition patchHelmChart ::
  "helm_lib \<Rightarrow> (string \<times> replacement list) list \<Rightarrow> (string \<times> textPadding) list \<Rightarrow> string \<Rightarrow> 'v plugin_request
     \<Rightarrow> plugin_response \<times> goerr option" where
  "patchHelmChart H rs ps outputDir req =
     (case applyReplacements H outputDir rs req (empty_response req) of
        (Some err, resp) \<Rightarrow> (resp, Some err)
      | (None, resp) \<Rightarrow>
          (case applyPaddings outputDir ps req resp of
             (Some err, resp1) \<Rightarrow> (resp1, Some err)
           | (None, resp1) \<Rightarrow>
               (case templateContent H ''Chart.yaml'' (hl_chartTmpl H) (chart_values H) of
                  Inl err \<Rightarrow> (resp1, Some err)
                | Inr chart \<Rightarrow> (put_file (path_Join [outputDir, chartPath]) chart resp1, None))))"

definition helmPluginName :: string where
  "helmPluginName = ''helm.kubebuilder.io/v2-alpha''"

text \<open>The type assertions: a map, a string, else not.\<close>

fun as_map :: "'v any option \<Rightarrow> (string \<rightharpoonup> 'v any) option" where
  "as_map (Some (AMap m)) = Some m"
| "as_map _ = None"

fun as_string :: "'v any option \<Rightarrow> string option" where
  "as_string (Some (AString s)) = Some s"
| "as_string _ = None"

definition getOutputDir :: "'v plugin_request \<Rightarrow> string res" where
  "getOutputDir req =
     (case as_map (pr_Config req ''plugins'') of
        None \<Rightarrow> Inl (ErrMsg ''unable to list plugins from request'')
      | Some plugins \<Rightarrow>
     (case as_map (plugins helmPluginName) of
        None \<Rightarrow> Inl (ErrMsg (''unable to read kubebuilder helm config '' @ [CHR 0x27] @ helmPluginName @ [CHR 0x27]))
      | Some config \<Rightarrow>
     (case as_string (config ''output'') of
        None \<Rightarrow> Inl (ErrMsg ''no output dir found in config'')
      | Some outputDir \<Rightarrow>
          if pr_Universe req (path_Join [outputDir, chartPath]) = None
          then Inl (ErrMsg (''did not find chart in universe, make sure to run the '' @ [CHR 0x27] @ helmPluginName
                 @ [CHR 0x27] @ '' plugin before''))
          else Inr outputDir)))"

text \<open>The response of one request.\<close>

definition helm_response ::
  "helm_lib \<Rightarrow> (string \<times> replacement list) list \<Rightarrow> (string \<times> textPadding) list \<Rightarrow> 'v plugin_request
     \<Rightarrow> plugin_response" where
  "helm_response H rs ps req =
     (let (response, err) =
        (if pr_Command req \<in> {''init'', ''flags'', ''metadata''} then (empty_response req, None)
         else if pr_Command req = ''edit'' then
           (case getOutputDir req of
              Inl err \<Rightarrow> (empty_response req, Some err)
            | Inr outputDir \<Rightarrow> patchHelmChart H rs ps outputDir req)
         else (empty_response req, Some (ErrMsg (''unknown command: '' @ pr_Command req))))
      in case err of
           None \<Rightarrow> response
         | Some e \<Rightarrow> response\<lparr>ps_Error := True, ps_ErrorMsgs := [err_text e]\<rparr>)"

text \<open>\<open>main\<close>: the exit code and what is printed; standard input, decoding and encoding may fail.\<close>

definition helm_main ::
  "helm_lib \<Rightarrow> (string \<times> replacement list) list \<Rightarrow> (string \<times> textPadding) list \<Rightarrow> (string \<Rightarrow> 'v plugin_request res)
     \<Rightarrow> (plugin_response \<Rightarrow> string res) \<Rightarrow> string res \<Rightarrow> nat \<times> string" where
  "helm_main H rs ps unmarshal marshal stdin =
     (case stdin of
        Inl err \<Rightarrow> (1, '''')
      | Inr input \<Rightarrow>
     (case unmarshal input of
        Inl err \<Rightarrow> (1, '''')
      | Inr req \<Rightarrow>
     (case marshal (helm_response H rs ps req) of
        Inl err \<Rightarrow> (1, '''')
      | Inr output \<Rightarrow> (0, output))))"

subsection \<open>What a run computes\<close>

text \<open>The patched content of one file, from the file of the request alone.\<close>

definition file_result ::
  "helm_lib \<Rightarrow> 'v plugin_request \<Rightarrow> string \<Rightarrow> string \<times> replacement list \<Rightarrow> string res" where
  "file_result H req dir pr =
     (case pr_Universe req (path_Join [dir, fst pr]) of
        None \<Rightarrow> Inl (ErrMsg (''file does not exist in universe: '' @ path_Join [dir, fst pr]))
      | Some c \<Rightarrow> replace_file H (snd pr) c)"

definition good_table :: "(string \<times> 'b) list \<Rightarrow> bool" where
  "good_table L \<longleftrightarrow> distinct (map fst L) \<and> list_all (\<lambda>pr. plain_name (fst pr)) L"

lemma good_table_Cons:
  assumes "good_table (pr # L)"
  shows "good_table L" "q \<in> set L \<Longrightarrow> path_Join [dir, fst q] \<noteq> path_Join [dir, fst pr]"
proof -
  show "good_table L" using assms by (simp add: good_table_def)
  show "path_Join [dir, fst q] \<noteq> path_Join [dir, fst pr]" if "q \<in> set L"
  proof
    assume "path_Join [dir, fst q] = path_Join [dir, fst pr]"
    then have "fst q = fst pr"
      using Join_inj [of "fst q" "fst pr" dir] assms that by (simp add: good_table_def list_all_iff)
    moreover have "fst pr \<notin> fst ` set L" using assms by (simp add: good_table_def)
    ultimately show False using that by (metis image_eqI)
  qed
qed

text \<open>A response after files were put: the keys that were, the others as before, the other fields too.\<close>

definition files_put ::
  "string \<Rightarrow> (string \<times> 'b) list \<Rightarrow> (string \<times> 'b \<Rightarrow> string) \<Rightarrow> plugin_response \<Rightarrow> plugin_response \<Rightarrow> bool" where
  "files_put dir L content resp resp' \<longleftrightarrow>
     (\<forall>pr \<in> set L. ps_Universe resp' (path_Join [dir, fst pr]) = Some (content pr))
   \<and> (\<forall>f. f \<notin> (\<lambda>pr. path_Join [dir, fst pr]) ` set L \<longrightarrow> ps_Universe resp' f = ps_Universe resp f)
   \<and> resp' = resp\<lparr>ps_Universe := ps_Universe resp'\<rparr>"

lemma files_put_Cons:
  assumes "good_table (pr # L)"
    and "files_put dir L content (put_file (path_Join [dir, fst pr]) (content pr) resp) resp'"
  shows "files_put dir (pr # L) content resp resp'"
proof -
  have "path_Join [dir, fst pr] \<notin> (\<lambda>pr. path_Join [dir, fst pr]) ` set L"
    using good_table_Cons(2) [OF assms(1), of _ dir] by (metis (no_types, lifting) imageE)
  with assms(2) show ?thesis by (auto simp: files_put_def put_file_def)
qed

lemma applyReplacements_result:
  assumes "good_table L" "\<forall>pr \<in> set L. ps_Universe resp (path_Join [dir, fst pr]) = None"
    and "applyReplacements H dir L req resp = (err, resp')"
  shows "(err = None \<longrightarrow> (\<forall>pr \<in> set L. \<exists>d. file_result H req dir pr = Inr d)
            \<and> files_put dir L (\<lambda>pr. projr (file_result H req dir pr)) resp resp')
       \<and> (\<forall>e. err = Some e \<longrightarrow> (\<exists>pr \<in> set L. file_result H req dir pr = Inl e))"
  using assms
proof (induction L arbitrary: resp)
  case Nil
  then show ?case by (simp add: files_put_def)
next
  case (Cons pr L)
  obtain p rs where pr: "pr = (p, rs)" by force
  let ?f = "path_Join [dir, p]"
  have g: "getFileContents ?f req resp = (case pr_Universe req ?f of
      Some c \<Rightarrow> Inr c | None \<Rightarrow> Inl (ErrMsg (''file does not exist in universe: '' @ ?f)))"
    using Cons.prems(2) pr by (simp add: getFileContents_def)
  show ?case
  proof (cases "file_result H req dir pr")
    case (Inl e)
    with Cons.prems(3) g pr have "err = Some e"
      by (auto simp: file_result_def Let_def split: option.splits)
    with Inl show ?thesis by auto
  next
    case (Inr d)
    with Cons.prems(3) g pr
    have step: "applyReplacements H dir L req (put_file ?f d resp) = (err, resp')"
      by (auto simp: file_result_def Let_def split: option.splits)
    have "\<forall>q \<in> set L. ps_Universe (put_file ?f d resp) (path_Join [dir, fst q]) = None"
      using Cons.prems(2) good_table_Cons(2) [OF Cons.prems(1), of _ dir] pr by (simp add: put_file_def)
    from Cons.IH [OF good_table_Cons(1) [OF Cons.prems(1)] this step]
      files_put_Cons [OF Cons.prems(1), of dir "\<lambda>pr. projr (file_result H req dir pr)" resp resp'] Inr pr
    show ?thesis by auto
  qed
qed

lemma applyPaddings_result:
  assumes "good_table L" "\<forall>pr \<in> set L. ps_Universe resp (path_Join [dir, fst pr]) = Some (content (fst pr))"
  shows "\<exists>resp'. applyPaddings dir L req resp = (None, resp')
    \<and> files_put dir L (\<lambda>pr. padding_apply (snd pr) (content (fst pr))) resp resp'"
  using assms
proof (induction L arbitrary: resp)
  case Nil
  then show ?case by (simp add: files_put_def)
next
  case (Cons pr L)
  obtain p t where pr: "pr = (p, t)" by force
  let ?f = "path_Join [dir, p]" and ?d = "padding_apply t (content p)"
  have "getFileContents ?f req resp = Inr (content p)"
    using Cons.prems(2) pr by (simp add: getFileContents_def)
  then have step: "applyPaddings dir (pr # L) req resp = applyPaddings dir L req (put_file ?f ?d resp)"
    by (simp add: pr Let_def)
  have "\<forall>q \<in> set L. ps_Universe (put_file ?f ?d resp) (path_Join [dir, fst q]) = Some (content (fst q))"
    using Cons.prems(2) good_table_Cons(2) [OF Cons.prems(1), of _ dir] pr by (simp add: put_file_def)
  from Cons.IH [OF good_table_Cons(1) [OF Cons.prems(1)] this] step
    files_put_Cons [OF Cons.prems(1), of dir "\<lambda>pr. padding_apply (snd pr) (content (fst pr))" resp] pr
  show ?case by auto
qed

lemma good_replacements: "good_table replacements"
  by (simp add: good_table_def replacements_def managerPath_def downloaderPath_def uploaderPath_def
      reportServicePath_def controllerServiceAccountPath_def plain_name_def plain_def)

lemma paddings_keys: "mset (map fst paddings) = mset (map fst replacements)"
  by (simp add: paddings_def replacements_def)

lemma paddings_padding: "pt \<in> set paddings \<Longrightarrow> snd pt = values_padding"
  by (auto simp: paddings_def)

lemma good_table_mset:
  assumes "good_table L" "mset (map fst L') = mset (map fst L)"
  shows "good_table L'"
proof -
  from assms(2) have "fst ` set L' = fst ` set L" by (metis image_set set_mset_mset)
  then have "\<forall>pr \<in> set L'. plain_name (fst pr)"
    using assms(1) by (auto simp: good_table_def list_all_iff) (metis fst_conv image_iff)
  moreover have "distinct (map fst L')"
    using assms(1) mset_eq_imp_distinct_iff [OF assms(2)] by (simp add: good_table_def)
  ultimately show ?thesis by (simp add: good_table_def list_all_iff)
qed

lemma put_twice:
  "r1 = r0\<lparr>ps_Universe := a\<rparr> \<Longrightarrow> r2 = r1\<lparr>ps_Universe := b\<rparr> \<Longrightarrow> r2 = r0\<lparr>ps_Universe := b\<rparr>"
  by simp

text \<open>Files put twice over the same keys hold what was put last; here, the padded result.\<close>

lemma files_put_twice:
  assumes put1: "files_put dir rs d resp resp1" and put2: "files_put dir ps (\<lambda>pt. g (fst pt)) resp1 resp2"
    and keys: "fst ` set ps = fst ` set rs" and g: "\<And>pr. pr \<in> set rs \<Longrightarrow> g (fst pr) = h pr"
  shows "files_put dir rs h resp resp2"
proof -
  have joined: "(\<lambda>pt. path_Join [dir, fst pt]) ` set ps = (\<lambda>pr. path_Join [dir, fst pr]) ` set rs"
    using keys by (simp flip: image_image [of "\<lambda>p. path_Join [dir, p]" fst])
  show ?thesis
    unfolding files_put_def
  proof (intro conjI ballI allI impI)
    fix pr assume pr: "pr \<in> set rs"
    then obtain pt where pt: "pt \<in> set ps" "fst pt = fst pr" using keys by (metis imageE image_eqI)
    from put2 pt(1) have "ps_Universe resp2 (path_Join [dir, fst pt]) = Some (g (fst pt))"
      unfolding files_put_def by blast
    with pt g [OF pr] show "ps_Universe resp2 (path_Join [dir, fst pr]) = Some (h pr)" by simp
  next
    fix f assume f: "f \<notin> (\<lambda>pr. path_Join [dir, fst pr]) ` set rs"
    then have "f \<notin> (\<lambda>pr. path_Join [dir, fst pr]) ` set ps" using joined by simp
    with f put1 put2 show "ps_Universe resp2 f = ps_Universe resp f" by (simp add: files_put_def)
  next
    have "resp1 = resp\<lparr>ps_Universe := ps_Universe resp1\<rparr>" "resp2 = resp1\<lparr>ps_Universe := ps_Universe resp2\<rparr>"
      using put1 put2 unfolding files_put_def by blast+
    then show "resp2 = resp\<lparr>ps_Universe := ps_Universe resp2\<rparr>" by (rule put_twice)
  qed
qed

lemma files_put_set: "set L = set L' \<Longrightarrow> files_put dir L d resp resp' = files_put dir L' d resp resp'"
  by (simp add: files_put_def)

text \<open>Both passes, for any order of the two tables.\<close>

lemma both_passes:
  assumes "mset rs = mset replacements" "mset ps = mset paddings"
    and "applyReplacements H dir rs req (empty_response req) = (None, resp1)"
  shows "(\<forall>pr \<in> set replacements. \<exists>d. file_result H req dir pr = Inr d)
     \<and> (\<exists>resp2. applyPaddings dir ps req resp1 = (None, resp2)
          \<and> files_put dir replacements (\<lambda>pr. padding_apply values_padding (projr (file_result H req dir pr)))
              (empty_response req) resp2)"
proof -
  have gr: "good_table rs" by (rule good_table_mset [OF good_replacements]) (simp add: assms(1))
  have gp: "good_table ps"
    by (rule good_table_mset [OF good_replacements]) (metis assms(2) mset_map paddings_keys)
  have sr: "set rs = set replacements" using assms(1) by (rule mset_eq_setD)
  have sp: "set ps = set paddings" using assms(2) by (rule mset_eq_setD)
  have "fst ` set paddings = fst ` set replacements" using paddings_keys by (metis image_set set_mset_mset)
  then have keys: "fst ` set ps = fst ` set rs" using sr sp by simp
  from applyReplacements_result [OF gr _ assms(3)] sr
  have ok: "\<forall>pr \<in> set replacements. \<exists>d. file_result H req dir pr = Inr d"
    and put1: "files_put dir rs (\<lambda>pr. projr (file_result H req dir pr)) (empty_response req) resp1"
    by (simp_all add: empty_response_def)
  define content where "content p = the (ps_Universe resp1 (path_Join [dir, p]))" for p
  have c: "content (fst pr) = projr (file_result H req dir pr)" if "pr \<in> set rs" for pr
    using put1 that by (simp add: files_put_def content_def)
  have "\<exists>pr \<in> set rs. fst pr = fst pt" if "pt \<in> set ps" for pt
    using that keys by (metis imageE image_eqI)
  then have "\<forall>pt \<in> set ps. ps_Universe resp1 (path_Join [dir, fst pt]) = Some (content (fst pt))"
    using put1 unfolding files_put_def content_def by (metis option.sel)
  from applyPaddings_result [where content = content, OF gp this, of req] obtain resp2 where
    p: "applyPaddings dir ps req resp1 = (None, resp2)"
    and "files_put dir ps (\<lambda>pr. padding_apply (snd pr) (content (fst pr))) resp1 resp2" by blast
  then have put2: "files_put dir ps (\<lambda>pr. padding_apply values_padding (content (fst pr))) resp1 resp2"
    using paddings_padding sp by (simp add: files_put_def)
  from files_put_twice [OF put1 put2 keys, where h = "\<lambda>pr. padding_apply values_padding (projr (file_result H req dir pr))"] c
  have "files_put dir rs (\<lambda>pr. padding_apply values_padding (projr (file_result H req dir pr))) (empty_response req) resp2"
    by simp
  with ok p files_put_set [OF sr] show ?thesis by blast
qed

lemma patch_result:
  assumes "mset rs = mset replacements" "mset ps = mset paddings"
    and "patchHelmChart H rs ps dir req = (resp, err)"
  shows "(\<forall>e. err = Some e \<longrightarrow> (\<exists>pr \<in> set replacements. file_result H req dir pr = Inl e)
             \<or> templateContent H ''Chart.yaml'' (hl_chartTmpl H) (chart_values H) = Inl e)
     \<and> (err = None \<longrightarrow> (\<exists>resp2 chart.
          (\<forall>pr \<in> set replacements. \<exists>d. file_result H req dir pr = Inr d)
        \<and> templateContent H ''Chart.yaml'' (hl_chartTmpl H) (chart_values H) = Inr chart
        \<and> files_put dir replacements (\<lambda>pr. padding_apply values_padding (projr (file_result H req dir pr)))
            (empty_response req) resp2
        \<and> resp = put_file (path_Join [dir, chartPath]) chart resp2))"
proof -
  have gr: "good_table rs" by (rule good_table_mset [OF good_replacements]) (simp add: assms(1))
  have sr: "set rs = set replacements" using assms(1) by (rule mset_eq_setD)
  obtain e1 resp1 where r: "applyReplacements H dir rs req (empty_response req) = (e1, resp1)" by force
  show ?thesis
  proof (cases e1)
    case (Some e)
    with assms(3) r have "err = Some e" by (simp add: patchHelmChart_def)
    with applyReplacements_result [OF gr _ r] Some sr show ?thesis by (simp add: empty_response_def)
  next
    case None
    from both_passes [OF assms(1,2) r [unfolded None]] obtain resp2 where
      p: "applyPaddings dir ps req resp1 = (None, resp2)"
      and ok: "\<forall>pr \<in> set replacements. \<exists>d. file_result H req dir pr = Inr d"
        "files_put dir replacements (\<lambda>pr. padding_apply values_padding (projr (file_result H req dir pr)))
          (empty_response req) resp2" by blast
    have final: "(case templateContent H ''Chart.yaml'' (hl_chartTmpl H) (chart_values H) of
        Inl err \<Rightarrow> (resp2, Some err)
      | Inr chart \<Rightarrow> (put_file (path_Join [dir, chartPath]) chart resp2, None)) = (resp, err)"
      using assms(3) r None p by (simp add: patchHelmChart_def)
    show ?thesis
    proof (cases "templateContent H ''Chart.yaml'' (hl_chartTmpl H) (chart_values H)")
      case (Inl e)
      with final show ?thesis by auto
    next
      case (Inr chart)
      with final ok show ?thesis by auto
    qed
  qed
qed

lemma files_put_map:
  assumes "files_put dir L d resp resp'" "ps_Universe resp = Map.empty"
  shows "ps_Universe resp' = map_of (map (\<lambda>pr. (path_Join [dir, fst pr], d pr)) L)"
proof
  fix f
  let ?m = "map (\<lambda>pr. (path_Join [dir, fst pr], d pr)) L"
  show "ps_Universe resp' f = map_of ?m f"
  proof (cases "map_of ?m f")
    case None
    then have "f \<notin> (\<lambda>pr. path_Join [dir, fst pr]) ` set L" by (simp add: map_of_eq_None_iff image_image)
    with assms None show ?thesis by (simp add: files_put_def)
  next
    case (Some v)
    from map_of_SomeD [OF this] obtain pr where "pr \<in> set L" "f = path_Join [dir, fst pr]" "v = d pr" by auto
    with assms(1) Some show ?thesis by (simp add: files_put_def)
  qed
qed

subsection \<open>Replacing a text\<close>

text \<open>
  After every occurrence of \<open>lit\<close> is replaced there is none left, when the replacement begins with a character
  that \<open>lit\<close> does not have, and does not have the character \<open>lit\<close> begins with.
\<close>

lemma HasPrefix_Nil [simp]: "HasPrefix s []"
  by (simp add: HasPrefix_def)

lemma HasPrefix_Cons: "HasPrefix s (c # p) \<longleftrightarrow> (\<exists>t. s = c # t \<and> HasPrefix t p)"
  by (cases s) (auto simp: HasPrefix_def)

lemma replace_text_prefix:
  assumes "q \<notin> set w" "HasPrefix (replace_text lit (q # qs) s) w"
  shows "HasPrefix s w"
  using assms
proof (induction w arbitrary: s)
  case Nil
  then show ?case by simp
next
  case (Cons c w)
  show ?case
  proof (cases s)
    case Nil
    with Cons.prems show ?thesis by simp
  next
    case s: (Cons d t)
    show ?thesis
    proof (cases "lit \<noteq> [] \<and> HasPrefix s lit")
      case True
      with Cons.prems s have "q = c" by (simp add: HasPrefix_Cons)
      with Cons.prems show ?thesis by simp
    next
      case False
      with Cons.prems s have "d = c" "HasPrefix (replace_text lit (q # qs) t) w"
        by (auto simp: HasPrefix_Cons)
      with Cons.IH [of t] Cons.prems s show ?thesis by (auto simp: HasPrefix_Cons)
    qed
  qed
qed

lemma contains_append_free:
  assumes "c \<notin> set u" "contains (u @ s) (c # lit)"
  shows "contains s (c # lit)"
  using assms by (induction u) (auto simp: HasPrefix_Cons)

lemma replace_text_none_left:
  assumes "q \<notin> set (c # lit)" "c \<notin> set (q # qs)"
  shows "\<not> contains (replace_text (c # lit) (q # qs) s) (c # lit)"
proof (induction "c # lit" "q # qs" s rule: replace_text.induct)
  case 1
  then show ?case by simp
next
  case (2 d s)
  show ?case
  proof (cases "HasPrefix (d # s) (c # lit)")
    case True
    then have "replace_text (c # lit) (q # qs) (d # s)
        = (q # qs) @ replace_text (c # lit) (q # qs) (drop (length (c # lit)) (d # s))" by simp
    with 2(1) True contains_append_free [of c "q # qs"] assms(2) show ?thesis
      by (metis list.distinct(1))
  next
    case False
    then have r: "replace_text (c # lit) (q # qs) (d # s) = d # replace_text (c # lit) (q # qs) s" by simp
    moreover from 2(2) False have "\<not> contains (replace_text (c # lit) (q # qs) s) (c # lit)" by simp
    moreover have "\<not> HasPrefix (replace_text (c # lit) (q # qs) (d # s)) (c # lit)"
      using replace_text_prefix [OF assms(1)] False by blast
    ultimately show ?thesis by simp
  qed
qed

lemma values_replaced:
  "\<not> contains (ReplaceAllString (Pattern values_replacement) s (Replacement values_replacement)) values_text"
  using replace_text_none_left [of dollar "CHR ''.''" "''Values''" "''values''" s]
  by (simp add: ReplaceAllString_def values_replacement_def values_text_def dollar_def HasPrefix_def)

lemma replace_file_last:
  assumes "replace_file H (rs @ [values_replacement]) c = Inr d"
  shows "\<not> contains d values_text"
  using assms
proof (induction rs arbitrary: c)
  case Nil
  then show ?case using values_replaced
    by (auto simp: replacement_apply_def split: if_splits)
next
  case (Cons r rs)
  then show ?case by (auto simp: replacement_apply_def split: if_splits)
qed

lemma replacements_last: "pr \<in> set replacements \<Longrightarrow> \<exists>rs. snd pr = rs @ [values_replacement]"
  unfolding replacements_def by (auto intro: exI [of _ "butlast (snd pr)"])

lemma applyReplacements_frame:
  "snd (applyReplacements H dir L req resp) = resp\<lparr>ps_Universe := ps_Universe (snd (applyReplacements H dir L req resp))\<rparr>"
proof (induction L arbitrary: resp)
  case Nil
  then show ?case by simp
next
  case (Cons pr L)
  obtain p rs where "pr = (p, rs)" by force
  then show ?case
    using put_twice [OF _ Cons.IH] by (auto simp: Let_def put_file_def split: sum.split)
qed

lemma applyPaddings_frame:
  "snd (applyPaddings dir L req resp) = resp\<lparr>ps_Universe := ps_Universe (snd (applyPaddings dir L req resp))\<rparr>"
proof (induction L arbitrary: resp)
  case Nil
  then show ?case by simp
next
  case (Cons pr L)
  obtain p t where "pr = (p, t)" by force
  then show ?case
    using put_twice [OF _ Cons.IH] by (auto simp: Let_def put_file_def split: sum.split)
qed

lemma patch_frame:
  "\<exists>u. fst (patchHelmChart H rs ps dir req) = (empty_response req)\<lparr>ps_Universe := u\<rparr>"
proof -
  obtain e1 r1 where r: "applyReplacements H dir rs req (empty_response req) = (e1, r1)" by force
  obtain e2 r2 where p: "applyPaddings dir ps req r1 = (e2, r2)" by force
  have f: "r1 = (empty_response req)\<lparr>ps_Universe := ps_Universe r1\<rparr>"
    using applyReplacements_frame [of H dir rs req "empty_response req"] r by simp
  have "r2 = r1\<lparr>ps_Universe := ps_Universe r2\<rparr>" using applyPaddings_frame [of dir ps req r1] p by simp
  with f have g: "r2 = (empty_response req)\<lparr>ps_Universe := ps_Universe r2\<rparr>" by (rule put_twice)
  show ?thesis
  proof (cases e1)
    case (Some e)
    with r f show ?thesis by (auto simp: patchHelmChart_def)
  next
    case n1: None
    show ?thesis
    proof (cases e2)
      case (Some e)
      with r p n1 g show ?thesis by (auto simp: patchHelmChart_def)
    next
      case None
      show ?thesis
      proof (cases "templateContent H ''Chart.yaml'' (hl_chartTmpl H) (chart_values H)")
        case (Inl e)
        with r p n1 None g show ?thesis by (auto simp: patchHelmChart_def)
      next
        case (Inr c)
        then have "fst (patchHelmChart H rs ps dir req) = put_file (path_Join [dir, chartPath]) c r2"
          using r p n1 None by (simp add: patchHelmChart_def)
        with g show ?thesis by (metis put_file_def put_twice)
      qed
    qed
  qed
qed

subsection \<open>Charts that are patched\<close>

text \<open>
  A line that a replacement does not match is still a line afterwards. So a file is replaced without an
  error when it has a line for each pattern, which no earlier pattern matches.
\<close>

lemma split_join_concat: "ws \<noteq> [] \<Longrightarrow> split_on d (join_with d ws) = concat (map (split_on d) ws)"
  by (induction d ws rule: join_with.induct) (simp_all add: split_on_append)

lemma line_kept:
  assumes "rx_form r = IndentedLine lit eol" "l \<in> set (split_on newline s)" "match_line lit l = None"
  shows "l \<in> set (split_on newline (ReplaceAllString r s t))"
proof -
  have "split_on newline l = [l]" using split_on_parts [OF assms(2)] by (rule split_on_free)
  with assms(2,3) show ?thesis
    by (force simp: ReplaceAllString_def assms(1) split_join_concat)
qed

lemma line_within: "l \<in> set (split_on d s) \<Longrightarrow> \<exists>u w. s = u @ l @ w"
proof (induction s arbitrary: l)
  case Nil
  then show ?case by simp
next
  case (Cons c s)
  obtain x xs where x: "split_on d s = x # xs" by (cases "split_on d s") simp_all
  from join_split [of d s] x obtain w where w: "s = x @ w" by (cases xs) auto
  show ?case
  proof (cases "l \<in> set (split_on d s)")
    case True
    then show ?thesis using Cons.IH by (metis append_Cons)
  next
    case False
    with Cons.prems x w have "l = [] \<or> l = c # x" by (auto split: if_splits)
    with w show ?thesis by (metis append_Cons append_Nil)
  qed
qed

lemma contains_mid: "contains l v \<Longrightarrow> contains (u @ l @ w) v"
proof (induction u)
  case Nil
  then show ?case
  proof (induction l)
    case Nil
    then show ?case by (cases w) simp_all
  next
    case (Cons c l)
    have "prefix v (c # l) \<Longrightarrow> prefix v ((c # l) @ w)" by (rule prefix_prefix)
    with Cons show ?case by (auto simp: HasPrefix_prefix)
  qed
next
  case (Cons c u)
  then show ?case by simp
qed

definition lit_of :: "replacement \<Rightarrow> string" where
  "lit_of r = (case rx_form (Pattern r) of IndentedLine lit eol \<Rightarrow> lit | _ \<Rightarrow> [])"

definition anchor :: "replacement \<Rightarrow> string" where
  "anchor r = CHR '' '' # lit_of r"

definition line_pattern :: "replacement \<Rightarrow> bool" where
  "line_pattern r \<longleftrightarrow> (\<exists>lit eol. rx_form (Pattern r) = IndentedLine lit eol)
     \<and> match_line (lit_of r) (anchor r) \<noteq> None"

lemma anchored_step:
  assumes "line_pattern r" "anchor r \<in> set (split_on newline s)"
  shows "replacement_apply H r s = (ReplaceAllString (Pattern r) s (Replacement r), None)"
  using assms by (auto simp: line_pattern_def replacement_apply_def MatchString_def lit_of_def list_ex_iff
      intro!: bexI [where x = "anchor r"])

lemma anchored_file:
  assumes "\<forall>r \<in> set rs. line_pattern r \<and> anchor r \<in> set (split_on newline s)"
    and "sorted_wrt (\<lambda>r r'. match_line (lit_of r) (anchor r') = None) rs"
    and "l \<in> set (split_on newline s)" "contains l values_text" "\<forall>r \<in> set rs. match_line (lit_of r) l = None"
  shows "\<exists>d. replace_file H (rs @ [values_replacement]) s = Inr d"
  using assms(1,2,3,5)
proof (induction rs arbitrary: s)
  case Nil
  from line_within [OF Nil.prems(3)] obtain u w where "s = u @ l @ w" by blast
  with assms(4) contains_mid have "contains s values_text" by blast
  then show ?case by (simp add: replacement_apply_def MatchString_def values_replacement_def)
next
  case (Cons r rs)
  let ?s = "ReplaceAllString (Pattern r) s (Replacement r)"
  from Cons.prems(1) obtain lit eol where form: "rx_form (Pattern r) = IndentedLine lit eol" "lit = lit_of r"
    by (auto simp: line_pattern_def lit_of_def)
  have "\<forall>q \<in> set rs. anchor q \<in> set (split_on newline ?s)"
    using Cons.prems(1,2) line_kept [OF form(1)] form(2) by simp
  moreover have "l \<in> set (split_on newline ?s)"
    using Cons.prems(3,4) line_kept [OF form(1)] form(2) by simp
  ultimately have "\<exists>d. replace_file H (rs @ [values_replacement]) ?s = Inr d"
    using Cons.IH [of ?s] Cons.prems by simp
  with anchored_step [of r s H] Cons.prems(1) show ?case by simp
qed

subsection \<open>A reference chart\<close>

definition ref_helm :: helm_lib where
  "ref_helm = \<lparr>hl_quote = (\<lambda>s. [CHR 0x22] @ s @ [CHR 0x22]), hl_parse = (\<lambda>n c. None),
     hl_execute = (\<lambda>n c vs. Inr (c @ (case vs ''AppVersion'' of None \<Rightarrow> [] | Some v \<Rightarrow> v))),
     hl_getenv = (\<lambda>v. ''v1.2''), hl_chartTmpl = ''appVersion: ''\<rparr>"

text \<open>A file with an anchor line for each of the line patterns of its replacements.\<close>

definition demo_file :: "replacement list \<Rightarrow> string" where
  "demo_file rs = join_with newline (''{{ .Values.x }}'' # map anchor rs)"

definition line_patterns :: "replacement list \<Rightarrow> replacement list" where
  "line_patterns rs = filter line_pattern rs"

definition demo_universe :: "string \<rightharpoonup> string" where
  "demo_universe = (map_of (map (\<lambda>pr. (path_Join [''dist'', fst pr], demo_file (line_patterns (snd pr)))) replacements))
     (path_Join [''dist'', chartPath] \<mapsto> ''generated'')"

definition demo_request :: "string plugin_request" where
  "demo_request = \<lparr>pr_APIVersion = ''v1alpha1'', pr_Command = ''edit'', pr_Universe = demo_universe,
     pr_Config = [''plugins'' \<mapsto> AMap [helmPluginName \<mapsto> AMap [''output'' \<mapsto> AString ''dist'']]]\<rparr>"

lemmas table_defs = label_lines_def args_lines_def env_lines_def volume_lines_def at_indent_def whole_line_def
  image_lines_def values_replacement_def

lemmas line_defs = line_pattern_def lit_of_def anchor_def match_line_def HasPrefix_def

lemma line_pattern_kinds [simp]:
  "line_pattern (label_lines ''labels'' x)" "line_pattern (label_lines ''annotations'' x)"
  "line_pattern args_lines" "line_pattern env_lines" "line_pattern (volume_lines ''volumeMounts'' n)"
  "line_pattern (volume_lines ''volumes'' n)" "line_pattern (whole_line ''image:'' t)"
  "line_pattern (whole_line ''imagePullPolicy:'' t)" "line_pattern (whole_line ''port:'' t)"
  "line_pattern (whole_line ''targetPort:'' t)" "\<not> line_pattern values_replacement"
  by (simp_all add: table_defs line_defs Let_def) auto

lemma lits [simp]:
  "lit_of (label_lines k x) = k @ '':''" "lit_of args_lines = ''- args:''" "lit_of env_lines = ''env: []''"
  "lit_of (volume_lines k n) = k @ '':''" "lit_of (whole_line k t) = k"
  by (simp_all add: table_defs lit_of_def)

lemma newline_free_values: "newline \<notin> set ''{{ .Values.x }}''"
  by simp

lemma lines_demo: "newline \<notin> set (concat (map anchor rs)) \<Longrightarrow>
  split_on newline (demo_file rs) = ''{{ .Values.x }}'' # map anchor rs"
  unfolding demo_file_def by (rule split_join) (auto simp: newline_free_values)

definition distinct_anchors :: "replacement list \<Rightarrow> bool" where
  "distinct_anchors rs \<longleftrightarrow> list_all line_pattern rs
     \<and> sorted_wrt (\<lambda>r r'. match_line (lit_of r) (anchor r') = None) rs
     \<and> list_all (\<lambda>r. newline \<notin> set (anchor r) \<and> match_line (lit_of r) ''{{ .Values.x }}'' = None) rs"

lemma demo_file_ok:
  assumes "distinct_anchors rs" "split_on newline s = xs @ split_on newline (demo_file rs) @ ys"
  shows "\<exists>d. replace_file H (rs @ [values_replacement]) s = Inr d"
proof (rule anchored_file)
  have l: "split_on newline (demo_file rs) = ''{{ .Values.x }}'' # map anchor rs"
    using assms(1) by (intro lines_demo) (simp add: distinct_anchors_def list_all_iff)
  show "\<forall>r \<in> set rs. line_pattern r \<and> anchor r \<in> set (split_on newline s)"
    using assms l by (simp add: distinct_anchors_def list_all_iff)
  show "''{{ .Values.x }}'' \<in> set (split_on newline s)" using assms(2) l by simp
  show "sorted_wrt (\<lambda>r r'. match_line (lit_of r) (anchor r') = None) rs"
    "\<forall>r \<in> set rs. match_line (lit_of r) ''{{ .Values.x }}'' = None"
    using assms(1) by (simp_all add: distinct_anchors_def list_all_iff)
  show "contains ''{{ .Values.x }}'' values_text" by (simp add: values_text_def HasPrefix_def)
qed

lemma demo_patterns:
  "distinct_anchors [label_lines ''labels'' x, label_lines ''annotations'' y, args_lines, env_lines,
     volume_lines ''volumeMounts'' m, volume_lines ''volumes'' n]"
  "distinct_anchors [whole_line ''image:'' t, whole_line ''imagePullPolicy:'' u]"
  "distinct_anchors [whole_line ''port:'' t, whole_line ''targetPort:'' u]"
  "distinct_anchors [label_lines ''labels'' x, label_lines ''annotations'' y]"
  by (simp_all add: distinct_anchors_def anchor_def match_line_def HasPrefix_def Let_def)

lemma demo_paths:
  "path_Join [''dist'', managerPath] = ''dist/chart/templates/manager/manager.yaml''"
  "path_Join [''dist'', downloaderPath] = ''dist/chart/templates/extras/chalkmark-extract.yaml''"
  "path_Join [''dist'', uploaderPath] = ''dist/chart/templates/extras/results.yaml''"
  "path_Join [''dist'', reportServicePath] = ''dist/chart/templates/extras/report-http.yaml''"
  "path_Join [''dist'', controllerServiceAccountPath] = ''dist/chart/templates/rbac/controller-manager.yaml''"
  "path_Join [''dist'', chartPath] = ''dist/chart/Chart.yaml''"
  by (simp_all add: path_Join_def Clean_def comps_def push_comp_def rooted_path_def HasPrefix_def managerPath_def
      downloaderPath_def uploaderPath_def reportServicePath_def controllerServiceAccountPath_def chartPath_def)

lemma demo_contents:
  "pr_Universe demo_request (path_Join [''dist'', managerPath]) = Some (demo_file
     [label_lines ''labels'' ''.Values.manager.labels'', label_lines ''annotations'' ''.Values.manager.annotations'',
      args_lines, env_lines, volume_lines ''volumeMounts'' ''8'', volume_lines ''volumes'' ''6''])"
  "pr_Universe demo_request (path_Join [''dist'', downloaderPath]) = Some (demo_file (image_lines ''downloader''))"
  "pr_Universe demo_request (path_Join [''dist'', uploaderPath]) = Some (demo_file (image_lines ''uploader''))"
  "pr_Universe demo_request (path_Join [''dist'', reportServicePath]) = Some (demo_file
     [whole_line ''port:'' ''${1}port: {{ .Values.intake.http.port }}'',
      whole_line ''targetPort:'' ''${1}targetPort: {{ .Values.intake.http.port }}''])"
  "pr_Universe demo_request (path_Join [''dist'', controllerServiceAccountPath]) = Some (demo_file
     [label_lines ''labels'' ''.Values.manager.serviceaccount.labels'',
      label_lines ''annotations'' ''.Values.manager.serviceaccount.annotations''])"
proof -
  have n: "\<not> line_pattern \<lparr>Pattern = \<lparr>rx_source = x, rx_form = TextStart\<rparr>, Replacement = y\<rparr>"
    "\<not> line_pattern \<lparr>Pattern = \<lparr>rx_source = x, rx_form = TextEnd\<rparr>, Replacement = y\<rparr>" for x y
    by (simp_all add: line_pattern_def)
  have i: "line_patterns (image_lines w @ [values_replacement]) = image_lines w" for w
    by (simp add: line_patterns_def image_lines_def)
  note d = demo_request_def demo_universe_def demo_paths replacements_def
  show "pr_Universe demo_request (path_Join [''dist'', managerPath]) = Some (demo_file
     [label_lines ''labels'' ''.Values.manager.labels'', label_lines ''annotations'' ''.Values.manager.annotations'',
      args_lines, env_lines, volume_lines ''volumeMounts'' ''8'', volume_lines ''volumes'' ''6''])"
    by (simp add: d line_patterns_def)
  show "pr_Universe demo_request (path_Join [''dist'', downloaderPath]) = Some (demo_file (image_lines ''downloader''))"
    "pr_Universe demo_request (path_Join [''dist'', uploaderPath]) = Some (demo_file (image_lines ''uploader''))"
    by (simp_all add: d i)
  show "pr_Universe demo_request (path_Join [''dist'', reportServicePath]) = Some (demo_file
     [whole_line ''port:'' ''${1}port: {{ .Values.intake.http.port }}'',
      whole_line ''targetPort:'' ''${1}targetPort: {{ .Values.intake.http.port }}''])"
    "pr_Universe demo_request (path_Join [''dist'', controllerServiceAccountPath]) = Some (demo_file
     [label_lines ''labels'' ''.Values.manager.serviceaccount.labels'',
      label_lines ''annotations'' ''.Values.manager.serviceaccount.annotations''])"
    by (simp_all add: d line_patterns_def n)
qed

lemma wrapped_file:
  assumes "distinct_anchors rs"
  shows "\<exists>d. replace_file H
     (\<lparr>Pattern = \<lparr>rx_source = ''^'', rx_form = TextStart\<rparr>,
       Replacement = ''{{- if .Values.intake.http.enable }}'' @ [newline]\<rparr>
      # \<lparr>Pattern = \<lparr>rx_source = ''$'', rx_form = TextEnd\<rparr>, Replacement = newline # ''{{- end}}''\<rparr>
      # rs @ [values_replacement]) (demo_file rs) = Inr d"
proof -
  let ?a = "''{{- if .Values.intake.http.enable }}''" and ?b = "''{{- end}}''"
  let ?s = "?a @ newline # (demo_file rs @ newline # ?b)"
  have "expand (?a @ [newline]) [] = ?a @ [newline]" "expand (newline # ?b) [] = newline # ?b"
    by (simp_all add: dollar_def)
  then have "replace_file H
     (\<lparr>Pattern = \<lparr>rx_source = ''^'', rx_form = TextStart\<rparr>, Replacement = ?a @ [newline]\<rparr>
      # \<lparr>Pattern = \<lparr>rx_source = ''$'', rx_form = TextEnd\<rparr>, Replacement = newline # ?b\<rparr>
      # rs @ [values_replacement]) (demo_file rs) = replace_file H (rs @ [values_replacement]) ?s"
    by (simp add: replacement_apply_def MatchString_def ReplaceAllString_def del: expand.simps)
  moreover have "split_on newline ?s = split_on newline ?a @ split_on newline (demo_file rs) @ split_on newline ?b"
    by (simp only: split_on_append)
  ultimately show ?thesis using demo_file_ok [OF assms] by metis
qed

lemma demo_chart_ok: "\<forall>pr \<in> set replacements. \<exists>d. file_result ref_helm demo_request ''dist'' pr = Inr d"
proof -
  have f: "\<exists>d. replace_file H (rs @ [values_replacement]) (demo_file rs) = Inr d" if "distinct_anchors rs" for H rs
    using demo_file_ok [OF that, of "demo_file rs" "[]" "[]"] by simp
  note m = f [OF demo_patterns(1), simplified append_Cons append_Nil]
  have i: "\<exists>d. replace_file H (image_lines w @ [values_replacement]) (demo_file (image_lines w)) = Inr d" for H w
    by (rule f) (unfold image_lines_def, rule demo_patterns(2))
  note a = f [OF demo_patterns(4), simplified append_Cons append_Nil]
  note r = wrapped_file [OF demo_patterns(3), simplified append_Cons append_Nil]
  show ?thesis
    using m i a r
    by (simp add: replacements_def file_result_def demo_contents del: replace_file.simps)
qed

subsection \<open>Properties of the patcher\<close>

text \<open>
  C18. The order in which Go iterates over its maps does not matter: whatever the two orders, the patch
  succeeds exactly when every file of the table is in the request and all its patterns match in turn and
  the chart's template can be filled, and then the answer holds each of these files, replaced and then
  padded, the filled \<^verbatim>\<open>Chart.yaml\<close>, and nothing else. An error is that of a file or of the template.
\<close>

theorem patch_independent_of_map_order:
  assumes "mset rs = mset replacements" "mset ps = mset paddings"
    and "patchHelmChart H rs ps dir req = (resp, err)"
  shows "(err = None \<longleftrightarrow> (\<forall>pr \<in> set replacements. \<exists>d. file_result H req dir pr = Inr d)
            \<and> (\<exists>c. templateContent H ''Chart.yaml'' (hl_chartTmpl H) (chart_values H) = Inr c))
     \<and> (err = None \<longrightarrow> ps_Universe resp =
          (map_of (map (\<lambda>pr. (path_Join [dir, fst pr],
                              padding_apply values_padding (projr (file_result H req dir pr)))) replacements))
          (path_Join [dir, chartPath] \<mapsto>
             projr (templateContent H ''Chart.yaml'' (hl_chartTmpl H) (chart_values H))))
     \<and> (\<forall>e. err = Some e \<longrightarrow> (\<exists>pr \<in> set replacements. file_result H req dir pr = Inl e)
          \<or> templateContent H ''Chart.yaml'' (hl_chartTmpl H) (chart_values H) = Inl e)"
proof (cases err)
  case (Some e)
  with patch_result [OF assms] have
    "(\<exists>pr \<in> set replacements. file_result H req dir pr = Inl e)
       \<or> templateContent H ''Chart.yaml'' (hl_chartTmpl H) (chart_values H) = Inl e" by blast
  with Some show ?thesis by fastforce
next
  case None
  with patch_result [OF assms] obtain resp2 chart where
    ok: "\<forall>pr \<in> set replacements. \<exists>d. file_result H req dir pr = Inr d"
      "templateContent H ''Chart.yaml'' (hl_chartTmpl H) (chart_values H) = Inr chart"
    and put: "files_put dir replacements (\<lambda>pr. padding_apply values_padding (projr (file_result H req dir pr)))
        (empty_response req) resp2"
    and r: "resp = put_file (path_Join [dir, chartPath]) chart resp2" by blast
  have "ps_Universe resp2 = map_of (map (\<lambda>pr. (path_Join [dir, fst pr],
      padding_apply values_padding (projr (file_result H req dir pr)))) replacements)"
    by (rule files_put_map [OF put]) (simp add: empty_response_def)
  with None ok r show ?thesis by (simp add: put_file_def)
qed

theorem patch_independent_of_map_order_witness:
  "\<exists>resp. patchHelmChart ref_helm (rev replacements) paddings ''dist'' demo_request = (resp, None)
     \<and> ps_Universe resp ''dist/chart/Chart.yaml'' = Some ''appVersion: 1.2''
     \<and> ps_Universe resp ''dist/chart/values.yaml'' = None"
proof -
  obtain resp err where r: "patchHelmChart ref_helm (rev replacements) paddings ''dist'' demo_request = (resp, err)"
    by force
  have t: "templateContent ref_helm ''Chart.yaml'' (hl_chartTmpl ref_helm) (chart_values ref_helm) = Inr ''appVersion: 1.2''"
    by (simp add: templateContent_def ref_helm_def chart_values_def TrimLeft_def)
  note p = patch_independent_of_map_order [OF _ refl r, simplified mset_rev, OF refl]
  have e: "err = None" using conjunct1 [OF p] demo_chart_ok t by blast
  from conjunct1 [OF conjunct2 [OF p]] e
  have u: "ps_Universe resp = (map_of (map (\<lambda>pr. (path_Join [''dist'', fst pr],
        padding_apply values_padding (projr (file_result ref_helm demo_request ''dist'' pr)))) replacements))
      (path_Join [''dist'', chartPath] \<mapsto> ''appVersion: 1.2'')"
    using t by simp
  then have "ps_Universe resp ''dist/chart/Chart.yaml'' = Some ''appVersion: 1.2''"
    "ps_Universe resp ''dist/chart/values.yaml'' = None"
    by (simp_all add: demo_paths replacements_def)
  with r e show ?thesis by blast
qed

text \<open>
  C38. After a successful patch no file refers to \<^verbatim>\<open>.Values\<close> any more, the preamble apart: every file of the
  table is the preamble, which defines \<^verbatim>\<open>$values\<close>, followed by a text in which \<^verbatim>\<open>.Values\<close> does not occur.
\<close>

theorem patched_files_use_values_variable:
  assumes "mset rs = mset replacements" "mset ps = mset paddings"
    and "patchHelmChart H rs ps dir req = (resp, None)" "pr \<in> set replacements"
  shows "\<exists>d. ps_Universe resp (path_Join [dir, fst pr]) = Some (Prefix values_padding @ d)
    \<and> \<not> contains d values_text"
proof -
  from patch_result [OF assms(1-3)] obtain resp2 chart where
    ok: "\<forall>pr \<in> set replacements. \<exists>d. file_result H req dir pr = Inr d"
    and put: "files_put dir replacements (\<lambda>pr. padding_apply values_padding (projr (file_result H req dir pr)))
        (empty_response req) resp2"
    and r: "resp = put_file (path_Join [dir, chartPath]) chart resp2" by blast
  from ok assms(4) obtain d where d: "file_result H req dir pr = Inr d" by blast
  from replacements_last [OF assms(4)] obtain xs where "snd pr = xs @ [values_replacement]" by blast
  with d have "\<not> contains d values_text"
    by (auto simp: file_result_def split: option.splits dest: replace_file_last)
  moreover have "path_Join [dir, fst pr] \<noteq> path_Join [dir, chartPath]"
  proof
    assume "path_Join [dir, fst pr] = path_Join [dir, chartPath]"
    moreover have "plain_name (fst pr)"
      using good_replacements assms(4) by (simp add: good_table_def list_all_iff)
    moreover have "plain_name chartPath" by (simp add: plain_name_def plain_def chartPath_def)
    ultimately have "fst pr = chartPath" by (metis Join_inj)
    with assms(4) show False
      by (auto simp: replacements_def chartPath_def managerPath_def downloaderPath_def uploaderPath_def
          reportServicePath_def controllerServiceAccountPath_def)
  qed
  ultimately show ?thesis
    using put assms(4) d r by (auto simp: files_put_def put_file_def padding_apply_def values_padding_def)
qed

theorem patched_files_use_values_variable_witness:
  "\<exists>resp d. patchHelmChart ref_helm replacements (rev paddings) ''dist'' demo_request = (resp, None)
     \<and> ps_Universe resp ''dist/chart/templates/manager/manager.yaml'' = Some (Prefix values_padding @ d)
     \<and> \<not> contains d ''.Values''"
proof -
  obtain resp err where r: "patchHelmChart ref_helm replacements (rev paddings) ''dist'' demo_request = (resp, err)"
    by force
  have m: "mset (rev paddings) = mset paddings" by simp
  have "templateContent ref_helm ''Chart.yaml'' (hl_chartTmpl ref_helm) (chart_values ref_helm) = Inr ''appVersion: 1.2''"
    by (simp add: templateContent_def ref_helm_def chart_values_def TrimLeft_def)
  then have "err = None" using patch_result [OF refl m r] demo_chart_ok by (cases err) fastforce+
  with r have r: "patchHelmChart ref_helm replacements (rev paddings) ''dist'' demo_request = (resp, None)" by simp
  have "hd replacements \<in> set replacements" "fst (hd replacements) = managerPath" by (simp_all add: replacements_def)
  with patched_files_use_values_variable [OF refl m r, of "hd replacements"] r show ?thesis
    by (auto simp: demo_paths values_text_def)
qed

text \<open>
  Every request that decodes is answered: the response has the version and the command of the request; it
  is flagged as an error exactly when it carries a message; \<^verbatim>\<open>init\<close>, \<^verbatim>\<open>flags\<close> and \<^verbatim>\<open>metadata\<close> change nothing and
  succeed; an unknown command, and \<^verbatim>\<open>edit\<close> without a configured chart, change nothing and fail; and the
  exit code is 0 also then.
\<close>

theorem plugin_answers_every_request:
  assumes "unmarshal input = Inr req" "r = helm_response H rs ps req"
  shows "ps_APIVersion r = pr_APIVersion req \<and> ps_Command r = pr_Command req
    \<and> (ps_Error r \<longleftrightarrow> ps_ErrorMsgs r \<noteq> [])
    \<and> (pr_Command req \<in> {''init'', ''flags'', ''metadata''} \<longrightarrow> \<not> ps_Error r \<and> ps_Universe r = Map.empty)
    \<and> (pr_Command req \<notin> {''init'', ''flags'', ''metadata'', ''edit''} \<longrightarrow> ps_Error r \<and> ps_Universe r = Map.empty)
    \<and> (\<forall>e. pr_Command req = ''edit'' \<and> getOutputDir req = Inl e \<longrightarrow>
          ps_ErrorMsgs r = [err_text e] \<and> ps_Universe r = Map.empty)
    \<and> (\<forall>out. marshal r = Inr out \<longrightarrow> helm_main H rs ps unmarshal marshal (Inr input) = (0, out))"
proof -
  have "\<exists>u. fst (patchHelmChart H rs ps d req) = (empty_response req)\<lparr>ps_Universe := u\<rparr>" for d
    by (rule patch_frame)
  then have "\<exists>u e. patchHelmChart H rs ps d req = ((empty_response req)\<lparr>ps_Universe := u\<rparr>, e)" for d
    by (metis prod.collapse)
  then obtain u e where p: "\<And>d. patchHelmChart H rs ps d req = ((empty_response req)\<lparr>ps_Universe := u d\<rparr>, e d)"
    by metis
  show ?thesis
    using assms by (auto simp: helm_main_def helm_response_def empty_response_def p split: sum.split option.split)
qed

theorem plugin_answers_every_request_witness:
  "let r = helm_response ref_helm replacements paddings (demo_request\<lparr>pr_Config := Map.empty\<rparr>)
   in ps_ErrorMsgs r = [''unable to list plugins from request'']
    \<and> helm_main ref_helm replacements paddings (\<lambda>i. Inr (demo_request\<lparr>pr_Config := Map.empty\<rparr>)) (\<lambda>r. Inr ''out'') (Inr ''{}'')
      = (0, ''out'')"
proof -
  let ?req = "demo_request\<lparr>pr_Config := Map.empty\<rparr>"
  have "getOutputDir ?req = Inl (ErrMsg ''unable to list plugins from request'')"
    by (simp add: getOutputDir_def)
  moreover have "pr_Command ?req = ''edit''" by (simp add: demo_request_def)
  ultimately show ?thesis
    using plugin_answers_every_request [of "\<lambda>i. Inr ?req" "''{}''" ?req _ ref_helm replacements paddings "\<lambda>r. Inr ''out''"]
    by (simp add: Let_def)
qed

end
