(* ===== verification/Chart_Flags.thy ===== *)
theory Chart_Flags
  imports Helm_Patch Controller_Main
begin

section \<open>The chart's arguments and the controller's flags\<close>

text \<open>
  The patcher adds arguments to the manager's deployment, and \<^verbatim>\<open>main\<close> declares the flags they set. Here the flags
  that a manifest passes are followed through a whole patch, from the file of the request to the file of the answer.
\<close>

subsection \<open>The flags of a manifest\<close>

text \<open>The flag that a line of a list of arguments gives, and whether its value stands in the same argument.\<close>

definition line_flag :: "string \<Rightarrow> (string \<times> bool) option" where
  "line_flag line =
     (let s = dropWhile (\<lambda>c. c = CHR '' '') line in
      if HasPrefix s ''- --'' then (let (n, v) = split_value (drop 4 s) in Some (n, v \<noteq> None)) else None)"

definition line_flags :: "string \<Rightarrow> (string \<times> bool) list" where
  "line_flags line = (case line_flag line of None \<Rightarrow> [] | Some f \<Rightarrow> [f])"

definition flags_of :: "string \<Rightarrow> (string \<times> bool) list" where
  "flags_of s = concat (map line_flags (split_on newline s))"

text \<open>The flags that the patch puts where a list of arguments begins.\<close>

definition intake_flags :: "string list" where
  "intake_flags =
     [''reject-report-pipeline-threshold'', ''max-pipelines-per-policy'', ''sqs-queue-url'', ''sqs-parser'',
      ''report-http-bind-address'', ''report-http-secure'', ''report-http-cert-path'', ''report-http-cert-name'',
      ''report-http-cert-key'']"

text \<open>What a line of the request's manifest is to give.\<close>

definition patched_flags :: "string \<Rightarrow> (string \<times> bool) list" where
  "patched_flags line =
     (if match_line ''- args:'' line = None then line_flags line else map (\<lambda>n. (n, True)) intake_flags)"

text \<open>Lines that are quiet give no flag and begin no list of arguments.\<close>

definition quiet :: "string \<Rightarrow> bool" where
  "quiet line = (case dropWhile (\<lambda>c. c = CHR '' '') line of [] \<Rightarrow> True | c # s \<Rightarrow> c \<noteq> CHR ''-'')"

definition spaces :: "string \<Rightarrow> bool" where
  "spaces sp = list_all (\<lambda>c. c = CHR '' '') sp"

lemma spaces_drop [simp]: "spaces sp \<Longrightarrow> dropWhile (\<lambda>c. c = CHR '' '') (sp @ l) = dropWhile (\<lambda>c. c = CHR '' '') l"
  by (induction sp) (simp_all add: spaces_def)

lemma spaces_take: "spaces sp \<Longrightarrow> takeWhile (\<lambda>c. c = CHR '' '') (sp @ l) = sp @ takeWhile (\<lambda>c. c = CHR '' '') l"
  by (induction sp) (simp_all add: spaces_def)

lemma spaces_line [simp]: "spaces sp \<Longrightarrow> newline \<notin> set sp"
  by (induction sp) (simp_all add: spaces_def)

lemma line_flags_indent [simp]: "spaces sp \<Longrightarrow> line_flags (sp @ l) = line_flags l"
  by (simp add: line_flags_def line_flag_def)

lemma quiet_indent [simp]: "spaces sp \<Longrightarrow> quiet (sp @ l) = quiet l"
  by (simp add: quiet_def)

lemma quiet_flags:
  assumes "quiet l"
  shows "line_flags l = []" "patched_flags l = []"
proof -
  have "\<not> HasPrefix (dropWhile (\<lambda>c. c = CHR '' '') l) (CHR ''-'' # w)" for w
  proof
    assume "HasPrefix (dropWhile (\<lambda>c. c = CHR '' '') l) (CHR ''-'' # w)"
    then obtain t where "dropWhile (\<lambda>c. c = CHR '' '') l = CHR ''-'' # t" unfolding HasPrefix_Cons by blast
    with assms show False by (simp add: quiet_def)
  qed
  then show "line_flags l = []" "patched_flags l = []"
    by (simp_all add: patched_flags_def match_line_def line_flags_def line_flag_def Let_def)
qed

lemma match_line_parts:
  assumes "match_line lit l = Some (sp, rest)"
  shows "l = sp @ lit @ rest" "spaces sp" "sp \<noteq> []"
proof -
  let ?P = "\<lambda>c. c = CHR '' ''"
  from assms have m: "sp = takeWhile ?P l" "sp \<noteq> []" "HasPrefix (dropWhile ?P l) lit" "rest = drop (length lit) (dropWhile ?P l)"
    by (simp_all add: match_line_def Let_def split: if_splits)
  from m(3,4) have "dropWhile ?P l = lit @ rest" by (metis HasPrefix_def append_take_drop_id)
  with m(1) show "l = sp @ lit @ rest" by (metis takeWhile_dropWhile_id)
  show "spaces sp" unfolding spaces_def list_all_iff m(1) by (blast dest: set_takeWhileD)
  show "sp \<noteq> []" by (rule m(2))
qed

subsection \<open>A replacement, line by line\<close>

text \<open>
  Where every line that matches is replaced by lines \<open>ts\<close> at its indentation, what a function reads off the lines of the
  result is what another one reads off the lines before.
\<close>

lemma line_step:
  assumes form: "rx_form (Pattern r) = IndentedLine lit False"
    and lines: "\<And>sp. spaces sp \<Longrightarrow> expand (Replacement r) sp = join_with newline (map (\<lambda>t. sp @ t) (ts @ [t]))"
      "\<forall>t \<in> set (ts @ [t]). newline \<notin> set t"
    and hit: "\<And>sp rest. spaces sp \<Longrightarrow> sp \<noteq> [] \<Longrightarrow> concat (map h (map (\<lambda>t. sp @ t) ts @ [sp @ t @ rest])) = g (sp @ lit @ rest)"
    and miss: "\<And>l. match_line lit l = None \<Longrightarrow> h l = g l"
  shows "concat (map h (split_on newline (ReplaceAllString (Pattern r) s (Replacement r)))) = concat (map g (split_on newline s))"
proof -
  let ?f = "\<lambda>l. case match_line lit l of None \<Rightarrow> l | Some (sp, rest) \<Rightarrow> expand (Replacement r) sp @ rest"
  have one: "concat (map h (split_on newline (?f l))) = g l" if l: "l \<in> set (split_on newline s)" for l
  proof (cases "match_line lit l")
    case None
    moreover have "split_on newline l = [l]" using split_on_parts [OF l] by (rule split_on_free)
    ultimately show ?thesis using miss by simp
  next
    case (Some p)
    obtain sp rest where p: "p = (sp, rest)" by force
    with Some match_line_parts [of lit l sp rest] have m: "l = sp @ lit @ rest" "spaces sp" "sp \<noteq> []" by blast+
    let ?ls = "map (\<lambda>t. sp @ t) ts @ [sp @ t @ rest]"
    have join: "join_with newline (xs @ [x]) @ y = join_with newline (xs @ [x @ y])" for xs x y
      by (induction xs rule: induct_list012) simp_all
    have "newline \<notin> set rest" using split_on_parts [OF l] m(1) by simp
    then have "\<forall>w \<in> set ?ls. newline \<notin> set w" using lines(2) m(2) by auto
    moreover have "expand (Replacement r) sp @ rest = join_with newline ?ls"
      using lines(1) [OF m(2)] by (simp add: join)
    ultimately have "split_on newline (expand (Replacement r) sp @ rest) = ?ls"
      by (metis (no_types, lifting) snoc_eq_iff_butlast split_join)
    then show ?thesis using hit [OF m(2,3), of rest] Some p m(1) by simp
  qed
  have flat: "concat (map h (concat (map k ls))) = concat (map (\<lambda>l. concat (map h (k l))) ls)" for k :: "string \<Rightarrow> string list" and ls
    by (induction ls) simp_all
  have "concat (map h (split_on newline (join_with newline (map ?f ls)))) = concat (map g ls)"
    if "ls \<noteq> []" "set ls \<subseteq> set (split_on newline s)" for ls
  proof -
    have "concat (map h (split_on newline (join_with newline (map ?f ls))))
        = concat (map (\<lambda>l. concat (map h (split_on newline (?f l)))) ls)"
      using that(1) by (simp add: split_join_concat flat)
    also have "\<dots> = concat (map g ls)"
      using that(2) one by (intro arg_cong [where f = concat] map_cong) auto
    finally show ?thesis .
  qed
  from this [of "split_on newline s"] show ?thesis
    unfolding ReplaceAllString_def form regex_form.case if_False by simp
qed

text \<open>Lines that are quiet before and after: nothing is read off them.\<close>

lemma quiet_step:
  assumes "rx_form (Pattern r) = IndentedLine (c # lit) False" "c \<noteq> CHR '' ''" "c \<noteq> CHR ''-''"
    and "\<And>sp. spaces sp \<Longrightarrow> expand (Replacement r) sp = join_with newline (map (\<lambda>t. sp @ t) (ts @ [t]))"
    and "list_all (\<lambda>t. quiet t \<and> newline \<notin> set t) (ts @ [t])" "\<And>rest. quiet (t @ rest)"
    and "\<And>l. quiet l \<Longrightarrow> g l = []"
  shows "concat (map g (split_on newline (ReplaceAllString (Pattern r) s (Replacement r)))) = concat (map g (split_on newline s))"
proof (rule line_step [OF assms(1,4)])
  show "\<forall>t \<in> set (ts @ [t]). newline \<notin> set t" using assms(5) by (simp add: list_all_iff)
  fix sp rest :: string assume sp: "spaces sp"
  then have "g (sp @ u) = []" if "u \<in> set ts" for u
    using assms(5,7) that by (simp add: list_all_iff)
  moreover have "g (sp @ (c # lit) @ rest) = []"
    using sp assms(2,3) by (intro assms(7)) (simp add: quiet_def)
  ultimately show "concat (map g (map (\<lambda>t. sp @ t) ts @ [sp @ t @ rest])) = g (sp @ (c # lit) @ rest)"
    using sp assms(6,7) by simp
qed simp_all

text \<open>The patterns of the manager's file but \<^verbatim>\<open>- args:\<close>.\<close>

lemma label_step:
  assumes "\<And>l. quiet l \<Longrightarrow> g l = []" "k = ''labels'' \<or> k = ''annotations''" "src = ''.Values.manager.'' @ k"
  shows "concat (map g (split_on newline (ReplaceAllString (Pattern (label_lines k src)) s (Replacement (label_lines k src)))))
    = concat (map g (split_on newline s))"
proof (rule quiet_step [where c = "hd k" and lit = "tl k @ '':''" and t = "''  {{- end}}''" and g = g])
  let ?ts = "[k @ '':'', ''  {{- range '' @ [dollar] @ ''key, '' @ [dollar] @ ''val := '' @ src @ '' }}'',
    ''  {{ '' @ [dollar] @ ''key }}: {{ '' @ [dollar] @ ''val | quote }}'']"
  show "rx_form (Pattern (label_lines k src)) = IndentedLine (hd k # tl k @ '':'') False"
    "hd k \<noteq> CHR '' ''" "hd k \<noteq> CHR ''-''"
    using assms(2) by (auto simp: label_lines_def at_indent_def)
  show "expand (Replacement (label_lines k src)) sp = join_with newline (map (\<lambda>t. sp @ t) (?ts @ [''  {{- end}}'']))" for sp
    using assms(2,3) by (auto simp: label_lines_def at_indent_def indented_def dollar_def HasPrefix_def)
  show "list_all (\<lambda>t. quiet t \<and> newline \<notin> set t) (?ts @ [''  {{- end}}''])"
    using assms(2,3) by (auto simp: quiet_def dollar_def)
  show "quiet (''  {{- end}}'' @ rest)" for rest by (simp add: quiet_def)
qed (rule assms(1))

lemma env_step:
  assumes "\<And>l. quiet l \<Longrightarrow> g l = []"
  shows "concat (map g (split_on newline (ReplaceAllString (Pattern env_lines) s (Replacement env_lines))))
    = concat (map g (split_on newline s))"
proof (rule quiet_step [where c = "CHR ''e''" and lit = "''nv: []''" and t = "''  {{- end}}''" and g = g])
  let ?ts = "[''env:'', ''  {{- if .Values.manager.env }}'', ''  {{- toYaml .Values.manager.env | nindent 8 }}'',
         ''  {{- else}}'', ''  []'']"
  show "rx_form (Pattern env_lines) = IndentedLine (CHR ''e'' # ''nv: []'') False" by (simp add: env_lines_def)
  show "expand (Replacement env_lines) sp = join_with newline (map (\<lambda>t. sp @ t) (?ts @ [''  {{- end}}'']))" for sp
    by (simp add: env_lines_def indented_def dollar_def HasPrefix_def)
  show "list_all (\<lambda>t. quiet t \<and> newline \<notin> set t) (?ts @ [''  {{- end}}''])" by (simp add: quiet_def)
  show "quiet (''  {{- end}}'' @ rest)" for rest by (simp add: quiet_def)
qed (simp_all add: assms)

lemma volume_step:
  assumes "\<And>l. quiet l \<Longrightarrow> g l = []" "k = ''volumeMounts'' \<and> n = ''8'' \<or> k = ''volumes'' \<and> n = ''6''"
  shows "concat (map g (split_on newline (ReplaceAllString (Pattern (volume_lines k n)) s (Replacement (volume_lines k n)))))
    = concat (map g (split_on newline s))"
proof (rule quiet_step [where c = "hd k" and lit = "tl k @ '':''" and t = "''  {{- end}}''" and g = g])
  let ?ts = "[k @ '':'', ''  {{- if .Values.manager.'' @ k @ '' }}'',
    ''  {{- toYaml .Values.manager.'' @ k @ '' | nindent '' @ n @ ''}}'']"
  show "rx_form (Pattern (volume_lines k n)) = IndentedLine (hd k # tl k @ '':'') False"
    "hd k \<noteq> CHR '' ''" "hd k \<noteq> CHR ''-''"
    using assms(2) by (auto simp: volume_lines_def at_indent_def)
  show "expand (Replacement (volume_lines k n)) sp = join_with newline (map (\<lambda>t. sp @ t) (?ts @ [''  {{- end}}'']))" for sp
    using assms(2) by (auto simp: volume_lines_def at_indent_def indented_def dollar_def HasPrefix_def)
  show "list_all (\<lambda>t. quiet t \<and> newline \<notin> set t) (?ts @ [''  {{- end}}''])"
    using assms(2) by (auto simp: quiet_def)
  show "quiet (''  {{- end}}'' @ rest)" for rest by (simp add: quiet_def)
qed (rule assms(1))

text \<open>The pattern \<^verbatim>\<open>- args:\<close> puts the nine flags; its lines have no dollar sign.\<close>

lemma expand_indent:
  assumes "dollar \<notin> set l"
  shows "expand (l @ t) sp = l @ expand t sp"
  using assms by (induction l) auto

lemma expand_indented:
  assumes "\<forall>l \<in> set ls. dollar \<notin> set l" "ls \<noteq> []"
  shows "expand (indented ls) sp = join_with newline (map (\<lambda>l. sp @ l) ls)"
  using assms
proof (induction ls)
  case Nil
  then show ?case by simp
next
  case (Cons l ls)
  have one: "expand (''${1}'' @ l @ t) sp = sp @ l @ expand t sp" for t
    using Cons.prems(1) expand_indent [of l t sp] by (simp add: dollar_def HasPrefix_def)
  show ?case
  proof (cases ls)
    case Nil
    then show ?thesis using one [of "[]"] by (simp add: indented_def)
  next
    case rest: (Cons m ms)
    then have "indented (l # ls) = ''${1}'' @ l @ newline # indented ls" by (simp add: indented_def)
    then have "expand (indented (l # ls)) sp = sp @ l @ expand (newline # indented ls) sp" by (simp only: one)
    also have "expand (newline # indented ls) sp = newline # expand (indented ls) sp"
      by (simp add: dollar_def)
    also have "expand (indented ls) sp = join_with newline (map (\<lambda>l. sp @ l) ls)"
      using Cons.prems(1) rest by (intro Cons.IH) simp_all
    finally show ?thesis using rest by simp
  qed
qed

lemma arg_texts_plain: "list_all (list_all (\<lambda>c. c \<noteq> dollar \<and> c \<noteq> newline)) arg_texts"
  by (simp add: arg_texts_def dollar_def)

lemma args_step:
  "concat (map line_flags (split_on newline (ReplaceAllString (Pattern args_lines) s (Replacement args_lines))))
    = concat (map patched_flags (split_on newline s))"
proof (rule line_step [where lit = "''- args:''" and ts = "butlast arg_texts" and t = "last arg_texts"])
  have nonempty: "arg_texts \<noteq> []" by (simp add: arg_texts_def)
  have free: "\<forall>t \<in> set arg_texts. dollar \<notin> set t" "\<forall>t \<in> set arg_texts. newline \<notin> set t"
    using arg_texts_plain unfolding list_all_iff by blast+
  show "rx_form (Pattern args_lines) = IndentedLine ''- args:'' False" by (simp add: args_lines_def)
  show "expand (Replacement args_lines) sp = join_with newline (map (\<lambda>t. sp @ t) (butlast arg_texts @ [last arg_texts]))" for sp
    using expand_indented [OF free(1) nonempty, of sp] nonempty by (simp add: args_lines_def)
  show "\<forall>t \<in> set (butlast arg_texts @ [last arg_texts]). newline \<notin> set t" using free(2) nonempty by simp
  fix sp rest :: string assume sp: "spaces sp" "sp \<noteq> []"
  have "concat (map line_flags (map (\<lambda>t. sp @ t) (butlast arg_texts) @ [sp @ last arg_texts @ rest]))
      = concat (map line_flags (butlast arg_texts @ [last arg_texts @ rest]))"
    using sp(1) by (simp add: comp_def)
  also have "\<dots> = map (\<lambda>n. (n, True)) intake_flags"
    by (simp add: arg_texts_def intake_flags_def line_flags_def line_flag_def HasPrefix_def split_value_def)
  also have "\<dots> = patched_flags (sp @ ''- args:'' @ rest)"
  proof -
    have "match_line ''- args:'' (sp @ ''- args:'' @ rest) = Some (sp, rest)"
      using sp by (simp add: match_line_def spaces_take HasPrefix_def)
    then show ?thesis by (simp add: patched_flags_def)
  qed
  finally show "concat (map line_flags (map (\<lambda>t. sp @ t) (butlast arg_texts) @ [sp @ last arg_texts @ rest]))
      = patched_flags (sp @ ''- args:'' @ rest)" .
qed (simp add: patched_flags_def)

subsection \<open>The last replacement, the padding and the whole file\<close>

text \<open>
  \<^verbatim>\<open>.Values\<close> has no newline, no space, no dash and no equals sign: replacing it works within the lines, and within the parts of an
  argument.
\<close>

lemma replace_text_skip: "c \<notin> set u \<Longrightarrow> replace_text (c # lit) r (u @ s) = u @ replace_text (c # lit) r s"
  by (induction u) (auto simp: HasPrefix_Cons)

lemma replace_text_hit: "lit \<noteq> [] \<Longrightarrow> replace_text lit r (lit @ s) = r @ replace_text lit r s"
  by (cases lit) (simp_all add: HasPrefix_def)

lemma replace_text_apart:
  assumes "\<not> contains n lit" "x = [] \<or> hd x \<notin> set lit"
  shows "replace_text lit r (n @ x) = n @ replace_text lit r x"
  using assms(1)
proof (induction n)
  case (Cons c n)
  have "\<not> HasPrefix (c # n @ x) lit"
  proof
    assume "HasPrefix (c # n @ x) lit"
    then have "prefix lit ((c # n) @ x)" by (simp add: HasPrefix_prefix)
    then consider "prefix lit (c # n)" | y z where "lit = (c # n) @ y # z" "prefix (y # z) x"
      by (metis append_Nil2 neq_Nil_conv prefix_append prefix_order.refl)
    then show False
    proof cases
      case 1
      with Cons.prems show False by (simp add: HasPrefix_prefix)
    next
      case 2
      then have "x \<noteq> []" "hd x = y" by (auto simp: prefix_def)
      with assms(2) 2(1) show False by simp
    qed
  qed
  with Cons show ?case by simp
qed simp

lemma split_on_prefix:
  "d \<notin> set u \<Longrightarrow> split_on d (u @ s) = (u @ hd (split_on d s)) # tl (split_on d s)"
  by (induction u) (auto split: list.split)

lemma replace_text_split:
  assumes "d \<notin> set lit" "d \<notin> set r"
  shows "split_on d (replace_text lit r s) = map (replace_text lit r) (split_on d s)"
  using assms
proof (induction lit r s rule: replace_text.induct)
  case (2 lit r c s)
  show ?case
  proof (cases "lit \<noteq> [] \<and> HasPrefix (c # s) lit")
    case True
    then obtain y where y: "c # s = lit @ y" by (auto simp: HasPrefix_prefix prefix_def)
    obtain w ws where w: "split_on d y = w # ws" by (cases "split_on d y") simp_all
    from 2(1) [OF True 2(3,4)] y have IH: "split_on d (replace_text lit r y) = map (replace_text lit r) (split_on d y)" by simp
    show ?thesis
      unfolding y using True 2(3,4) IH w by (simp add: replace_text_hit split_on_prefix)
  next
    case False
    from 2(2) [OF False 2(3,4)] have IH: "split_on d (replace_text lit r s) = map (replace_text lit r) (split_on d s)" .
    obtain w ws where w: "split_on d s = w # ws" by (cases "split_on d s") simp_all
    then have "prefix w s" using join_split [of d s] by (cases ws) (auto simp: prefix_def)
    then have "\<not> (lit \<noteq> [] \<and> HasPrefix (c # w) lit)"
      using False by (metis Cons_prefix_Cons HasPrefix_prefix prefix_order.trans)
    with False IH w show ?thesis by auto
  qed
qed simp

abbreviation to_variable :: "string \<Rightarrow> string" where
  "to_variable \<equiv> replace_text values_text (dollar # ''values'')"

lemma to_variable_replaces:
  "ReplaceAllString (Pattern values_replacement) s (Replacement values_replacement) = to_variable s"
  by (simp add: ReplaceAllString_def values_replacement_def dollar_def HasPrefix_def)

lemma to_variable_start: "dropWhile (\<lambda>c. c = CHR '' '') (to_variable s) = to_variable (dropWhile (\<lambda>c. c = CHR '' '') s)"
proof (induction s)
  case (Cons c s)
  then show ?case by (simp add: values_text_def dollar_def HasPrefix_def)
qed simp

lemma line_flags_arg:
  assumes "dropWhile (\<lambda>c. c = CHR '' '') l = ''- --'' @ x"
  shows "line_flags l = [(fst (split_value x), snd (split_value x) \<noteq> None)]"
  unfolding line_flags_def line_flag_def assms Let_def by (simp add: HasPrefix_def split_beta)

lemma split_value_all: "CHR ''='' \<notin> set n \<Longrightarrow> split_value n = (n, None)"
  by (induction n) (auto simp: split_value_def split: list.splits)

lemma to_variable_flag:
  assumes "\<forall>(n, v) \<in> set (line_flags l). \<not> contains n values_text"
  shows "line_flags (to_variable l) = line_flags l"
proof -
  let ?s = "dropWhile (\<lambda>c. c = CHR '' '') l"
  note start = to_variable_start [of l]
  show ?thesis
  proof (cases "HasPrefix ?s ''- --''")
    case False
    then have "\<not> HasPrefix (to_variable ?s) ''- --''"
      using replace_text_prefix [of dollar "''- --''" values_text "''values''" ?s] by (auto simp: dollar_def)
    with False show ?thesis by (simp add: line_flags_def line_flag_def start)
  next
    case True
    then obtain x where x: "?s = ''- --'' @ x" by (metis HasPrefix_prefix prefixE)
    have start_x: "dropWhile (\<lambda>c. c = CHR '' '') (to_variable l) = ''- --'' @ to_variable x"
      unfolding start x unfolding values_text_def by (rule replace_text_skip) simp
    note flags = line_flags_arg [OF x] line_flags_arg [OF start_x]
    show ?thesis
    proof (cases "CHR ''='' \<in> set x")
      case False
      with flags(1) assms have "\<not> contains x values_text" by (simp add: split_value_all)
      then have "to_variable x = x" using replace_text_apart [of x values_text "[]"] by simp
      then show ?thesis unfolding flags by simp
    next
      case True
      then obtain n v where nv: "x = n @ ''='' @ v" "CHR ''='' \<notin> set n" using split_list_first by fastforce
      with flags(1) assms have n: "\<not> contains n values_text" using split_value_eq [OF nv(2), of v] by simp
      have "to_variable x = n @ to_variable (''='' @ v)"
        unfolding nv(1) by (rule replace_text_apart [OF n]) (simp add: values_text_def)
      also have "to_variable (''='' @ v) = ''='' @ to_variable v"
        unfolding values_text_def by (rule replace_text_skip) simp
      finally show ?thesis
        unfolding flags using split_value_eq [OF nv(2), of v] split_value_eq [OF nv(2), of "to_variable v"] nv(1) by simp
    qed
  qed
qed

lemma to_variable_flags:
  assumes "\<forall>(n, v) \<in> set (flags_of s). \<not> contains n values_text"
  shows "flags_of (to_variable s) = flags_of s"
proof -
  have "split_on newline (to_variable s) = map to_variable (split_on newline s)"
    by (rule replace_text_split) (simp_all add: values_text_def dollar_def)
  moreover have "line_flags (to_variable l) = line_flags l" if "l \<in> set (split_on newline s)" for l
    using assms that by (intro to_variable_flag) (auto simp: flags_of_def)
  ultimately show ?thesis by (simp add: flags_of_def comp_def cong: map_cong)
qed

text \<open>The preamble passes no flag.\<close>

lemma padding_flags: "flags_of (padding_apply values_padding s) = flags_of s"
proof -
  let ?p = "newline # join_with newline
        [''{{- $values := (tpl (.Values | toYaml) $) | fromYaml }}'',
         ''{{- $values := (tpl ($values | toYaml) $) | fromYaml }}'', ''---'']"
  have "padding_apply values_padding s = ?p @ newline # s"
    by (simp add: padding_apply_def values_padding_def)
  then have "flags_of (padding_apply values_padding s) = flags_of ?p @ flags_of s"
    by (simp only: flags_of_def split_on_append map_append concat_append)
  moreover have "flags_of ?p = []" by (simp add: flags_of_def line_flags_def line_flag_def HasPrefix_def)
  ultimately show ?thesis by simp
qed

lemma replace_file_fold:
  "replace_file H rs s = Inr d \<Longrightarrow> d = fold (\<lambda>r s. ReplaceAllString (Pattern r) s (Replacement r)) rs s"
  by (induction rs arbitrary: s) (auto simp: replacement_apply_def split: if_splits)

definition manager_replacements :: "replacement list" where
  "manager_replacements =
     [label_lines ''labels'' ''.Values.manager.labels'', label_lines ''annotations'' ''.Values.manager.annotations'',
      args_lines, env_lines, volume_lines ''volumeMounts'' ''8'', volume_lines ''volumes'' ''6'', values_replacement]"

lemma manager_flags:
  assumes "replace_file H manager_replacements s = Inr d" "\<forall>(n, v) \<in> set (flags_of s). \<not> contains n values_text"
  shows "flags_of d = concat (map patched_flags (split_on newline s))"
proof -
  let ?do = "\<lambda>r s. ReplaceAllString (Pattern r) s (Replacement r)"
  let ?s2 = "?do (label_lines ''annotations'' ''.Values.manager.annotations'') (?do (label_lines ''labels'' ''.Values.manager.labels'') s)"
  let ?s6 = "?do (volume_lines ''volumes'' ''6'') (?do (volume_lines ''volumeMounts'' ''8'') (?do env_lines (?do args_lines ?s2)))"
  have "d = to_variable ?s6"
    using replace_file_fold [OF assms(1)] by (simp add: manager_replacements_def to_variable_replaces)
  moreover have "flags_of ?s6 = concat (map patched_flags (split_on newline s))"
    unfolding flags_of_def by (simp add: label_step env_step volume_step args_step quiet_flags)
  moreover have "\<not> contains n values_text" if "(n, v) \<in> set (patched_flags l)" "l \<in> set (split_on newline s)" for n v l
    using that assms(2) by (auto simp: patched_flags_def intake_flags_def values_text_def HasPrefix_def flags_of_def split: if_splits)
  ultimately show ?thesis using to_variable_flags [of ?s6] by fastforce
qed

lemma manager_begins_args:
  assumes "replace_file H manager_replacements s = Inr d"
  shows "\<exists>l \<in> set (split_on newline s). match_line ''- args:'' l \<noteq> None"
proof -
  let ?do = "\<lambda>r s. ReplaceAllString (Pattern r) s (Replacement r)"
  let ?s2 = "?do (label_lines ''annotations'' ''.Values.manager.annotations'') (?do (label_lines ''labels'' ''.Values.manager.labels'') s)"
  let ?g = "\<lambda>l. if match_line ''- args:'' l = None then [] else [()]"
  have q: "?g l = []" if "quiet l" for l using quiet_flags(2) [OF that] by (auto simp: patched_flags_def intake_flags_def split: if_splits)
  from assms have "MatchString (Pattern args_lines) ?s2"
    by (auto simp: manager_replacements_def replacement_apply_def split: if_splits)
  then obtain l where "l \<in> set (split_on newline ?s2)" "match_line ''- args:'' l \<noteq> None"
    by (auto simp: MatchString_def args_lines_def list_ex_iff simp del: not_None_eq)
  then have "() \<in> set (concat (map ?g (split_on newline ?s2)))" by force
  moreover have "concat (map ?g (split_on newline ?s2)) = concat (map ?g (split_on newline s))"
    using label_step [where g = ?g and k = "''annotations''" and src = "''.Values.manager.annotations''", OF q]
      label_step [where g = ?g and k = "''labels''" and src = "''.Values.manager.labels''" and s = s, OF q] by simp
  ultimately have "() \<in> set (concat (map ?g (split_on newline s)))" by simp
  then show ?thesis by (auto split: if_splits)
qed

subsection \<open>Properties of the patched chart\<close>

text \<open>
  C39. The patched chart and the controller agree on the command line. After a successful patch, whatever the order of the
  tables, the manager's file of the answer passes the flags that the file of the request passed, each as it was and in place,
  with a value or, as \<^verbatim>\<open>--leader-elect\<close>, without one, and for each line \<^verbatim>\<open>- args:\<close>, of which there is one at least, the same nine more, in
  one order and each with its value in the same argument, as the two boolean ones need it. The controller declares these nine; so when it
  declares the flags of the request's file it declares all that the patched one passes. The flags of the request's file are to
  have no \<^verbatim>\<open>.Values\<close> in their names.
\<close>

theorem patched_manager_flags:
  assumes "mset rs = mset replacements" "mset ps = mset paddings"
    and "patchHelmChart H rs ps dir req = (resp, None)"
    and "pr_Universe req (path_Join [dir, managerPath]) = Some file"
    and "\<forall>(n, v) \<in> set (flags_of file). \<not> contains n values_text"
  shows "\<exists>out. ps_Universe resp (path_Join [dir, managerPath]) = Some out
     \<and> flags_of out = concat (map (\<lambda>line. if match_line ''- args:'' line = None then line_flags line
           else map (\<lambda>n. (n, True))
             [''reject-report-pipeline-threshold'', ''max-pipelines-per-policy'', ''sqs-queue-url'', ''sqs-parser'',
              ''report-http-bind-address'', ''report-http-secure'', ''report-http-cert-path'', ''report-http-cert-name'',
              ''report-http-cert-key'']) (split_on newline file))
     \<and> (\<exists>line \<in> set (split_on newline file). match_line ''- args:'' line \<noteq> None)
     \<and> ((\<forall>(n, v) \<in> set (flags_of file). map_of (controller_flags zs) n \<noteq> None) \<longrightarrow>
          (\<forall>(n, v) \<in> set (flags_of out). map_of (controller_flags zs) n \<noteq> None))"
proof -
  from patch_result [OF assms(1-3)] obtain resp2 chart where
    ok: "\<forall>pr \<in> set replacements. \<exists>d. file_result H req dir pr = Inr d"
    and put: "files_put dir replacements (\<lambda>pr. padding_apply values_padding (projr (file_result H req dir pr)))
        (empty_response req) resp2"
    and r: "resp = put_file (path_Join [dir, chartPath]) chart resp2" by blast
  have m: "(managerPath, manager_replacements) \<in> set replacements"
    by (simp add: replacements_def manager_replacements_def)
  with ok obtain d where d: "file_result H req dir (managerPath, manager_replacements) = Inr d" by blast
  with assms(4) have run: "replace_file H manager_replacements file = Inr d" by (simp add: file_result_def)
  have "path_Join [dir, managerPath] \<noteq> path_Join [dir, chartPath]"
    using Join_inj [of managerPath chartPath dir] by (auto simp: plain_name_def plain_def managerPath_def chartPath_def)
  then have out: "ps_Universe resp (path_Join [dir, managerPath]) = Some (padding_apply values_padding d)"
    using put m d r by (force simp: files_put_def put_file_def)
  have flags: "flags_of (padding_apply values_padding d) = concat (map patched_flags (split_on newline file))"
    unfolding padding_flags by (rule manager_flags [OF run assms(5)])
  have "\<forall>n \<in> set intake_flags. map_of (controller_flags zs) n \<noteq> None"
    by (simp add: intake_flags_def controller_flags_def)
  then have "\<forall>(n, v) \<in> set (flags_of (padding_apply values_padding d)). map_of (controller_flags zs) n \<noteq> None"
    if "\<forall>(n, v) \<in> set (flags_of file). map_of (controller_flags zs) n \<noteq> None"
    using that unfolding flags by (fastforce simp: patched_flags_def flags_of_def split: if_splits)
  with out flags manager_begins_args [OF run] show ?thesis
    unfolding patched_flags_def intake_flags_def by blast
qed

text \<open>The reference chart, where the manager has two arguments of its own.\<close>

abbreviation demo_manager :: "replacement list" where
  "demo_manager \<equiv> [label_lines ''labels'' ''.Values.manager.labels'', label_lines ''annotations'' ''.Values.manager.annotations'',
      args_lines, env_lines, volume_lines ''volumeMounts'' ''8'', volume_lines ''volumes'' ''6'']"

definition args_file :: string where
  "args_file = demo_file demo_manager @ newline # ''    - --leader-elect'' @ newline # ''    - --metrics-bind-address=:8443''"

definition args_request :: "string plugin_request" where
  "args_request = Helm_Patch.demo_request\<lparr>pr_Universe := (pr_Universe Helm_Patch.demo_request)(path_Join [''dist'', managerPath] \<mapsto> args_file)\<rparr>"

lemma args_file_lines:
  "split_on newline args_file = split_on newline (demo_file demo_manager) @ [''    - --leader-elect'', ''    - --metrics-bind-address=:8443'']"
  "split_on newline (demo_file demo_manager) =
     [''{{ .Values.x }}'', '' labels:'', '' annotations:'', '' - args:'', '' env: []'', '' volumeMounts:'', '' volumes:'']"
proof -
  have l: "split_on newline ''    - --leader-elect'' = [''    - --leader-elect'']"
    "split_on newline ''    - --metrics-bind-address=:8443'' = [''    - --metrics-bind-address=:8443'']" by simp_all
  show "split_on newline args_file = split_on newline (demo_file demo_manager) @ [''    - --leader-elect'', ''    - --metrics-bind-address=:8443'']"
    unfolding args_file_def split_on_append l by simp
  show "split_on newline (demo_file demo_manager) =
     [''{{ .Values.x }}'', '' labels:'', '' annotations:'', '' - args:'', '' env: []'', '' volumeMounts:'', '' volumes:'']"
    by (subst lines_demo) (simp_all add: anchor_def)
qed

lemma args_request_patched: "\<exists>resp. patchHelmChart ref_helm replacements paddings ''dist'' args_request = (resp, None)"
proof -
  obtain resp err where r: "patchHelmChart ref_helm replacements paddings ''dist'' args_request = (resp, err)" by force
  have "\<exists>d. replace_file ref_helm (demo_manager @ [values_replacement]) args_file = Inr d"
    by (rule demo_file_ok [OF demo_patterns(1), where xs = "[]"]) (simp only: args_file_lines(1) append_Nil)
  then have "\<exists>d. file_result ref_helm args_request ''dist'' (managerPath, manager_replacements) = Inr d"
    by (simp add: file_result_def args_request_def manager_replacements_def del: replace_file.simps)
  moreover have "file_result ref_helm args_request ''dist'' pr = file_result ref_helm Helm_Patch.demo_request ''dist'' pr"
    if "pr \<in> set (tl replacements)" for pr
    using that by (auto simp: replacements_def file_result_def args_request_def demo_paths simp del: replace_file.simps)
  moreover have "replacements = (managerPath, manager_replacements) # tl replacements"
    by (simp add: replacements_def manager_replacements_def)
  ultimately have "\<forall>pr \<in> set replacements. \<exists>d. file_result ref_helm args_request ''dist'' pr = Inr d"
    using demo_chart_ok by (metis list.set_intros(2) set_ConsD)
  moreover have "templateContent ref_helm ''Chart.yaml'' (hl_chartTmpl ref_helm) (chart_values ref_helm) = Inr ''appVersion: 1.2''"
    by (simp add: templateContent_def ref_helm_def chart_values_def TrimLeft_def)
  ultimately have "err = None" using patch_result [OF refl refl r] by (cases err) fastforce+
  with r show ?thesis by blast
qed

theorem patched_manager_flags_witness:
  "\<exists>resp out. patchHelmChart ref_helm replacements paddings ''dist'' args_request = (resp, None)
     \<and> ps_Universe resp ''dist/chart/templates/manager/manager.yaml'' = Some out
     \<and> flags_of out = map (\<lambda>n. (n, True))
         [''reject-report-pipeline-threshold'', ''max-pipelines-per-policy'', ''sqs-queue-url'', ''sqs-parser'',
          ''report-http-bind-address'', ''report-http-secure'', ''report-http-cert-path'', ''report-http-cert-name'',
          ''report-http-cert-key''] @ [(''leader-elect'', False), (''metrics-bind-address'', True)]
     \<and> (\<forall>(n, v) \<in> set (flags_of out). map_of (controller_flags ([] :: (string \<times> unit binding) list)) n \<noteq> None)"
proof -
  obtain resp where r: "patchHelmChart ref_helm replacements paddings ''dist'' args_request = (resp, None)"
    using args_request_patched by blast
  have u: "pr_Universe args_request (path_Join [''dist'', managerPath]) = Some args_file" by (simp add: args_request_def)
  have f: "flags_of args_file = [(''leader-elect'', False), (''metrics-bind-address'', True)]"
    by (simp add: flags_of_def args_file_lines line_flags_def line_flag_def HasPrefix_def split_value_def)
  have v: "\<forall>(n, v) \<in> set (flags_of args_file). \<not> contains n values_text"
    by (simp add: f values_text_def HasPrefix_def)
  have declared: "\<forall>(n, v) \<in> set (flags_of args_file). map_of (controller_flags ([] :: (string \<times> unit binding) list)) n \<noteq> None"
    by (simp add: f controller_flags_def)
  obtain out where
    out: "ps_Universe resp (path_Join [''dist'', managerPath]) = Some out"
    "flags_of out = concat (map (\<lambda>line. if match_line ''- args:'' line = None then line_flags line
           else map (\<lambda>n. (n, True))
             [''reject-report-pipeline-threshold'', ''max-pipelines-per-policy'', ''sqs-queue-url'', ''sqs-parser'',
              ''report-http-bind-address'', ''report-http-secure'', ''report-http-cert-path'', ''report-http-cert-name'',
              ''report-http-cert-key'']) (split_on newline args_file))"
    "(\<forall>(n, v) \<in> set (flags_of args_file). map_of (controller_flags ([] :: (string \<times> unit binding) list)) n \<noteq> None) \<longrightarrow>
       (\<forall>(n, v) \<in> set (flags_of out). map_of (controller_flags ([] :: (string \<times> unit binding) list)) n \<noteq> None)"
    using patched_manager_flags [OF refl refl r u v, of "[] :: (string \<times> unit binding) list"] by (elim exE conjE) (rule that)
  have flags: "flags_of out = map (\<lambda>n. (n, True))
         [''reject-report-pipeline-threshold'', ''max-pipelines-per-policy'', ''sqs-queue-url'', ''sqs-parser'',
          ''report-http-bind-address'', ''report-http-secure'', ''report-http-cert-path'', ''report-http-cert-name'',
          ''report-http-cert-key''] @ [(''leader-elect'', False), (''metrics-bind-address'', True)]"
    unfolding out(2) by (simp add: args_file_lines line_flags_def line_flag_def match_line_def HasPrefix_def split_value_def)
  from r out(1) [unfolded demo_paths] flags mp [OF out(3) declared] show ?thesis
    by (intro exI [of _ resp] exI [of _ out] conjI)
qed

end
