(* ===== verification/Downloader.thy ===== *)
theory Downloader
  imports Go_Path Sqs_Parsers
begin

section \<open>The downloader\<close>

text \<open>
  \<^verbatim>\<open>internal/downloaders\<close> (\<^verbatim>\<open>buildcontext.go\<close>, \<^verbatim>\<open>chalk.go\<close>, \<^verbatim>\<open>docker.go\<close>) and
  \<^verbatim>\<open>cmd/downloader/main.go\<close>. The operating system acts on an external world \<open>'w\<close> behind the record
  \<open>os\<close>; an image of the registry library is its layers, and a layer's tar stream the list of what
  \<open>Reader.Next\<close> gives: entries with their content, ended by the end of the file or an error.
\<close>

subsection \<open>Tar streams and the file system\<close>

datatype typeflag = TypeDir | TypeReg | TypeOther

record tar_header =
  hd_name :: string
  hd_typeflag :: typeflag
  hd_mode :: int

text \<open>The content of an entry, with the error that ends reading it before its end.\<close>

type_synonym content = "string \<times> goerr option"

datatype tar_item = TEntry tar_header content | TError goerr

text \<open>
  \<open>os_openFile\<close> is \<open>os.OpenFile(path, O_CREATE|O_RDWR, mode)\<close>, \<open>os_create\<close> is \<open>os.Create\<close>, \<open>os_copy\<close> is
  \<open>io.Copy\<close> into the file just opened at the path.
\<close>

record 'w os =
  os_stat :: "string \<Rightarrow> 'w \<Rightarrow> goerr option \<times> 'w"
  os_isNotExist :: "goerr \<Rightarrow> bool"
  os_mkdirAll :: "string \<Rightarrow> int \<Rightarrow> 'w \<Rightarrow> goerr option \<times> 'w"
  os_openFile :: "string \<Rightarrow> int \<Rightarrow> 'w \<Rightarrow> goerr option \<times> 'w"
  os_create :: "string \<Rightarrow> 'w \<Rightarrow> goerr option \<times> 'w"
  os_copy :: "string \<Rightarrow> content \<Rightarrow> 'w \<Rightarrow> goerr option \<times> 'w"

subsection \<open>Writing a build context\<close>

text \<open>The directory mode \<open>0755\<close> is 493.\<close>

definition write_dir :: "'w os \<Rightarrow> string \<Rightarrow> 'w \<Rightarrow> goerr option \<times> 'w" where
  "write_dir X target w =
     (case os_stat X target w of
        (Some err, w1) \<Rightarrow>
          if os_isNotExist X err then
            (case os_mkdirAll X target 493 w1 of
               (Some err, w2) \<Rightarrow> (Some (ErrWrap (''failed to create directory '' @ target @ '': '') err ''''), w2)
             | (None, w2) \<Rightarrow> (None, w2))
          else (Some (ErrWrap (''failed to stat directory '' @ target @ '': '') err ''''), w1)
      | (None, w1) \<Rightarrow> (None, w1))"

definition write_file :: "'w os \<Rightarrow> string \<Rightarrow> int \<Rightarrow> content \<Rightarrow> 'w \<Rightarrow> goerr option \<times> 'w" where
  "write_file X target mode content w =
     (case os_openFile X target mode w of
        (Some err, w1) \<Rightarrow> (Some (ErrWrap (''failed to create file '' @ target @ '': '') err ''''), w1)
      | (None, w1) \<Rightarrow>
          (case os_copy X target content w1 of
             (Some err, w2) \<Rightarrow>
               (Some (ErrWrap (''failed to write file contents for '' @ target @ '': '') err ''''), w2)
           | (None, w2) \<Rightarrow> (None, w2)))"

text \<open>The message of a read error is formatted with \<open>%s\<close>, so the error itself is not wrapped.\<close>

fun writeTar :: "'w os \<Rightarrow> tar_item list \<Rightarrow> string \<Rightarrow> 'w \<Rightarrow> goerr option \<times> 'w" where
  "writeTar X [] outdir w = (None, w)"
| "writeTar X (TError err # items) outdir w = (Some (ErrMsg (''error while reading tar: '' @ err_text err)), w)"
| "writeTar X (TEntry header content # items) outdir w =
     (let target = path_Join [outdir, hd_name header];
          r = (case hd_typeflag header of
                 TypeDir \<Rightarrow> write_dir X target w
               | TypeReg \<Rightarrow> write_file X target (hd_mode header) content w
               | TypeOther \<Rightarrow> (None, w))
      in case r of
           (Some err, w1) \<Rightarrow> (Some err, w1)
         | (None, w1) \<Rightarrow> writeTar X items outdir w1)"

subsection \<open>Images\<close>

record layer =
  ly_mediaType :: "string res"
  ly_isLayer :: bool
  ly_uncompressed :: "tar_item list res"

text \<open>\<open>img.Layers()\<close>; a layer may be a nil interface.\<close>

type_synonym image = "layer option list res"

text \<open>
  The loop over the layers: \<open>push\<close> is \<open>multierror.Append(merr, err)\<close>, \<open>None\<close> a nil \<open>merr\<close>. A nil layer
  panics.
\<close>

fun write_layers ::
  "'w os \<Rightarrow> ('m option \<Rightarrow> goerr \<Rightarrow> 'm) \<Rightarrow> layer option list \<Rightarrow> string \<Rightarrow> 'm option \<Rightarrow> 'w
     \<Rightarrow> 'm option outcome \<times> 'w" where
  "write_layers X push [] dir merr w = (Return merr, w)"
| "write_layers X push (None # ls) dir merr w = (Panic, w)"
| "write_layers X push (Some l # ls) dir merr w =
     (case ly_uncompressed l of
        Inl err \<Rightarrow> write_layers X push ls dir (Some (push merr err)) w
      | Inr items \<Rightarrow>
          (case writeTar X items dir w of
             (Some err, w1) \<Rightarrow> write_layers X push ls dir (Some (push merr err)) w1
           | (None, w1) \<Rightarrow> write_layers X push ls dir merr w1))"

definition DownloadBuildContext ::
  "'w os \<Rightarrow> 'm multi \<Rightarrow> ('m option \<Rightarrow> goerr \<Rightarrow> 'm) \<Rightarrow> image \<Rightarrow> string \<Rightarrow> 'w
     \<Rightarrow> goerr option outcome \<times> 'w" where
  "DownloadBuildContext X M push img dir w =
     (case img of
        Inl err \<Rightarrow> (Return (Some (ErrWrap ''unable to list layers: '' err '''')), w)
      | Inr layers \<Rightarrow>
          (case write_layers X push layers dir None w of
             (Panic, w1) \<Rightarrow> (Panic, w1)
           | (Return None, w1) \<Rightarrow> (Return None, w1)
           | (Return (Some m), w1) \<Rightarrow> (Return (mu_errorOrNil M m), w1)))"

subsection \<open>Chalk metadata of an image\<close>

definition chalkFileName :: string where
  "chalkFileName = ''chalk.json''"

definition extractChalkFromTar :: "'w os \<Rightarrow> tar_item list \<Rightarrow> string \<Rightarrow> 'w \<Rightarrow> goerr option \<times> 'w" where
  "extractChalkFromTar X items chalkPath w =
     (case items of
        [] \<Rightarrow> (Some (ErrWrap ''reading last layer tar: '' (ErrMsg ''EOF'') ''''), w)
      | TError err # _ \<Rightarrow> (Some (ErrWrap ''reading last layer tar: '' err ''''), w)
      | TEntry chalk content # _ \<Rightarrow>
          if hd_name chalk \<noteq> chalkFileName then (None, w)
          else
            (case os_create X (Clean chalkPath) w of
               (Some err, w1) \<Rightarrow> (Some (ErrWrap ''creating chalk metadata file: '' err ''''), w1)
             | (None, w1) \<Rightarrow>
                 (case os_copy X (Clean chalkPath) content w1 of
                    (Some err, w2) \<Rightarrow> (Some (ErrWrap ''writing chalk metadata file: '' err ''''), w2)
                  | (None, w2) \<Rightarrow> (None, w2))))"

text \<open>\<open>metadataDir\<close> is the environment variable; every failure but a nil last layer is logged and dropped.\<close>

definition ExtractChalkFromImage :: "'w os \<Rightarrow> string \<Rightarrow> image \<Rightarrow> 'w \<Rightarrow> goerr option \<times> 'w" where
  "ExtractChalkFromImage X metadataDir img w =
     (let metadataPath = Clean (path_Join [metadataDir, chalkFileName]) in
      case img of
        Inl err \<Rightarrow> (None, w)
      | Inr layers \<Rightarrow>
          if length layers = 0 then (None, w)
          else
            (case last layers of
               None \<Rightarrow> (Some (ErrMsg ''missing last layer''), w)
             | Some lastLayer \<Rightarrow>
                 (case ly_mediaType lastLayer of
                    Inl err \<Rightarrow> (None, w)
                  | Inr mediaType \<Rightarrow>
                      if \<not> ly_isLayer lastLayer then (None, w)
                      else
                        (case ly_uncompressed lastLayer of
                           Inl err \<Rightarrow> (None, w)
                         | Inr items \<Rightarrow> (None, snd (extractChalkFromTar X items metadataPath w))))))"

text \<open>\<open>tarball.WriteToFile\<close> is a parameter.\<close>

definition DownloadDockerImage ::
  "'w os \<Rightarrow> (string \<Rightarrow> 'w \<Rightarrow> goerr option \<times> 'w) \<Rightarrow> string \<Rightarrow> image \<Rightarrow> string \<Rightarrow> 'w \<Rightarrow> goerr option \<times> 'w" where
  "DownloadDockerImage X writeToFile metadataDir img path w =
     (case writeToFile path w of
        (Some err, w1) \<Rightarrow> (Some err, w1)
      | (None, w1) \<Rightarrow> ExtractChalkFromImage X metadataDir img w1)"

subsection \<open>The program\<close>

text \<open>
  What \<open>main\<close> calls: the environment (three variables have their names from the Ocular API), the
  registry libraries and the parsers. \<open>de_manifest\<close> gives the media type and the artifact type of a raw
  manifest.
\<close>

record ('r, 'p, 'k, 'm, 'w) downloader_env =
  de_getenv :: "string \<Rightarrow> string"
  de_EnvVarTargetIdentifier :: string
  de_EnvVarTargetVersion :: string
  de_EnvVarMetadataDir :: string
  de_parseReference :: "string \<Rightarrow> bool \<Rightarrow> 'r res"
  de_k8sKeychain :: "'k res"
  de_keychains :: "'k list"
  de_parsePlatform :: "string \<Rightarrow> 'p res"
  de_remoteImage :: "'r \<Rightarrow> 'k list \<Rightarrow> 'p option \<Rightarrow> (image \<times> string res) res"
  de_manifest :: "string \<Rightarrow> (string \<times> string) res"
  de_os :: "'w os"
  de_multi :: "'m multi"
  de_push :: "'m option \<Rightarrow> goerr \<Rightarrow> 'm"
  de_writeToFile :: "'r \<Rightarrow> image \<Rightarrow> string \<Rightarrow> 'w \<Rightarrow> goerr option \<times> 'w"

definition image_ref :: "string \<Rightarrow> string \<Rightarrow> string" where
  "image_ref imageRepo tag =
     (if HasPrefix tag ''@sha256:'' then imageRepo @ tag else imageRepo @ '':'' @ tag)"

definition supportedMediaTypes :: "string list" where
  "supportedMediaTypes = [''application/vnd.oci.image.manifest.v1+json'',
                          ''application/vnd.docker.distribution.manifest.v2+json'']"

definition build_context_type :: string where
  "build_context_type = ''application/vnd.crashoverride.chalk.build-context.v1''"

text \<open>The keychains in order; the one of the cluster is left out when it cannot be built.\<close>

definition keychain_order :: "'k res \<Rightarrow> 'k list \<Rightarrow> 'k list" where
  "keychain_order k8s ks = (case k8s of Inl err \<Rightarrow> ks | Inr k \<Rightarrow> k # ks)"

text \<open>The exit code of the program, or a panic.\<close>

definition downloader_main ::
  "('r, 'p, 'k, 'm, 'w) downloader_env \<Rightarrow> 'w \<Rightarrow> nat outcome \<times> 'w" where
  "downloader_main D w =
     (let imageRepo = de_getenv D (de_EnvVarTargetIdentifier D);
          tag = de_getenv D (de_EnvVarTargetVersion D);
          insecure = de_getenv D ''OCULAR_PARAM_INSECURE_REGISTRY'' \<noteq> '''';
          platform = de_getenv D ''OCULAR_PARAM_PLATFORM'';
          plat = (if platform = '''' then None
                  else case de_parsePlatform D platform of Inl err \<Rightarrow> None | Inr p \<Rightarrow> Some p)
      in
      case de_parseReference D (image_ref imageRepo tag) insecure of
        Inl err \<Rightarrow> (Return 1, w)
      | Inr ref \<Rightarrow>
     (case de_remoteImage D ref (keychain_order (de_k8sKeychain D) (de_keychains D)) plat of
        Inl err \<Rightarrow> (Return 1, w)
      | Inr (img, rawManifest) \<Rightarrow>
     (case rawManifest of
        Inl err \<Rightarrow> (Return 1, w)
      | Inr raw \<Rightarrow>
     (case de_manifest D raw of
        Inl err \<Rightarrow> (Return 1, w)
      | Inr (mediaType, artifactType) \<Rightarrow>
          if mediaType \<notin> set supportedMediaTypes then (Return 1, w)
          else
            (let (r, w1) =
               (if artifactType = build_context_type
                then DownloadBuildContext (de_os D) (de_multi D) (de_push D) img (de_getenv D ''OCULAR_TARGET_DIR'') w
                else (let (e, w2) = DownloadDockerImage (de_os D) (de_writeToFile D ref img)
                                      (de_getenv D (de_EnvVarMetadataDir D)) img ''./target.tar'' w
                      in (Return e, w2)))
             in case r of
                  Panic \<Rightarrow> (Panic, w1)
                | Return None \<Rightarrow> (Return 0, w1)
                | Return (Some err) \<Rightarrow> (Return 1, w1))))))"

subsection \<open>File systems\<close>

text \<open>
  The contents of the regular files, by path. Opening with \<open>O_CREATE\<close> alone keeps what is there; copying
  writes from the start of the file, over what is there; no call changes the content of another path.
\<close>

locale file_system =
  fixes X :: "'w os" and files :: "'w \<Rightarrow> (string \<rightharpoonup> string)"
  assumes stat_files: "files (snd (os_stat X p w)) = files w"
    and mkdir_files: "files (snd (os_mkdirAll X p m w)) = files w"
    and open_other: "q \<noteq> p \<Longrightarrow> files (snd (os_openFile X p m w)) q = files w q"
    and open_file: "fst (os_openFile X p m w) = None \<Longrightarrow>
      files (snd (os_openFile X p m w)) p = (case files w p of None \<Rightarrow> Some [] | Some t \<Rightarrow> Some t)"
    and create_other: "q \<noteq> p \<Longrightarrow> files (snd (os_create X p w)) q = files w q"
    and create_file: "fst (os_create X p w) = None \<Longrightarrow> files (snd (os_create X p w)) p = Some []"
    and copy_other: "q \<noteq> p \<Longrightarrow> files (snd (os_copy X p c w)) q = files w q"
    and copy_file: "files w p = Some t \<Longrightarrow> fst (os_copy X p (s, e) w) = None \<Longrightarrow>
      e = None \<and> files (snd (os_copy X p (s, e) w)) p = Some (s @ drop (length s) t)"

text \<open>An invariant of the world that every call on a permitted path keeps.\<close>

locale confined =
  fixes X :: "'w os" and ok :: "string \<Rightarrow> bool" and I :: "'w \<Rightarrow> bool"
  assumes stat_ok: "ok p \<Longrightarrow> I w \<Longrightarrow> I (snd (os_stat X p w))"
    and mkdir_ok: "ok p \<Longrightarrow> I w \<Longrightarrow> I (snd (os_mkdirAll X p m w))"
    and open_ok: "ok p \<Longrightarrow> I w \<Longrightarrow> I (snd (os_openFile X p m w))"
    and copy_ok: "ok p \<Longrightarrow> I w \<Longrightarrow> I (snd (os_copy X p c w))"
begin

lemma write_dir_ok: "ok p \<Longrightarrow> I w \<Longrightarrow> I (snd (write_dir X p w))"
  using stat_ok [of p w] mkdir_ok [of p "snd (os_stat X p w)" 493]
  by (simp add: write_dir_def split_beta split: option.split)

lemma write_file_ok: "ok p \<Longrightarrow> I w \<Longrightarrow> I (snd (write_file X p m c w))"
  using open_ok [of p w m] copy_ok [of p "snd (os_openFile X p m w)" c]
  by (simp add: write_file_def split_beta split: option.split)

lemma writeTar_ok:
  assumes "\<And>h c. TEntry h c \<in> set items \<Longrightarrow> ok (path_Join [dir, hd_name h])" "I w"
  shows "I (snd (writeTar X items dir w))"
  using assms
proof (induction items arbitrary: w)
  case Nil
  then show ?case by simp
next
  case (Cons item items)
  show ?case
  proof (cases item)
    case (TError e)
    with Cons.prems(2) show ?thesis by simp
  next
    case (TEntry h c)
    have t: "ok (path_Join [dir, hd_name h])" using Cons.prems(1) [of h c] TEntry by simp
    have rest: "I (snd (writeTar X items dir v))" if "I v" for v
      by (rule Cons.IH [OF _ that]) (use Cons.prems(1) in auto)
    note step = write_dir_ok [OF t Cons.prems(2)]
      write_file_ok [OF t Cons.prems(2), of "hd_mode h" c] Cons.prems(2)
    define r where "r = (case hd_typeflag h of
        TypeDir \<Rightarrow> write_dir X (path_Join [dir, hd_name h]) w
      | TypeReg \<Rightarrow> write_file X (path_Join [dir, hd_name h]) (hd_mode h) c w
      | TypeOther \<Rightarrow> (None, w))"
    have I: "I (snd r)" using step by (simp add: r_def split: typeflag.split)
    have "writeTar X (item # items) dir w =
        (case r of (Some err, w1) \<Rightarrow> (Some err, w1) | (None, w1) \<Rightarrow> writeTar X items dir w1)"
      by (simp add: TEntry r_def Let_def)
    with I rest [OF I] show ?thesis by (cases r; cases "fst r") simp_all
  qed
qed

end

text \<open>In a file system, the files outside a set of paths are such an invariant.\<close>

sublocale file_system \<subseteq> outside: confined X ok "\<lambda>w. \<forall>q. \<not> ok q \<longrightarrow> files w q = F q" for ok F
  by unfold_locales (metis stat_files, metis mkdir_files, metis open_other, metis copy_other)

context file_system begin

lemma write_file_content:
  assumes "fst (write_file X p m (s, e) w) = None"
  shows "files (snd (write_file X p m (s, e) w)) p =
    Some (s @ drop (length s) (case files w p of None \<Rightarrow> [] | Some t \<Rightarrow> t))"
proof -
  obtain r w1 where r: "os_openFile X p m w = (r, w1)" by force
  with assms have r0: "r = None" by (cases r) (simp_all add: write_file_def)
  have f: "files w1 p = Some (case files w p of None \<Rightarrow> [] | Some t \<Rightarrow> t)"
    using open_file [of p m w] r r0 by (simp split: option.splits)
  obtain k w2 where k: "os_copy X p (s, e) w1 = (k, w2)" by force
  with assms r r0 have "k = None" by (cases k) (simp_all add: write_file_def)
  with copy_file [OF f, of s e] r r0 k show ?thesis by (simp add: write_file_def)
qed

end

subsection \<open>A reference file system\<close>

text \<open>The world is the map from paths to contents. Every path can be written.\<close>

definition ref_os :: "(string \<rightharpoonup> string) os" where
  "ref_os = \<lparr>os_stat = (\<lambda>p w. (if w p = None then Some (ErrMsg ''not exist'') else None, w)),
     os_isNotExist = (\<lambda>e. e = ErrMsg ''not exist''),
     os_mkdirAll = (\<lambda>p m w. (None, w)),
     os_openFile = (\<lambda>p m w. (None, w(p \<mapsto> (case w p of None \<Rightarrow> [] | Some t \<Rightarrow> t)))),
     os_create = (\<lambda>p w. (None, w(p \<mapsto> []))),
     os_copy = (\<lambda>p c w. (snd c, case w p of None \<Rightarrow> w | Some t \<Rightarrow> w(p \<mapsto> fst c @ drop (length (fst c)) t)))\<rparr>"

interpretation reffs: file_system ref_os "\<lambda>w. w"
  by unfold_locales (auto simp: ref_os_def split: option.splits)

subsection \<open>Multierrors that accumulate\<close>

locale multierror_acc = multierror M for M :: "'m multi" +
  fixes push :: "'m option \<Rightarrow> goerr \<Rightarrow> 'm"
  assumes push_new: "\<not> mu_is M e \<Longrightarrow> mu_errors M (push None e) = [e]"
    and push_old: "\<not> mu_is M e \<Longrightarrow> mu_errors M (push (Some m) e) = mu_errors M m @ [e]"
begin

definition errors_of :: "'m option \<Rightarrow> goerr list" where
  "errors_of r = (case r of None \<Rightarrow> [] | Some m \<Rightarrow> mu_errors M m)"

lemma errors_push: "\<not> mu_is M e \<Longrightarrow> errors_of (Some (push r e)) = errors_of r @ [e]"
  by (cases r) (simp_all add: errors_of_def push_new push_old)

end

interpretation refacc: multierror_acc ref_multi "\<lambda>r e. (case r of None \<Rightarrow> [] | Some m \<Rightarrow> m) @ [e]"
  by unfold_locales (simp_all add: ref_multi_def)

text \<open>What each layer gives: nothing, or its one error.\<close>

fun layer_errors :: "'w os \<Rightarrow> layer list \<Rightarrow> string \<Rightarrow> 'w \<Rightarrow> goerr list \<times> 'w" where
  "layer_errors X [] dir w = ([], w)"
| "layer_errors X (l # ls) dir w =
     (let (e, w1) = (case ly_uncompressed l of Inl err \<Rightarrow> (Some err, w) | Inr items \<Rightarrow> writeTar X items dir w);
          (es, w2) = layer_errors X ls dir w1
      in ((case e of None \<Rightarrow> es | Some err \<Rightarrow> err # es), w2))"

context multierror_acc begin

lemma write_layers_errors:
  assumes "\<forall>e \<in> set (fst (layer_errors X ls dir w)). \<not> mu_is M e"
  shows "\<exists>r. write_layers X push (map Some ls) dir merr w = (Return r, snd (layer_errors X ls dir w))
    \<and> errors_of r = errors_of merr @ fst (layer_errors X ls dir w)
    \<and> (merr = None \<and> fst (layer_errors X ls dir w) = [] \<longrightarrow> r = None)"
  using assms
proof (induction ls arbitrary: merr w)
  case Nil
  then show ?case by simp
next
  case (Cons l ls)
  obtain e w1 where e: "(case ly_uncompressed l of Inl err \<Rightarrow> (Some err, w) | Inr items \<Rightarrow> writeTar X items dir w) = (e, w1)"
    by force
  have wl: "write_layers X push (map Some (l # ls)) dir merr w =
      write_layers X push (map Some ls) dir (case e of None \<Rightarrow> merr | Some err \<Rightarrow> Some (push merr err)) w1"
    using e by (cases "ly_uncompressed l") (auto split: option.split prod.split)
  obtain es w2 where es: "layer_errors X ls dir w1 = (es, w2)" by force
  have le: "layer_errors X (l # ls) dir w = ((case e of None \<Rightarrow> es | Some err \<Rightarrow> err # es), w2)"
    using e es by simp
  show ?case
  proof (cases e)
    case None
    with Cons.IH [of w1 merr] Cons.prems es show ?thesis unfolding wl le by simp
  next
    case (Some err)
    with Cons.prems have "\<not> mu_is M err" unfolding le by simp
    with Cons.IH [of w1 "Some (push merr err)"] Cons.prems es Some errors_push [of err merr] show ?thesis
      unfolding wl le by auto
  qed
qed

end

subsection \<open>Properties of the downloader\<close>

text \<open>
  C27. A build context whose entry names do not climb out of it is written inside the output directory
  only: when no entry's name takes back more directories than it has entered, no file outside the
  (absolute) output directory is created or changed, whatever the entries hold, also when an error
  ends the extraction early. The file system is one without links.
\<close>

theorem build_context_stays_inside:
  assumes "file_system X files" "rooted_path outdir"
    and "\<forall>h c. TEntry h c \<in> set items \<longrightarrow> \<not> climbs 0 (split_on slash (hd_name h))"
    and "\<not> inside outdir q"
  shows "files (snd (writeTar X items outdir w)) q = files w q"
proof -
  let ?I = "\<lambda>v. \<forall>q. \<not> inside outdir q \<longrightarrow> files v q = files w q"
  have "confined X (inside outdir) ?I"
    using assms(1) by (unfold_locales) (metis file_system.stat_files, metis file_system.mkdir_files,
        metis file_system.open_other, metis file_system.copy_other)
  then have "?I (snd (writeTar X items outdir w))"
    by (rule confined.writeTar_ok) (use assms(3) Join_inside [OF assms(2)] in blast, simp)
  with assms(4) show ?thesis by blast
qed

theorem build_context_stays_inside_witness:
  "snd (writeTar ref_os [TEntry \<lparr>hd_name = ''a/../b'', hd_typeflag = TypeReg, hd_mode = 420\<rparr> (''x'', None)] ''/out''
      [''/etc/passwd'' \<mapsto> ''root'']) ''/etc/passwd'' = Some ''root''"
proof -
  let ?h = "\<lparr>hd_name = ''a/../b'', hd_typeflag = TypeReg, hd_mode = 420\<rparr>"
  have r: "rooted_path ''/out''" by simp
  have n: "\<forall>h c. TEntry h c \<in> set [TEntry ?h (''x'', None)] \<longrightarrow> \<not> climbs 0 (split_on slash (hd_name h))"
    by simp
  have q: "\<not> inside ''/out'' ''/etc/passwd''"
    by (simp add: inside_def comps_def push_comp_def)
  from build_context_stays_inside [OF reffs.file_system_axioms r n q, of "[''/etc/passwd'' \<mapsto> ''root'']"]
  show ?thesis by simp
qed

text \<open>
  C28. The names are not checked, so a build context can write any file. For every output directory and
  every absolute target path there is an entry name (enough \<open>..\<close>, then the path) whose extraction,
  when the calls succeed, puts the entry's bytes at that path.
\<close>

lemma clean_up:
  "length acc \<le> n \<Longrightarrow> \<forall>c \<in> set acc. plain c \<Longrightarrow>
   clean_comps True (replicate n dotdot @ cs) acc = clean_comps True cs []"
proof (induction n arbitrary: acc)
  case 0
  then show ?case by simp
next
  case (Suc n)
  have p: "push_comp True dotdot acc = tl acc"
    using Suc.prems(2) by (cases acc) (simp_all add: push_comp_def plain_def)
  have l: "length (tl acc) \<le> n" using Suc.prems(1) by simp
  have "\<forall>c \<in> set (tl acc). plain c" using Suc.prems(2) by (cases acc) simp_all
  from Suc.IH [OF l this] show ?case
    by (simp only: replicate_Suc append_Cons clean_comps.simps p)
qed

lemma escape_target:
  assumes "rooted_path outdir" "cs \<noteq> []" "\<forall>c \<in> set cs. plain c \<and> slash \<notin> set c"
  defines "name \<equiv> join_with slash (replicate (length (comps outdir)) dotdot @ cs)"
  shows "path_Join [outdir, name] = slash # join_with slash cs"
proof -
  let ?ws = "replicate (length (comps outdir)) dotdot @ cs"
  have s: "split_on slash name = ?ws"
    unfolding name_def by (rule split_join) (use assms(2,3) in auto)
  have ne: "name \<noteq> []"
  proof
    assume "name = []"
    with s have "?ws = [[]]" by simp
    then have "[] \<in> set ?ws" by (metis list.set_intros(1))
    with assms(3) show False by (auto simp: plain_def)
  qed
  have "comps (path_Join [outdir, name]) = clean_comps True cs []"
    unfolding comps_Join(1) [OF assms(1) ne] s
    by (rule clean_up) (use comps_rooted_plain [OF assms(1)] in simp_all)
  then have c: "comps (path_Join [outdir, name]) = cs"
    using clean_comps_plain [of cs True "[]"] assms(3) by simp
  from rooted_split [OF assms(1)] obtain q where d: "outdir = slash # q" by blast
  then have j: "path_Join [outdir, name] = Clean (outdir @ slash # name)"
    using ne by (simp add: path_Join_def)
  have r: "rooted_path (outdir @ slash # name)" using d by simp
  have "comps (outdir @ slash # name) = cs" using c unfolding j comps_Clean [OF r] .
  then show ?thesis unfolding j using r by (simp add: Clean_def)
qed

theorem build_context_can_escape:
  assumes "file_system X files" "rooted_path outdir" "cs \<noteq> []" "\<forall>c \<in> set cs. plain c \<and> slash \<notin> set c"
    and "hd_name h = join_with slash (replicate (length (comps outdir)) dotdot @ cs)" "hd_typeflag h = TypeReg"
    and "fst (writeTar X [TEntry h (s, None)] outdir w) = None"
  shows "\<exists>rest. files (snd (writeTar X [TEntry h (s, None)] outdir w)) (slash # join_with slash cs) = Some (s @ rest)"
proof -
  have t: "path_Join [outdir, hd_name h] = slash # join_with slash cs"
    unfolding assms(5) by (rule escape_target [OF assms(2-4)])
  have w: "writeTar X [TEntry h (s, None)] outdir w = write_file X (slash # join_with slash cs) (hd_mode h) (s, None) w"
    by (simp add: t assms(6) Let_def split: prod.split option.split)
  show ?thesis
    using file_system.write_file_content [OF assms(1), of "slash # join_with slash cs" "hd_mode h" s None w] assms(7)
    unfolding w by simp
qed

theorem build_context_can_escape_witness:
  "\<exists>rest. snd (writeTar ref_os [TEntry \<lparr>hd_name = ''../../etc/passwd'', hd_typeflag = TypeReg, hd_mode = 420\<rparr>
       (''evil'', None)] ''/mnt/target'' Map.empty) ''/etc/passwd'' = Some (''evil'' @ rest)"
proof -
  let ?h = "\<lparr>hd_name = ''../../etc/passwd'', hd_typeflag = TypeReg, hd_mode = 420\<rparr>"
  have r: "rooted_path ''/mnt/target''" by simp
  have n: "hd_name ?h = join_with slash (replicate (length (comps ''/mnt/target'')) dotdot @ [''etc'', ''passwd''])"
    by (simp add: comps_def push_comp_def)
  have p: "\<forall>c \<in> set [''etc'', ''passwd'']. plain c \<and> slash \<notin> set c" by (simp add: plain_def)
  have f: "fst (writeTar ref_os [TEntry ?h (''evil'', None)] ''/mnt/target'' Map.empty) = None"
    by (simp add: write_file_def ref_os_def Let_def)
  from build_context_can_escape [OF reffs.file_system_axioms r _ p n _ f] show ?thesis by simp
qed

text \<open>
  Files are opened without \<open>O_TRUNC\<close>, so a layer that replaces a file by a shorter one leaves the end of
  the old content in place: after the extraction the file holds the new bytes followed by the old
  ones from that offset on. It is the new content exactly when the new content is at least as long.
\<close>

theorem overwrite_keeps_tail:
  assumes "file_system X files" "hd_typeflag h = TypeReg"
    and "files w (path_Join [outdir, hd_name h]) = Some t"
    and "fst (writeTar X [TEntry h (s, None)] outdir w) = None"
  shows "files (snd (writeTar X [TEntry h (s, None)] outdir w)) (path_Join [outdir, hd_name h])
       = Some (s @ drop (length s) t)
    \<and> (s @ drop (length s) t = s \<longleftrightarrow> length t \<le> length s)"
proof -
  let ?p = "path_Join [outdir, hd_name h]"
  have w: "writeTar X [TEntry h (s, None)] outdir w = write_file X ?p (hd_mode h) (s, None) w"
    by (simp add: assms(2) Let_def split: prod.split option.split)
  show ?thesis
    using file_system.write_file_content [OF assms(1), of ?p "hd_mode h" s None w] assms(3,4)
    unfolding w by simp
qed

theorem overwrite_keeps_tail_witness:
  "snd (writeTar ref_os [TEntry \<lparr>hd_name = ''f'', hd_typeflag = TypeReg, hd_mode = 420\<rparr> (''new'', None)] ''/out''
      [''/out/f'' \<mapsto> ''older'']) ''/out/f'' = Some ''newer''"
proof -
  let ?h = "\<lparr>hd_name = ''f'', hd_typeflag = TypeReg, hd_mode = 420\<rparr>" and ?w = "[''/out/f'' \<mapsto> ''older'']"
  have p: "path_Join [''/out'', hd_name ?h] = ''/out/f''"
    by (simp add: path_Join_def Clean_def comps_def push_comp_def)
  have f: "fst (writeTar ref_os [TEntry ?h (''new'', None)] ''/out'' ?w) = None"
    by (simp add: write_file_def ref_os_def Let_def)
  from overwrite_keeps_tail [OF reffs.file_system_axioms _ _ f, of "''older''"] show ?thesis
    unfolding p by simp
qed

text \<open>
  Every layer of a build context is tried and no error is lost: the layers are extracted in order, each
  up to its own first error, and the result is nil exactly when no layer had one.
\<close>

theorem build_context_tries_every_layer:
  assumes "multierror_acc M push"
    and "\<forall>e \<in> set (fst (layer_errors X ls dir w)). \<not> mu_is M e"
  shows "\<exists>err. DownloadBuildContext X M push (Inr (map Some ls)) dir w = (Return err, snd (layer_errors X ls dir w))
     \<and> (err = None \<longleftrightarrow> fst (layer_errors X ls dir w) = [])
     \<and> (\<exists>r. fst (write_layers X push (map Some ls) dir None w) = Return r
          \<and> (case r of None \<Rightarrow> [] | Some m \<Rightarrow> mu_errors M m) = fst (layer_errors X ls dir w))"
proof -
  have m: "multierror M" using assms(1) by (simp add: multierror_acc_def)
  from multierror_acc.write_layers_errors [OF assms, of None] obtain r where r:
    "write_layers X push (map Some ls) dir None w = (Return r, snd (layer_errors X ls dir w))"
    "multierror_acc.errors_of M r = multierror_acc.errors_of M None @ fst (layer_errors X ls dir w)"
    "fst (layer_errors X ls dir w) = [] \<longrightarrow> r = None" by blast
  have e: "(case r of None \<Rightarrow> [] | Some m \<Rightarrow> mu_errors M m) = fst (layer_errors X ls dir w)"
    using r(2) by (simp add: multierror_acc.errors_of_def [OF assms(1)])
  show ?thesis
  proof (cases r)
    case None
    with r(1) e show ?thesis by (simp add: DownloadBuildContext_def)
  next
    case (Some a)
    with r(3) e have "fst (layer_errors X ls dir w) \<noteq> []" "mu_errors M a = fst (layer_errors X ls dir w)" by auto
    then have "mu_errorOrNil M a \<noteq> None" using multierror.errorOrNil [OF m, of a] by simp
    with r(1) e Some \<open>fst (layer_errors X ls dir w) \<noteq> []\<close> show ?thesis
      by (simp add: DownloadBuildContext_def)
  qed
qed

definition demo_layer :: "tar_item list res \<Rightarrow> layer" where
  "demo_layer u = \<lparr>ly_mediaType = Inr ''tar'', ly_isLayer = True, ly_uncompressed = u\<rparr>"

theorem build_context_tries_every_layer_witness:
  "let ls = [demo_layer (Inl (ErrMsg ''gone'')), demo_layer (Inr [TEntry \<lparr>hd_name = ''f'', hd_typeflag = TypeReg,
       hd_mode = 420\<rparr> (''x'', None)])];
       r = DownloadBuildContext ref_os ref_multi (\<lambda>r e. (case r of None \<Rightarrow> [] | Some m \<Rightarrow> m) @ [e])
             (Inr (map Some ls)) ''/out'' Map.empty
   in fst r \<noteq> Return None \<and> snd r ''/out/f'' = Some ''x''"
proof -
  let ?ls = "[demo_layer (Inl (ErrMsg ''gone'')), demo_layer (Inr [TEntry \<lparr>hd_name = ''f'', hd_typeflag = TypeReg,
       hd_mode = 420\<rparr> (''x'', None)])]"
  have e: "layer_errors ref_os ?ls ''/out'' Map.empty = ([ErrMsg ''gone''], [''/out/f'' \<mapsto> ''x''])"
    by (simp add: demo_layer_def path_Join_def Clean_def comps_def push_comp_def write_file_def ref_os_def Let_def)
  have p: "\<forall>e \<in> set (fst (layer_errors ref_os ?ls ''/out'' Map.empty)). \<not> mu_is ref_multi e"
    by (simp add: ref_multi_def)
  from build_context_tries_every_layer [OF refacc.multierror_acc_axioms p] obtain err where
    "DownloadBuildContext ref_os ref_multi (\<lambda>r e. (case r of None \<Rightarrow> [] | Some m \<Rightarrow> m) @ [e])
       (Inr (map Some ?ls)) ''/out'' Map.empty = (Return err, snd (layer_errors ref_os ?ls ''/out'' Map.empty))"
    "err = None \<longleftrightarrow> fst (layer_errors ref_os ?ls ''/out'' Map.empty) = []" by blast
  with e show ?thesis by (simp add: Let_def)
qed

end
