(* ===== verification/Uploader.thy ===== *)
theory Uploader
  imports Go_Path Downloader Aws_Config
begin

section \<open>The uploader\<close>

text \<open>
  \<^verbatim>\<open>cmd/uploader/main.go\<close> with \<^verbatim>\<open>api/v1beta1/ingest/results.go\<close> and \<^verbatim>\<open>internal/utils/aws.go\<close>: result
  files go to S3, and a line of JSON for each goes to the ingest service. Files, S3 and HTTP act on an
  external world \<open>'w\<close> behind the record \<open>uploader_env\<close>.
\<close>

subsection \<open>Results\<close>

record ocular_result =
  or_PipelineID :: string
  or_MetadataID :: string
  or_WorkspaceID :: string
  or_ActionID :: string
  or_ScanType :: string
  or_ScanTarget :: string
  or_S3URI :: string

text \<open>\<open>json.Marshal\<close> of a struct of strings never fails; \<open>quote\<close> encodes a string with its quotes.\<close>

definition json_field :: "(string \<Rightarrow> string) \<Rightarrow> string \<Rightarrow> string \<Rightarrow> string" where
  "json_field quote name v = quote name @ '':'' @ quote v"

definition Marshal :: "(string \<Rightarrow> string) \<Rightarrow> ocular_result \<Rightarrow> string res" where
  "Marshal quote r =
     Inr (''{'' @ join_with (CHR '','')
       [json_field quote ''pipeline_id'' (or_PipelineID r), json_field quote ''metadata_id'' (or_MetadataID r),
        json_field quote ''workspace_id'' (or_WorkspaceID r), json_field quote ''action_id'' (or_ActionID r),
        json_field quote ''scan_type'' (or_ScanType r), json_field quote ''scan_target'' (or_ScanTarget r),
        json_field quote ''s3_uri'' (or_S3URI r)] @ ''}'')"

subsection \<open>The environment\<close>

record ingest_request =
  ir_url :: string
  ir_authorization :: string
  ir_workspace :: string
  ir_body :: string

text \<open>
  \<open>ue_open\<close> opens a file for reading; \<open>ue_put bucket key file\<close> is \<open>PutObject\<close> with the opened file as body;
  \<open>ue_newRequest\<close> is the error of \<open>http.NewRequest\<close> for a URL; \<open>ue_do\<close> performs a request and gives its
  status; \<open>ue_push\<close> is \<open>multierror.Append\<close> on \<open>merr\<close>.
\<close>

record ('m, 'w) uploader_env =
  ue_args :: "string list"
  ue_getenv :: "string \<Rightarrow> string"
  ue_EnvVarResultsDir :: string
  ue_loadConfig :: "string \<Rightarrow> goerr option"
  ue_open :: "string \<Rightarrow> 'w \<Rightarrow> goerr option \<times> 'w"
  ue_put :: "string \<Rightarrow> string \<Rightarrow> string \<Rightarrow> 'w \<Rightarrow> goerr option \<times> 'w"
  ue_newRequest :: "string \<Rightarrow> goerr option"
  ue_do :: "ingest_request \<Rightarrow> 'w \<Rightarrow> int res \<times> 'w"
  ue_quote :: "string \<Rightarrow> string"
  ue_multi :: "'m multi"
  ue_push :: "'m option \<Rightarrow> goerr \<Rightarrow> 'm"

subsection \<open>Operations\<close>

text \<open>The arguments after the first \<open>--\<close>.\<close>

fun positional :: "string list \<Rightarrow> string list" where
  "positional [] = []"
| "positional (a # as) = (if a = ''--'' then as else positional as)"

definition result_files :: "string list \<Rightarrow> string \<Rightarrow> string list" where
  "result_files args resultPrefix = filter (\<lambda>f. HasPrefix f resultPrefix) (positional args)"

definition object_key :: "string \<Rightarrow> string \<Rightarrow> string" where
  "object_key pfx file = Clean pfx @ ''/'' @ Base file"

definition scannerNameFromFile :: "string \<Rightarrow> string" where
  "scannerNameFromFile file = hd (split_on (CHR ''.'') (Base file))"

definition quoted :: "string \<Rightarrow> string" where
  "quoted f = [CHR 0x27] @ f @ [CHR 0x27]"

definition uploadToS3 :: "('m, 'w) uploader_env \<Rightarrow> string \<Rightarrow> string \<Rightarrow> string \<Rightarrow> 'w \<Rightarrow> goerr option \<times> 'w" where
  "uploadToS3 U b k f w =
     (case ue_open U (Clean f) w of
        (Some err, w1) \<Rightarrow> (Some (ErrWrap (''failed to open result file '' @ quoted f @ '': '') err ''''), w1)
      | (None, w1) \<Rightarrow>
          (case ue_put U b k (Clean f) w1 of
             (Some err, w2) \<Rightarrow> (Some (ErrWrap (''failed to upload s3 object '' @ quoted f @ '': '') err ''''), w2)
           | (None, w2) \<Rightarrow> (None, w2)))"

text \<open>What \<open>main\<close> reads from its environment.\<close>

record settings =
  se_bucket :: string
  se_region :: string
  se_prefix :: string
  se_pipeline :: string
  se_target :: string
  se_workspace :: string
  se_metadata :: string
  se_action :: string
  se_host :: string
  se_token :: string

definition read_settings :: "(string \<Rightarrow> string) \<Rightarrow> settings" where
  "read_settings getenv =
     \<lparr>se_bucket = getenv ''OCULAR_PARAM_S3_BUCKET'', se_region = getenv ''OCULAR_PARAM_S3_REGION'',
      se_prefix = Trim (getenv ''OCULAR_PARAM_S3_PREFIX'') slash,
      se_pipeline = getenv ''OCULAR_PIPELINE_NAME'', se_target = getenv ''OCULAR_PROFILE_NAME'',
      se_workspace = getenv ''OCULAR_PARAM_WORKSPACE_ID'', se_metadata = getenv ''OCULAR_PARAM_METADATA_ID'',
      se_action = getenv ''OCULAR_PARAM_ACTION_ID'', se_host = getenv ''OCULAR_PARAM_INGEST_HOST'',
      se_token = getenv ''CHALKULAR_INGEST_TOKEN''\<rparr>"

definition result_of :: "settings \<Rightarrow> string \<Rightarrow> ocular_result" where
  "result_of S file =
     \<lparr>or_PipelineID = se_pipeline S, or_MetadataID = se_metadata S, or_WorkspaceID = se_workspace S,
      or_ActionID = se_action S, or_ScanType = scannerNameFromFile file, or_ScanTarget = se_target S,
      or_S3URI = ''s3://'' @ se_bucket S @ ''/'' @ object_key (se_prefix S) file\<rparr>"

text \<open>The loop over the result files: \<open>merr\<close> and the results so far.\<close>

fun upload_all ::
  "('m, 'w) uploader_env \<Rightarrow> settings \<Rightarrow> string list \<Rightarrow> 'm option \<times> ocular_result list \<Rightarrow> 'w
     \<Rightarrow> ('m option \<times> ocular_result list) \<times> 'w" where
  "upload_all U S [] acc w = (acc, w)"
| "upload_all U S (file # files) (merr, results) w =
     (case uploadToS3 U (se_bucket S) (object_key (se_prefix S) file) file w of
        (Some err, w1) \<Rightarrow> upload_all U S files (Some (ue_push U merr err), results) w1
      | (None, w1) \<Rightarrow> upload_all U S files (merr, results @ [result_of S file]) w1)"

text \<open>The body of the request: one line of JSON per result.\<close>

fun payload ::
  "('m, 'w) uploader_env \<Rightarrow> ocular_result list \<Rightarrow> 'm option \<times> string \<Rightarrow> 'm option \<times> string" where
  "payload U [] acc = acc"
| "payload U (r # rs) (merr, b) =
     (case Marshal (ue_quote U) r of
        Inl err \<Rightarrow> payload U rs (Some (ue_push U merr err), b)
      | Inr p \<Rightarrow> payload U rs (merr, b @ p @ [CHR 0x0A]))"

definition triggerIngest ::
  "('m, 'w) uploader_env \<Rightarrow> string \<Rightarrow> string \<Rightarrow> string \<Rightarrow> ocular_result list \<Rightarrow> 'w \<Rightarrow> goerr option \<times> 'w" where
  "triggerIngest U host workspace token results w =
     (let (merr, b) = payload U results (None, []);
          merr_err = (case merr of None \<Rightarrow> None | Some m \<Rightarrow> mu_errorOrNil (ue_multi U) m);
          url = join_with slash [host, ''v0.1/ocular/protected/results''] in
      case merr_err of
        Some err \<Rightarrow> (Some (ErrWrap ''failed to marshal results: '' err ''''), w)
      | None \<Rightarrow>
     (case ue_newRequest U url of
        Some err \<Rightarrow> (Some (ErrWrap ''failed to create request: '' err ''''), w)
      | None \<Rightarrow>
     (case ue_do U \<lparr>ir_url = url, ir_authorization = ''Bearer '' @ token, ir_workspace = workspace,
                     ir_body = b\<rparr> w of
        (Inl err, w1) \<Rightarrow> (Some (ErrMsg (''failed to perform request: '' @ err_text err)), w1)
      | (Inr status, w1) \<Rightarrow>
          if status \<noteq> 200 \<and> status \<noteq> 201
          then (Some (ErrMsg (''non-200 response returned from server: '' @ show_int status)), w1)
          else (None, w1))))"

text \<open>The exit code of the program.\<close>

definition uploader_main :: "('m, 'w) uploader_env \<Rightarrow> 'w \<Rightarrow> nat \<times> 'w" where
  "uploader_main U w =
     (let S = read_settings (ue_getenv U);
          resultFiles = result_files (ue_args U) (ue_getenv U (ue_EnvVarResultsDir U)) in
      case BuildAWSConfig (ue_loadConfig U (se_region S)) of
        Some err \<Rightarrow> (1, w)
      | None \<Rightarrow>
          (let ((merr, results), w1) = upload_all U S resultFiles (None, []) w in
           case (case merr of None \<Rightarrow> None | Some m \<Rightarrow> mu_errorOrNil (ue_multi U) m) of
             Some err \<Rightarrow> (1, w1)
           | None \<Rightarrow>
               if se_token S \<noteq> '''' \<and> se_host S \<noteq> '''' then
                 (case triggerIngest U (se_host S) (se_workspace S) (se_token S) results w1 of
                    (Some err, w2) \<Rightarrow> (1, w2)
                  | (None, w2) \<Rightarrow> (0, w2))
               else (0, w1)))"

subsection \<open>Uploads\<close>

text \<open>
  What the uploads come to, in calls of the libraries: each file in order, whatever happened to the ones before, is opened and then stored
  under the clean prefix and its base name; the errors, with \<open>None\<close> for a success.
\<close>

fun upload_errors :: "('m, 'w) uploader_env \<Rightarrow> settings \<Rightarrow> string list \<Rightarrow> 'w \<Rightarrow> goerr option list \<times> 'w" where
  "upload_errors U S [] w = ([], w)"
| "upload_errors U S (f # fs) w =
     (let (e, w1) =
        (case ue_open U (Clean f) w of
           (Some err, w0) \<Rightarrow> (Some (ErrWrap (''failed to open result file '' @ quoted f @ '': '') err ''''), w0)
         | (None, w0) \<Rightarrow>
             (let (p, w1) = ue_put U (se_bucket S) (Clean (se_prefix S) @ ''/'' @ Base f) (Clean f) w0
              in (map_option (\<lambda>err. ErrWrap (''failed to upload s3 object '' @ quoted f @ '': '') err '''') p, w1)));
          (es, w2) = upload_errors U S fs w1
      in (e # es, w2))"

lemma upload_errors_Cons:
  "upload_errors U S (f # fs) w =
     (let (e, w1) = uploadToS3 U (se_bucket S) (object_key (se_prefix S) f) f w;
          (es, w2) = upload_errors U S fs w1
      in (e # es, w2))"
  by (simp add: uploadToS3_def object_key_def Let_def split_beta split: option.split)

declare upload_errors.simps(2) [simp del]
declare upload_errors_Cons [simp]

text \<open>The line that announces a file: where it is stored, and for what.\<close>

definition announced :: "(string \<Rightarrow> string) \<Rightarrow> settings \<Rightarrow> string \<Rightarrow> string" where
  "announced quote S f =
     ''{'' @ quote ''pipeline_id'' @ '':'' @ quote (se_pipeline S) @ '','' @ quote ''metadata_id'' @ '':'' @ quote (se_metadata S)
     @ '','' @ quote ''workspace_id'' @ '':'' @ quote (se_workspace S) @ '','' @ quote ''action_id'' @ '':'' @ quote (se_action S)
     @ '','' @ quote ''scan_type'' @ '':'' @ quote (takeWhile (\<lambda>c. c \<noteq> CHR ''.'') (Base f))
     @ '','' @ quote ''scan_target'' @ '':'' @ quote (se_target S)
     @ '','' @ quote ''s3_uri'' @ '':'' @ quote (''s3://'' @ se_bucket S @ ''/'' @ Clean (se_prefix S) @ ''/'' @ Base f) @ ''}''
     @ [CHR 0x0A]"

lemma hd_split_on: "hd (split_on d s) = takeWhile (\<lambda>c. c \<noteq> d) s"
  by (induction s) (auto split: list.split)

lemma announced_line: "projr (Marshal quote (result_of S f)) @ [CHR 0x0A] = announced quote S f"
  by (simp add: Marshal_def json_field_def result_of_def announced_def object_key_def scannerNameFromFile_def hd_split_on)

lemma upload_all_world: "snd (upload_all U S fs acc w) = snd (upload_errors U S fs w)"
proof (induction fs arbitrary: acc w)
  case Nil
  then show ?case by simp
next
  case (Cons f fs)
  obtain merr rs where a: "acc = (merr, rs)" by force
  obtain e w1 where e: "uploadToS3 U (se_bucket S) (object_key (se_prefix S) f) f w = (e, w1)" by force
  show ?case
    unfolding a using e Cons.IH [of _ w1] by (cases e) (simp_all add: split_beta Let_def)
qed

lemma upload_all_ok:
  "\<forall>e \<in> set (fst (upload_errors U S fs w)). e = None \<Longrightarrow>
   fst (upload_all U S fs (merr, rs) w) = (merr, rs @ map (result_of S) fs)"
proof (induction fs arbitrary: merr rs w)
  case Nil
  then show ?case by simp
next
  case (Cons f fs)
  obtain e w1 where e: "uploadToS3 U (se_bucket S) (object_key (se_prefix S) f) f w = (e, w1)" by force
  with Cons.prems have "e = None" "\<forall>e \<in> set (fst (upload_errors U S fs w1)). e = None"
    by (simp_all add: split_beta Let_def)
  with e Cons.IH show ?case by simp
qed

lemma payload_lines:
  "payload U rs (merr, b) =
     (merr, b @ concat (map (\<lambda>r. projr (Marshal (ue_quote U) r) @ [CHR 0x0A]) rs))"
  by (induction rs arbitrary: b) (simp_all add: Marshal_def)

lemma upload_all_fail:
  assumes "multierror_acc M (ue_push U)"
    and "\<forall>e. Some e \<in> set (fst (upload_errors U S fs w)) \<longrightarrow> \<not> mu_is M e"
  shows "multierror_acc.errors_of M (fst (fst (upload_all U S fs (merr, rs) w))) =
    multierror_acc.errors_of M merr @ List.map_filter (\<lambda>e. e) (fst (upload_errors U S fs w))"
  using assms(2)
proof (induction fs arbitrary: merr rs w)
  case Nil
  then show ?case by (simp add: map_filter_simps)
next
  case (Cons f fs)
  obtain e w1 where e: "uploadToS3 U (se_bucket S) (object_key (se_prefix S) f) f w = (e, w1)" by force
  have rest: "\<forall>e. Some e \<in> set (fst (upload_errors U S fs w1)) \<longrightarrow> \<not> mu_is M e"
    using Cons.prems e by (simp add: split_beta Let_def)
  show ?case
  proof (cases e)
    case None
    with Cons.IH [OF rest] e show ?thesis by (simp add: split_beta Let_def map_filter_simps)
  next
    case (Some err)
    have "\<not> mu_is M err" using Cons.prems e Some by (simp add: split_beta Let_def)
    with Cons.IH [OF rest] e Some multierror_acc.errors_push [OF assms(1)] show ?thesis
      by (simp add: split_beta Let_def map_filter_simps)
  qed
qed

subsection \<open>A reference environment\<close>

text \<open>
  The world is the list of the keys uploaded and the requests made; the file \<open>/mnt/results/bad.json\<close>
  cannot be opened; quoting puts quotes around a string.
\<close>

definition ref_uploader ::
  "string \<Rightarrow> string list \<Rightarrow> (goerr list, (string \<times> string) list \<times> ingest_request list) uploader_env" where
  "ref_uploader pfx files = \<lparr>ue_args = [''uploader'', ''--''] @ files,
     ue_getenv = (\<lambda>v. if v = ''OCULAR_PARAM_S3_PREFIX'' then pfx
                     else if v = ''OCULAR_PARAM_S3_BUCKET'' then ''bk''
                     else if v = ''RESULTS'' then ''/mnt/results''
                     else if v = ''CHALKULAR_INGEST_TOKEN'' then ''t''
                     else if v = ''OCULAR_PARAM_INGEST_HOST'' then ''https://h'' else []),
     ue_EnvVarResultsDir = ''RESULTS'', ue_loadConfig = (\<lambda>r. None),
     ue_open = (\<lambda>f w. (if f = ''/mnt/results/bad.json'' then Some (ErrMsg ''no such file'') else None, w)),
     ue_put = (\<lambda>b k f w. (None, (fst w @ [(k, f)], snd w))),
     ue_newRequest = (\<lambda>u. None), ue_do = (\<lambda>r w. (Inr 200, (fst w, snd w @ [r]))),
     ue_quote = (\<lambda>s. [CHR 0x22] @ s @ [CHR 0x22]), ue_multi = ref_multi,
     ue_push = (\<lambda>r e. (case r of None \<Rightarrow> [] | Some m \<Rightarrow> m) @ [e])\<rparr>"

lemma ref_uploader_multi: "multierror_acc (ue_multi (ref_uploader pfx fs)) (ue_push (ref_uploader pfx fs))"
  by (simp add: ref_uploader_def refacc.multierror_acc_axioms)

subsection \<open>Properties of the uploader\<close>

lemma no_upload_error_iff:
  "List.map_filter (\<lambda>e. e) es = [] \<longleftrightarrow> (\<forall>e \<in> set es. e = None)"
  by (induction es) (auto simp: map_filter_simps split: option.splits)

lemma payload_announced:
  "payload U (map (result_of S) fs) (None, []) = (None, concat (map (announced (ue_quote U) S) fs))"
  by (simp add: payload_lines comp_def announced_line)

lemma positional_drop: "positional as = drop 1 (dropWhile (\<lambda>a. a \<noteq> ''--'') as)"
  by (induction as) simp_all

text \<open>
  C19. Nothing is announced before everything is uploaded. Let the AWS configuration load, and let the errors of uploads be
  no multierrors themselves. The result files are the arguments after the first \<open>--\<close> that lie under the results directory. Every one is
  opened and stored, in order, whatever happened to the ones before. If one fails the program exits with 1 and makes no
  request. If none does, but the token or the host is not set, it exits with 0 and makes no request. If both are set
  and the URL is valid, it makes exactly one request: to the host's \<^verbatim>\<open>v0.1/ocular/protected/results\<close>, with the token and the workspace in its headers and
  one line for each result file, in order, that names the object its file was stored as; and it exits with 0 exactly when
  the answer has status 200 or 201.
\<close>

theorem ingest_only_after_all_uploads:
  fixes U :: "('m, 'w) uploader_env" and w :: 'w
  assumes "multierror_acc (ue_multi U) (ue_push U)"
    and "S = \<lparr>se_bucket = ue_getenv U ''OCULAR_PARAM_S3_BUCKET'', se_region = ue_getenv U ''OCULAR_PARAM_S3_REGION'',
      se_prefix = Trim (ue_getenv U ''OCULAR_PARAM_S3_PREFIX'') CHR ''/'', se_pipeline = ue_getenv U ''OCULAR_PIPELINE_NAME'',
      se_target = ue_getenv U ''OCULAR_PROFILE_NAME'', se_workspace = ue_getenv U ''OCULAR_PARAM_WORKSPACE_ID'',
      se_metadata = ue_getenv U ''OCULAR_PARAM_METADATA_ID'', se_action = ue_getenv U ''OCULAR_PARAM_ACTION_ID'',
      se_host = ue_getenv U ''OCULAR_PARAM_INGEST_HOST'', se_token = ue_getenv U ''CHALKULAR_INGEST_TOKEN''\<rparr>"
    and "ue_loadConfig U (se_region S) = None"
    and "fs = filter (\<lambda>f. HasPrefix f (ue_getenv U (ue_EnvVarResultsDir U))) (drop 1 (dropWhile (\<lambda>a. a \<noteq> ''--'') (ue_args U)))"
    and "upload_errors U S fs w = (es, w1)" "\<forall>e. Some e \<in> set es \<longrightarrow> \<not> mu_is (ue_multi U) e"
  shows "uploader_main U w =
    (if \<exists>e. Some e \<in> set es then (1, w1)
     else if se_token S = '''' \<or> se_host S = '''' then (0, w1)
     else if ue_newRequest U (se_host S @ ''/v0.1/ocular/protected/results'') \<noteq> None then (1, w1)
     else
       (let (response, w2) = ue_do U
          \<lparr>ir_url = se_host S @ ''/v0.1/ocular/protected/results'', ir_authorization = ''Bearer '' @ se_token S,
           ir_workspace = se_workspace S, ir_body = concat (map (announced (ue_quote U) S) fs)\<rparr> w1
        in (if response = Inr 200 \<or> response = Inr 201 then 0 else 1, w2)))"
proof -
  let ?M = "ue_multi U" and ?url = "se_host S @ ''/v0.1/ocular/protected/results''"
  have S: "S = read_settings (ue_getenv U)" by (simp add: assms(2) read_settings_def)
  have fs: "fs = result_files (ue_args U) (ue_getenv U (ue_EnvVarResultsDir U))"
    by (simp add: assms(4) result_files_def positional_drop)
  obtain merr rs where u: "upload_all U S fs (None, []) w = ((merr, rs), w1)"
    using upload_all_world [of U S fs "(None, [])" w] assms(5) by (cases "upload_all U S fs (None, []) w") auto
  have main: "uploader_main U w =
      (case (case merr of None \<Rightarrow> None | Some m \<Rightarrow> mu_errorOrNil ?M m) of
         Some err \<Rightarrow> (1, w1)
       | None \<Rightarrow>
           if se_token S \<noteq> '''' \<and> se_host S \<noteq> '''' then
             (case triggerIngest U (se_host S) (se_workspace S) (se_token S) rs w1 of
                (Some err, w2) \<Rightarrow> (1, w2) | (None, w2) \<Rightarrow> (0, w2))
           else (0, w1))"
    using assms(3) u unfolding uploader_main_def Let_def S [symmetric] fs [symmetric]
    by (simp add: BuildAWSConfig_def)
  show ?thesis
  proof (cases "\<exists>e. Some e \<in> set es")
    case True
    from upload_all_fail [OF assms(1), of S fs w None "[]"] assms(5,6) u
    have "multierror_acc.errors_of ?M merr = List.map_filter (\<lambda>e. e) es"
      by (simp add: multierror_acc.errors_of_def [OF assms(1)])
    with True no_upload_error_iff [of es] obtain m where "merr = Some m" "mu_errors ?M m \<noteq> []"
      by (cases merr) (force simp: multierror_acc.errors_of_def [OF assms(1)])+
    then have "\<exists>err. merr = Some m \<and> mu_errorOrNil ?M m = Some err"
      using multierror.errorOrNil [of ?M m] assms(1) by (auto simp: multierror_acc_def)
    with main True show ?thesis by auto
  next
    case False
    then have "\<forall>e \<in> set es. e = None" by (metis not_None_eq)
    with upload_all_ok [of U S fs w None "[]"] assms(5) u have ok: "merr = None" "rs = map (result_of S) fs"
      by simp_all
    have "triggerIngest U (se_host S) (se_workspace S) (se_token S) rs w1 =
        (case ue_newRequest U ?url of
           Some err \<Rightarrow> (Some (ErrWrap ''failed to create request: '' err ''''), w1)
         | None \<Rightarrow>
        (case ue_do U \<lparr>ir_url = ?url, ir_authorization = ''Bearer '' @ se_token S, ir_workspace = se_workspace S,
                       ir_body = concat (map (announced (ue_quote U) S) fs)\<rparr> w1 of
           (Inl err, w2) \<Rightarrow> (Some (ErrMsg (''failed to perform request: '' @ err_text err)), w2)
         | (Inr status, w2) \<Rightarrow>
             if status \<noteq> 200 \<and> status \<noteq> 201
             then (Some (ErrMsg (''non-200 response returned from server: '' @ show_int status)), w2) else (None, w2)))"
      by (simp add: triggerIngest_def ok(2) payload_announced Let_def)
    with main False ok(1) show ?thesis by (auto simp: Let_def split: prod.split option.split sum.split)
  qed
qed

theorem ingest_only_after_all_uploads_witness:
  "uploader_main (ref_uploader ''p'' [''/mnt/results/bad.json'', ''/mnt/results/ok.json'', ''/tmp/x'']) ([], [])
     = (1, ([(''p/ok.json'', ''/mnt/results/ok.json'')], []))
   \<and> (\<exists>line. uploader_main (ref_uploader ''p'' [''/mnt/results/ok.json'', ''/tmp/x'']) ([], [])
     = (0, ([(''p/ok.json'', ''/mnt/results/ok.json'')],
            [\<lparr>ir_url = ''https://h/v0.1/ocular/protected/results'', ir_authorization = ''Bearer t'', ir_workspace = '''',
              ir_body = line\<rparr>])))"
proof -
  let ?U = "\<lambda>fs. ref_uploader ''p'' fs"
  let ?S = "\<lambda>fs. \<lparr>se_bucket = ue_getenv (?U fs) ''OCULAR_PARAM_S3_BUCKET'', se_region = ue_getenv (?U fs) ''OCULAR_PARAM_S3_REGION'',
      se_prefix = Trim (ue_getenv (?U fs) ''OCULAR_PARAM_S3_PREFIX'') CHR ''/'', se_pipeline = ue_getenv (?U fs) ''OCULAR_PIPELINE_NAME'',
      se_target = ue_getenv (?U fs) ''OCULAR_PROFILE_NAME'', se_workspace = ue_getenv (?U fs) ''OCULAR_PARAM_WORKSPACE_ID'',
      se_metadata = ue_getenv (?U fs) ''OCULAR_PARAM_METADATA_ID'', se_action = ue_getenv (?U fs) ''OCULAR_PARAM_ACTION_ID'',
      se_host = ue_getenv (?U fs) ''OCULAR_PARAM_INGEST_HOST'', se_token = ue_getenv (?U fs) ''CHALKULAR_INGEST_TOKEN''\<rparr>"
  let ?fs = "\<lambda>fs. filter (\<lambda>f. HasPrefix f (ue_getenv (?U fs) (ue_EnvVarResultsDir (?U fs))))
      (drop 1 (dropWhile (\<lambda>a. a \<noteq> ''--'') (ue_args (?U fs))))"
  let ?a = "[''/mnt/results/bad.json'', ''/mnt/results/ok.json'', ''/tmp/x'']" and ?b = "[''/mnt/results/ok.json'', ''/tmp/x'']"
  have f: "?fs ?a = [''/mnt/results/bad.json'', ''/mnt/results/ok.json'']" "?fs ?b = [''/mnt/results/ok.json'']"
    by (simp_all add: ref_uploader_def HasPrefix_def)
  have s: "se_bucket (?S fs) = ''bk''" "se_prefix (?S fs) = ''p''" "se_token (?S fs) = ''t''" "se_host (?S fs) = ''https://h''"
    "se_workspace (?S fs) = ''''" for fs
    by (simp_all add: ref_uploader_def Trim_def TrimLeft_def)
  have c: "Clean ''/mnt/results/bad.json'' = ''/mnt/results/bad.json''" "Clean ''/mnt/results/ok.json'' = ''/mnt/results/ok.json''"
    by (simp_all add: Clean_def comps_def push_comp_def)
  have k: "object_key ''p'' ''/mnt/results/ok.json'' = ''p/ok.json''"
    by (simp add: object_key_def Clean_def comps_def push_comp_def rooted_path_def HasPrefix_def Base_def
        trim_right_slash_def)
  have "\<exists>err. upload_errors (?U ?a) (?S ?a) (?fs ?a) ([], []) = ([Some err, None], ([(''p/ok.json'', ''/mnt/results/ok.json'')], []))"
    unfolding f by (simp add: uploadToS3_def s(1,2) c k del: settings.select_convs) (simp add: ref_uploader_def c)
  then obtain err where e1: "upload_errors (?U ?a) (?S ?a) (?fs ?a) ([], [])
      = ([Some err, None], ([(''p/ok.json'', ''/mnt/results/ok.json'')], []))" by blast
  have e2: "upload_errors (?U ?b) (?S ?b) (?fs ?b) ([], []) = ([None], ([(''p/ok.json'', ''/mnt/results/ok.json'')], []))"
    unfolding f by (simp add: uploadToS3_def s(1,2) c k del: settings.select_convs) (simp add: ref_uploader_def c)
  have l: "ue_loadConfig (?U fs) (se_region (?S fs)) = None" for fs by (simp add: ref_uploader_def)
  have p: "\<forall>e. Some e \<in> set es \<longrightarrow> \<not> mu_is (ue_multi (?U fs)) e" for es fs
    by (simp add: ref_uploader_def ref_multi_def)
  note run = ingest_only_after_all_uploads [OF ref_uploader_multi refl l refl _ p]
  from run [OF e1] run [OF e2] show ?thesis
    unfolding s by (auto simp: ref_uploader_def)
qed

text \<open>
  The request's body can be read back: split at newlines it is exactly one JSON object per result, in the
  order of the results, and an empty rest, provided the encoding of a string contains no raw newline.
\<close>

lemma newline_free_Marshal:
  assumes "\<forall>s. CHR 0x0A \<notin> set (ue_quote U s)"
  shows "CHR 0x0A \<notin> set (projr (Marshal (ue_quote U) r))"
  using assms by (simp add: Marshal_def json_field_def)

theorem ingest_body_lines:
  assumes "\<forall>s. CHR 0x0A \<notin> set (ue_quote U s)"
  shows "split_on (CHR 0x0A) (snd (payload U rs (None, [])))
       = map (\<lambda>r. projr (Marshal (ue_quote U) r)) rs @ [[]]
    \<and> fst (payload U rs (None, [])) = None"
proof -
  let ?m = "\<lambda>r. projr (Marshal (ue_quote U) r)"
  have "split_on (CHR 0x0A) (concat (map (\<lambda>r. ?m r @ [CHR 0x0A]) rs)) = map ?m rs @ [[]]"
  proof (induction rs)
    case Nil
    then show ?case by simp
  next
    case (Cons r rs)
    have "split_on (CHR 0x0A) (?m r @ CHR 0x0A # concat (map (\<lambda>r. ?m r @ [CHR 0x0A]) rs))
        = [?m r] @ split_on (CHR 0x0A) (concat (map (\<lambda>r. ?m r @ [CHR 0x0A]) rs))"
      unfolding split_on_append split_on_free [OF newline_free_Marshal [OF assms]] ..
    with Cons show ?case by simp
  qed
  then show ?thesis by (simp add: payload_lines)
qed

text \<open>A quoting that drops newlines, for the witness.\<close>

theorem ingest_body_lines_witness:
  "let U = (ref_uploader [] [])\<lparr>ue_quote := \<lambda>s. [CHR 0x22] @ filter (\<lambda>c. c \<noteq> CHR 0x0A) s @ [CHR 0x22]\<rparr>;
       r = result_of (read_settings (ue_getenv U)) ''/mnt/results/a.json''
   in length (split_on (CHR 0x0A) (snd (payload U [r, r] (None, [])))) = 3"
proof -
  let ?U = "(ref_uploader [] [])\<lparr>ue_quote := \<lambda>s. [CHR 0x22] @ filter (\<lambda>c. c \<noteq> CHR 0x0A) s @ [CHR 0x22]\<rparr>"
  let ?r = "result_of (read_settings (ue_getenv ?U)) ''/mnt/results/a.json''"
  have "\<forall>s. CHR 0x0A \<notin> set (ue_quote ?U s)" by simp
  from ingest_body_lines [OF this, of "[?r, ?r]"]
  have "split_on (CHR 0x0A) (snd (payload ?U [?r, ?r] (None, []))) = map (\<lambda>r. projr (Marshal (ue_quote ?U) r)) [?r, ?r] @ [[]]"
    by (rule conjunct1)
  then have "length (split_on (CHR 0x0A) (snd (payload ?U [?r, ?r] (None, [])))) = 3"
    by (simp only: length_append length_map list.size)
  then show ?thesis unfolding Let_def .
qed

text \<open>
  The key of a result file is decided by its base name alone: files of the same name in different
  directories get the same key, and the later one replaces the earlier. With no prefix (the default of
  the parameter) the key is not the file name but \<open>./\<close> and the file name, since \<open>Clean\<close> makes the
  empty prefix a dot.
\<close>

theorem object_key_by_base_name:
  assumes "Base f = Base g"
  shows "object_key pfx f = object_key pfx g
    \<and> or_S3URI (result_of S f) = or_S3URI (result_of S g)
    \<and> (Trim pfx slash = '''' \<longrightarrow> object_key (Trim pfx slash) f = ''./'' @ Base f)"
  using assms by (simp add: object_key_def result_of_def Clean_def comps_def rooted_path_def HasPrefix_def)

theorem object_key_by_base_name_witness:
  "object_key ''p'' ''/mnt/results/a/out.json'' = object_key ''p'' ''/mnt/results/b/out.json''
   \<and> object_key (Trim ''/'' slash) ''/mnt/results/b/out.json'' = ''./out.json''"
proof -
  have b: "Base ''/mnt/results/a/out.json'' = ''out.json''" "Base ''/mnt/results/b/out.json'' = ''out.json''"
    by (simp_all add: Base_def trim_right_slash_def)
  have t: "Trim ''/'' slash = ''''" by (simp add: Trim_def TrimLeft_def)
  from b have e: "Base ''/mnt/results/a/out.json'' = Base ''/mnt/results/b/out.json''" by simp
  show ?thesis
    using object_key_by_base_name [OF e, of "''p''"] object_key_by_base_name [OF e [symmetric], of "''/''"] t b by simp
qed

end
