(* ===== verification/Deep_Copy.thy ===== *)
theory Deep_Copy
  imports Api_Types "HOL-Library.Sublist"
begin

section \<open>Deep copies\<close>

text \<open>
  The generated \<^verbatim>\<open>api/v1beta1/zz_generated.deepcopy.go\<close>, over an explicit store: a pointer is the address of
  a cell, a slice the address of its array with an offset and a length. The structs of other packages
  (\<open>ObjectMeta\<close>, \<open>ListMeta\<close>, \<open>Condition\<close>, Ocular's \<open>PipelineTemplate\<close>) are type parameters with deep copies of
  their own, which may allocate cells (\<open>CLib\<close>). What makes a function a deep copy is the locale \<open>deep_copier\<close>;
  the code's functions are interpretations of it, given that the other packages' are.
\<close>

subsection \<open>The store\<close>

type_synonym addr = nat

text \<open>\<open>new(T)\<close>, \<open>make([]T, n)\<close>: a cell that was not in use.\<close>

definition alloc :: "'c \<Rightarrow> 'c list \<Rightarrow> addr \<times> 'c list" where
  "alloc c h = (length h, h @ [c])"

text \<open>A heap \<open>h'\<close> holds the cells of \<open>A\<close> as \<open>h\<close> does.\<close>

definition agree :: "addr set \<Rightarrow> 'c list \<Rightarrow> 'c list \<Rightarrow> bool" where
  "agree A h h' \<longleftrightarrow> (\<forall>a \<in> A. a < length h' \<and> h' ! a = h ! a)"

lemma agree_prefix: "prefix h h' \<Longrightarrow> A \<subseteq> {..<length h} \<Longrightarrow> agree A h h'"
  by (auto simp: agree_def prefix_def nth_append)

lemma agree_update: "A \<subseteq> {..<length h} \<Longrightarrow> b \<notin> A \<Longrightarrow> agree A h (h[b := c])"
  by (metis agree_def length_list_update lessThan_iff nth_list_update_neq subsetD)

lemma agree_mono: "agree A h h' \<Longrightarrow> B \<subseteq> A \<Longrightarrow> agree B h h'"
  by (auto simp: agree_def)

lemma prefix_update: "prefix h h' \<Longrightarrow> length h \<le> b \<Longrightarrow> prefix h (h'[b := c])"
  by (auto simp: prefix_def list_update_append split: nat.split)

lemma prefix_alloc [simp]: "prefix h (h @ [c])"
  by simp

subsection \<open>What a deep copy is\<close>

text \<open>
  \<open>den h i\<close> is what the struct \<open>i\<close> stands for in the store \<open>h\<close>: the cells it reaches and its value, \<open>None\<close> when a
  pointer dangles. A deep copy changes no cell, and its result has the same value and reaches new cells
  only.
\<close>

type_synonym ('c, 'i, 'v) meaning = "'c list \<Rightarrow> 'i \<Rightarrow> (addr set \<times> 'v) option"

locale deep_copier =
  fixes copy :: "'i \<Rightarrow> 'c list \<Rightarrow> 'i \<times> 'c list"
    and den :: "('c, 'i, 'v) meaning"
  assumes reached: "den h i = Some (A, v) \<Longrightarrow> A \<subseteq> {..<length h}"
    and framed: "den h i = Some (A, v) \<Longrightarrow> agree A h h' \<Longrightarrow> den h' i = Some (A, v)"
    and copied: "den h i = Some (A, v) \<Longrightarrow>
      \<exists>j h' B. copy i h = (j, h') \<and> prefix h h' \<and> den h' j = Some (B, v) \<and> B \<subseteq> {length h..<length h'}"
begin

lemma extended: "den h i = Some (A, v) \<Longrightarrow> prefix h h' \<Longrightarrow> den h' i = Some (A, v)"
  by (meson agree_prefix framed reached)

text \<open>Writing to any other cell, or to the copy's, is not seen through the original, and the converse.\<close>

lemma independent:
  assumes "den h i = Some (A, v)" "copy i h = (j, h')"
  obtains B where "den h' j = Some (B, v)" "B \<inter> {..<length h} = {}" "den h' i = Some (A, v)" "A \<inter> B = {}"
proof -
  from copied [OF assms(1)] assms(2) obtain B where
    B: "prefix h h'" "den h' j = Some (B, v)" "B \<subseteq> {length h..<length h'}" by auto
  moreover from B(3) have "B \<inter> {..<length h} = {}" by auto
  moreover from reached [OF assms(1)] this have "A \<inter> B = {}" by auto
  ultimately show thesis using that extended [OF assms(1)] by blast
qed

lemma isolated:
  assumes "den h i = Some (A, v)" "copy i h = (j, h')"
  shows "\<exists>B. den h' j = Some (B, v) \<and> A \<inter> B = {} \<and> take (length h) h' = h
    \<and> (\<forall>h2. agree A h' h2 \<longrightarrow> den h2 i = Some (A, v)) \<and> (\<forall>h2. agree B h' h2 \<longrightarrow> den h2 j = Some (B, v))"
proof -
  from independent [OF assms] obtain B where
    B: "den h' j = Some (B, v)" "den h' i = Some (A, v)" "A \<inter> B = {}" by blast
  moreover have "take (length h) h' = h" using copied [OF assms(1)] assms(2) by (auto simp: prefix_def)
  ultimately show ?thesis using framed by blast
qed

end

text \<open>Two parts of a struct, copied one after the other.\<close>

definition copy_pair ::
  "('i \<Rightarrow> 'c list \<Rightarrow> 'i \<times> 'c list) \<Rightarrow> ('j \<Rightarrow> 'c list \<Rightarrow> 'j \<times> 'c list) \<Rightarrow> 'i \<times> 'j \<Rightarrow> 'c list \<Rightarrow> ('i \<times> 'j) \<times> 'c list" where
  "copy_pair f g x h = (let (a, h1) = f (fst x) h; (b, h2) = g (snd x) h1 in ((a, b), h2))"

definition den_pair ::
  "('c, 'i, 'v) meaning \<Rightarrow> ('c, 'j, 'w) meaning \<Rightarrow> ('c, 'i \<times> 'j, 'v \<times> 'w) meaning" where
  "den_pair d e h x =
     (case d h (fst x) of None \<Rightarrow> None
      | Some (A, v) \<Rightarrow> (case e h (snd x) of None \<Rightarrow> None | Some (B, w) \<Rightarrow> Some (A \<union> B, v, w)))"

lemma den_pair_Some:
  "den_pair d e h x = Some (C, u) \<longleftrightarrow>
     (\<exists>A B. d h (fst x) = Some (A, fst u) \<and> e h (snd x) = Some (B, snd u) \<and> C = A \<union> B)"
  by (cases u) (auto simp: den_pair_def split: option.splits)

locale two_copiers =
  l: deep_copier f d + r: deep_copier g e
  for f :: "'i \<Rightarrow> 'c list \<Rightarrow> 'i \<times> 'c list" and d :: "('c, 'i, 'v) meaning"
    and g :: "'j \<Rightarrow> 'c list \<Rightarrow> 'j \<times> 'c list" and e :: "('c, 'j, 'w) meaning"

sublocale two_copiers \<subseteq> pair: deep_copier "copy_pair f g" "den_pair d e"
proof
  fix h x C u
  assume "den_pair d e h x = Some (C, u)"
  then obtain A B where ab: "d h (fst x) = Some (A, fst u)" "e h (snd x) = Some (B, snd u)" "C = A \<union> B"
    by (auto simp: den_pair_Some)
  show "C \<subseteq> {..<length h}" using ab l.reached r.reached by blast
  show "den_pair d e h' x = Some (C, u)" if "agree C h h'" for h'
    using ab that l.framed [OF ab(1)] r.framed [OF ab(2)] by (auto simp: den_pair_Some agree_def)
  from l.copied [OF ab(1)] obtain a h1 A' where
    l: "f (fst x) h = (a, h1)" "prefix h h1" "d h1 a = Some (A', fst u)" "A' \<subseteq> {length h..<length h1}" by blast
  from r.copied [OF r.extended [OF ab(2) l(2)]] obtain b h2 B' where
    r: "g (snd x) h1 = (b, h2)" "prefix h1 h2" "e h2 b = Some (B', snd u)" "B' \<subseteq> {length h1..<length h2}" by blast
  have "length h \<le> length h1" "length h1 \<le> length h2" using l(2) r(2) by (auto dest: prefix_length_le)
  then have "A' \<union> B' \<subseteq> {length h..<length h2}" using l(4) r(4) by fastforce
  moreover have "den_pair d e h2 (a, b) = Some (A' \<union> B', u)"
    using l.extended [OF l(3) r(2)] r(3) by (auto simp: den_pair_Some)
  moreover have "prefix h h2" using l(2) r(2) by (rule prefix_order.trans)
  moreover have "copy_pair f g x h = ((a, b), h2)" using l(1) r(1) by (simp add: copy_pair_def)
  ultimately show "\<exists>j h' D. copy_pair f g x h = (j, h') \<and> prefix h h' \<and> den_pair d e h' j = Some (D, u)
      \<and> D \<subseteq> {length h..<length h'}" by blast
qed

context two_copiers begin

lemma pair_is_copier: "deep_copier (copy_pair f g) (den_pair d e)"
  by unfold_locales

end

text \<open>A part of a struct: \<open>get\<close> reads it, \<open>put\<close> replaces it, \<open>whole\<close> is the value of the struct around it.\<close>

definition copy_part ::
  "('s \<Rightarrow> 'i) \<Rightarrow> ('s \<Rightarrow> 'i \<Rightarrow> 's) \<Rightarrow> ('i \<Rightarrow> 'c list \<Rightarrow> 'i \<times> 'c list) \<Rightarrow> 's \<Rightarrow> 'c list \<Rightarrow> 's \<times> 'c list" where
  "copy_part get put f s h = (let (i, h1) = f (get s) h in (put s i, h1))"

definition den_part ::
  "('s \<Rightarrow> 'i) \<Rightarrow> ('s \<Rightarrow> 'v \<Rightarrow> 'w) \<Rightarrow> ('c, 'i, 'v) meaning \<Rightarrow> ('c, 's, 'w) meaning" where
  "den_part get whole d h s = map_option (\<lambda>(A, v). (A, whole s v)) (d h (get s))"

lemma den_part_Some:
  "den_part get whole d h s = Some (A, w) \<longleftrightarrow> (\<exists>v. d h (get s) = Some (A, v) \<and> w = whole s v)"
  by (auto simp: den_part_def)

locale part_copier =
  deep_copier f d for f :: "'i \<Rightarrow> 'c list \<Rightarrow> 'i \<times> 'c list" and d :: "('c, 'i, 'v) meaning" +
  fixes get :: "'s \<Rightarrow> 'i" and put :: "'s \<Rightarrow> 'i \<Rightarrow> 's" and whole :: "'s \<Rightarrow> 'v \<Rightarrow> 'w"
  assumes get_put: "get (put s i) = i"
    and whole_put: "whole (put s i) v = whole s v"

sublocale part_copier \<subseteq> part: deep_copier "copy_part get put f" "den_part get whole d"
proof
  fix h s A w
  assume "den_part get whole d h s = Some (A, w)"
  then obtain v where v: "d h (get s) = Some (A, v)" "w = whole s v" by (auto simp: den_part_Some)
  show "A \<subseteq> {..<length h}" by (rule reached [OF v(1)])
  show "den_part get whole d h' s = Some (A, w)" if "agree A h h'" for h'
    using framed [OF v(1) that] v(2) by (auto simp: den_part_Some)
  from copied [OF v(1)] obtain i h' B where
    c: "f (get s) h = (i, h')" "prefix h h'" "d h' i = Some (B, v)" "B \<subseteq> {length h..<length h'}" by blast
  moreover have "den_part get whole d h' (put s i) = Some (B, w)"
    using c(3) v(2) by (auto simp: den_part_Some get_put whole_put)
  ultimately show "\<exists>j h' B. copy_part get put f s h = (j, h') \<and> prefix h h' \<and> den_part get whole d h' j = Some (B, w)
      \<and> B \<subseteq> {length h..<length h'}"
    by (auto simp: copy_part_def)
qed

context part_copier begin

lemma part_is_copier: "deep_copier (copy_part get put f) (den_part get whole d)"
  by unfold_locales

end

subsection \<open>Pointers\<close>

text \<open>
  The shape of every \<open>DeepCopy\<close> and of a pointer field: nil stays nil; else a new cell is allocated and the
  copy written to it. \<open>mk\<close> and \<open>sel\<close> are the kind of cell that holds a \<open>T\<close>.
\<close>

definition new_copy ::
  "('i \<Rightarrow> 'c) \<Rightarrow> ('c \<Rightarrow> 'i option) \<Rightarrow> 'i \<Rightarrow> ('i \<Rightarrow> 'c list \<Rightarrow> 'i \<times> 'c list)
     \<Rightarrow> addr option \<Rightarrow> 'c list \<Rightarrow> addr option \<times> 'c list" where
  "new_copy mk sel zero into p h =
     (case p of
        None \<Rightarrow> (None, h)
      | Some a \<Rightarrow>
          (let (b, h1) = alloc (mk zero) h;
               (out, h2) = into (the (sel (h1 ! a))) h1
           in (Some b, h2[b := mk out])))"

definition den_ptr :: "('c \<Rightarrow> 'i option) \<Rightarrow> ('c, 'i, 'v) meaning \<Rightarrow> ('c, addr option, 'v option) meaning" where
  "den_ptr sel d h p =
     (case p of
        None \<Rightarrow> Some ({}, None)
      | Some a \<Rightarrow>
          (if a < length h then
             (case sel (h ! a) of
                None \<Rightarrow> None
              | Some i \<Rightarrow> map_option (\<lambda>(A, v). (insert a A, Some v)) (d h i))
           else None))"

lemma den_ptr_Some:
  "den_ptr sel d h (Some a) = Some (C, u) \<longleftrightarrow>
     a < length h \<and> (\<exists>i A v. sel (h ! a) = Some i \<and> d h i = Some (A, v) \<and> C = insert a A \<and> u = Some v)"
  by (auto simp: den_ptr_def split: option.splits)

lemma den_ptr_None [simp]: "den_ptr sel d h None = Some ({}, None)"
  by (simp add: den_ptr_def)

locale ptr_copier =
  deep_copier f d for f :: "'i \<Rightarrow> 'c list \<Rightarrow> 'i \<times> 'c list" and d :: "('c, 'i, 'v) meaning" +
  fixes mk :: "'i \<Rightarrow> 'c" and sel :: "'c \<Rightarrow> 'i option" and zero :: 'i
  assumes sel_mk: "sel (mk i) = Some i"

sublocale ptr_copier \<subseteq> ptr: deep_copier "new_copy mk sel zero f" "den_ptr sel d"
proof
  fix h p C u
  assume p: "den_ptr sel d h p = Some (C, u)"
  show "C \<subseteq> {..<length h}" using p by (cases p) (auto simp: den_ptr_Some dest: reached)
  show "den_ptr sel d h' p = Some (C, u)" if "agree C h h'" for h'
  proof (cases p)
    case None
    with p show ?thesis by simp
  next
    case (Some a)
    with p obtain i A v where i: "sel (h ! a) = Some i" "d h i = Some (A, v)" "C = insert a A" "u = Some v"
      by (auto simp: den_ptr_Some)
    with that have "d h' i = Some (A, v)" by (intro framed [OF i(2)]) (auto simp: agree_def)
    with Some i that show ?thesis by (auto simp: den_ptr_Some agree_def)
  qed
  show "\<exists>j h' D. new_copy mk sel zero f p h = (j, h') \<and> prefix h h' \<and> den_ptr sel d h' j = Some (D, u)
      \<and> D \<subseteq> {length h..<length h'}"
  proof (cases p)
    case None
    with p show ?thesis by (simp add: new_copy_def)
  next
    case (Some a)
    with p obtain i A v where i: "a < length h" "sel (h ! a) = Some i" "d h i = Some (A, v)" "u = Some v"
      by (auto simp: den_ptr_Some)
    let ?h1 = "h @ [mk zero]"
    from copied [OF extended [OF i(3) prefix_alloc]] obtain j h2 B where
      c: "f i ?h1 = (j, h2)" "prefix ?h1 h2" "d h2 j = Some (B, v)" "B \<subseteq> {length ?h1..<length h2}" by blast
    let ?h3 = "h2[length h := mk j]"
    have len: "length h < length h2" using prefix_length_le [OF c(2)] by simp
    have "d ?h3 j = Some (B, v)"
      using c(3,4) reached [OF c(3)] by (intro framed [OF c(3)] agree_update) auto
    then have "den_ptr sel d ?h3 (Some (length h)) = Some (insert (length h) B, u)"
      using len i(4) sel_mk by (auto simp: den_ptr_Some)
    moreover have "new_copy mk sel zero f p h = (Some (length h), ?h3)"
      using Some i(1,2) c(1) by (simp add: new_copy_def alloc_def nth_append)
    moreover have "prefix h ?h3"
      using prefix_order.trans [OF prefix_alloc c(2)] by (rule prefix_update) simp
    moreover have "insert (length h) B \<subseteq> {length h..<length ?h3}" using c(4) len by auto
    ultimately show ?thesis by blast
  qed
qed

context ptr_copier begin

lemma ptr_is_copier: "deep_copier (new_copy mk sel zero f) (den_ptr sel d)"
  by unfold_locales

end

subsection \<open>Slices\<close>

record slice =
  sl_array :: addr
  sl_offset :: nat
  sl_length :: nat

text \<open>\<open>s[i]\<close>, and one round of \<open>for i := range *in { (*in)[i].DeepCopyInto(&(*out)[i]) }\<close>.\<close>

definition elem :: "('c \<Rightarrow> 'i list option) \<Rightarrow> 'c list \<Rightarrow> slice \<Rightarrow> nat \<Rightarrow> 'i" where
  "elem sel h s i = the (sel (h ! sl_array s)) ! (sl_offset s + i)"

definition copy_elem ::
  "('i list \<Rightarrow> 'c) \<Rightarrow> ('c \<Rightarrow> 'i list option) \<Rightarrow> ('i \<Rightarrow> 'c list \<Rightarrow> 'i \<times> 'c list) \<Rightarrow> slice \<Rightarrow> addr
     \<Rightarrow> nat \<Rightarrow> 'c list \<Rightarrow> 'c list" where
  "copy_elem mk sel into s a i h =
     (let (out, h1) = into (elem sel h s i) h in h1[a := mk ((the (sel (h1 ! a)))[i := out])])"

definition copy_slice ::
  "('i list \<Rightarrow> 'c) \<Rightarrow> ('c \<Rightarrow> 'i list option) \<Rightarrow> 'i \<Rightarrow> ('i \<Rightarrow> 'c list \<Rightarrow> 'i \<times> 'c list)
     \<Rightarrow> slice option \<Rightarrow> 'c list \<Rightarrow> slice option \<times> 'c list" where
  "copy_slice mk sel zero into p h =
     (case p of
        None \<Rightarrow> (None, h)
      | Some s \<Rightarrow>
          (let (a, h1) = alloc (mk (replicate (sl_length s) zero)) h
           in (Some \<lparr>sl_array = a, sl_offset = 0, sl_length = sl_length s\<rparr>,
               fold (copy_elem mk sel into s a) [0..<sl_length s] h1)))"

fun den_list :: "('c, 'i, 'v) meaning \<Rightarrow> ('c, 'i list, 'v list) meaning" where
  "den_list d h [] = Some ({}, [])"
| "den_list d h (x # xs) =
     (case d h x of None \<Rightarrow> None
      | Some (A, v) \<Rightarrow> (case den_list d h xs of None \<Rightarrow> None | Some (B, vs) \<Rightarrow> Some (A \<union> B, v # vs)))"

definition den_slice :: "('c \<Rightarrow> 'i list option) \<Rightarrow> ('c, 'i, 'v) meaning \<Rightarrow> ('c, slice option, 'v list option) meaning" where
  "den_slice sel d h p =
     (case p of
        None \<Rightarrow> Some ({}, None)
      | Some s \<Rightarrow>
          (if sl_array s < length h then
             (case sel (h ! sl_array s) of
                None \<Rightarrow> None
              | Some xs \<Rightarrow>
                  if sl_offset s + sl_length s \<le> length xs then
                    map_option (\<lambda>(A, vs). (insert (sl_array s) A, Some vs))
                      (den_list d h (take (sl_length s) (drop (sl_offset s) xs)))
                  else None)
           else None))"

lemma ex_list_all2_Cons:
  "(\<exists>ys. list_all2 P (x # xs) ys \<and> Q ys) \<longleftrightarrow> (\<exists>y ys. P x y \<and> list_all2 P xs ys \<and> Q (y # ys))"
  by (auto simp: list_all2_Cons1)

lemma den_list_iff:
  "den_list d h xs = Some (A, vs) \<longleftrightarrow>
     (\<exists>ms. list_all2 (\<lambda>x m. d h x = Some m) xs ms \<and> A = \<Union> (fst ` set ms) \<and> vs = map snd ms)"
proof (induction xs arbitrary: A vs)
  case Nil
  then show ?case by auto
next
  case (Cons x xs)
  have "den_list d h (x # xs) = Some (A, vs) \<longleftrightarrow>
      (\<exists>m B ws. d h x = Some m \<and> den_list d h xs = Some (B, ws) \<and> A = fst m \<union> B \<and> vs = snd m # ws)"
    by (auto split: option.splits)
  also have "\<dots> \<longleftrightarrow> (\<exists>m ms. d h x = Some m \<and> list_all2 (\<lambda>x m. d h x = Some m) xs ms
      \<and> A = \<Union> (fst ` set (m # ms)) \<and> vs = map snd (m # ms))"
    unfolding Cons.IH by (simp, metis)
  finally show ?case by (simp only: ex_list_all2_Cons)
qed

lemma den_list_nth:
  "den_list d h xs = Some (A, vs) \<Longrightarrow> i < length xs \<Longrightarrow> \<exists>B. d h (xs ! i) = Some (B, vs ! i) \<and> B \<subseteq> A"
  by (auto simp: den_list_iff list_all2_conv_all_nth) (metis Sup_upper fst_conv image_eqI nth_mem prod.collapse)

lemma den_list_length: "den_list d h xs = Some (A, vs) \<Longrightarrow> length vs = length xs"
  by (auto simp: den_list_iff dest: list_all2_lengthD)

lemma den_list_intro:
  assumes "length vs = length xs" "\<And>i. i < length xs \<Longrightarrow> \<exists>B. d h (xs ! i) = Some (B, vs ! i) \<and> B \<subseteq> C"
  shows "\<exists>A. den_list d h xs = Some (A, vs) \<and> A \<subseteq> C"
  using assms
proof (induction xs arbitrary: vs)
  case Nil
  then show ?case by simp
next
  case (Cons x xs)
  then obtain v ws where vs: "vs = v # ws" "length ws = length xs" by (cases vs) auto
  from Cons.prems(2) [of 0] vs obtain B where "d h x = Some (B, v)" "B \<subseteq> C" by auto
  moreover from Cons.IH [OF vs(2)] Cons.prems(2) vs(1) obtain A where "den_list d h xs = Some (A, ws)" "A \<subseteq> C"
    by fastforce
  ultimately show ?case using vs(1) by auto
qed

lemma den_slice_None [simp]: "den_slice sel d h None = Some ({}, None)"
  by (simp add: den_slice_def)

lemma den_slice_Some:
  "den_slice sel d h (Some s) = Some (C, u) \<longleftrightarrow>
     sl_array s < length h
   \<and> (\<exists>xs A vs. sel (h ! sl_array s) = Some xs \<and> sl_offset s + sl_length s \<le> length xs
        \<and> den_list d h (take (sl_length s) (drop (sl_offset s) xs)) = Some (A, vs)
        \<and> C = insert (sl_array s) A \<and> u = Some vs)"
  by (auto simp: den_slice_def split: option.splits)

locale slice_copier =
  deep_copier f d for f :: "'i \<Rightarrow> 'c list \<Rightarrow> 'i \<times> 'c list" and d :: "('c, 'i, 'v) meaning" +
  fixes mk :: "'i list \<Rightarrow> 'c" and sel :: "'c \<Rightarrow> 'i list option" and zero :: 'i
  assumes sel_mk: "sel (mk xs) = Some xs"
begin

lemma framed_list:
  assumes "den_list d h xs = Some (A, vs)" "agree A h h'"
  shows "den_list d h' xs = Some (A, vs)"
  using assms
proof (induction xs arbitrary: A vs)
  case Nil
  then show ?case by simp
next
  case (Cons x xs)
  then obtain B v C ws where
    parts: "d h x = Some (B, v)" "den_list d h xs = Some (C, ws)" "A = B \<union> C" "vs = v # ws"
    by (auto split: option.splits)
  have "agree B h h'" "agree C h h'" using Cons.prems(2) parts(3) by (auto intro: agree_mono)
  then have "d h' x = Some (B, v)" "den_list d h' xs = Some (C, ws)"
    using framed [OF parts(1)] Cons.IH [OF parts(2)] by blast+
  with parts(3,4) show ?case by simp
qed

lemma reached_list: "den_list d h xs = Some (A, vs) \<Longrightarrow> A \<subseteq> {..<length h}"
proof (induction xs arbitrary: A vs)
  case Nil
  then show ?case by simp
next
  case (Cons x xs)
  then obtain B v C ws where "d h x = Some (B, v)" "den_list d h xs = Some (C, ws)" "A = B \<union> C"
    by (auto split: option.splits)
  then show ?case using reached Cons.IH by blast
qed

text \<open>The loop: after \<open>k\<close> rounds the first \<open>k\<close> elements of the new array are copies.\<close>

definition filled :: "'c list \<Rightarrow> nat \<Rightarrow> 'v list \<Rightarrow> nat \<Rightarrow> 'c list \<Rightarrow> bool" where
  "filled h n vs k h' \<longleftrightarrow>
     prefix h h' \<and> length h < length h'
   \<and> (\<exists>ys. sel (h' ! length h) = Some ys \<and> length ys = n
        \<and> (\<forall>j < k. \<exists>B. d h' (ys ! j) = Some (B, vs ! j) \<and> B \<subseteq> {Suc (length h)..<length h'}))"

lemma copy_elem_filled:
  assumes "den_slice sel d h (Some s) = Some (A, Some vs)" "filled h (sl_length s) vs k h1" "k < sl_length s"
  shows "filled h (sl_length s) vs (Suc k) (copy_elem mk sel f s (length h) k h1)"
proof -
  let ?a = "length h"
  from assms(1) obtain xs B where
    s: "sl_array s < length h" "sel (h ! sl_array s) = Some xs" "sl_offset s + sl_length s \<le> length xs"
      "den_list d h (take (sl_length s) (drop (sl_offset s) xs)) = Some (B, vs)"
    by (auto simp: den_slice_Some)
  from assms(2) obtain ys where
    y: "prefix h h1" "?a < length h1" "sel (h1 ! ?a) = Some ys" "length ys = sl_length s"
      "\<And>j. j < k \<Longrightarrow> \<exists>B. d h1 (ys ! j) = Some (B, vs ! j) \<and> B \<subseteq> {Suc ?a..<length h1}"
    by (auto simp: filled_def)
  have same: "h1 ! sl_array s = h ! sl_array s" using y(1) s(1) by (auto simp: prefix_def nth_append)
  then have e: "elem sel h1 s k = take (sl_length s) (drop (sl_offset s) xs) ! k"
    using s(2,3) assms(3) by (simp add: elem_def)
  from den_list_nth [OF s(4), of k] assms(3) s(3) obtain A0 where "d h (elem sel h1 s k) = Some (A0, vs ! k)"
    unfolding e by auto
  from copied [OF extended [OF this y(1)]] obtain i h2 B2 where
    c: "f (elem sel h1 s k) h1 = (i, h2)" "prefix h1 h2" "d h2 i = Some (B2, vs ! k)" "B2 \<subseteq> {length h1..<length h2}"
    by blast
  have a2: "h2 ! ?a = h1 ! ?a" "length h1 \<le> length h2" using c(2) y(2) by (auto simp: prefix_def nth_append)
  let ?h3 = "h2[?a := mk (ys[k := i])]"
  have step: "copy_elem mk sel f s ?a k h1 = ?h3" using c(1) a2(1) y(3) by (simp add: copy_elem_def)
  have keep: "d ?h3 x = Some (D, v)" if "d h2 x = Some (D, v)" "?a \<notin> D" for x D v
    using framed [OF that(1) agree_update] reached [OF that(1)] that(2) by blast
  have "\<exists>D. d ?h3 (ys[k := i] ! j) = Some (D, vs ! j) \<and> D \<subseteq> {Suc ?a..<length ?h3}" if j: "j < Suc k" for j
  proof (cases "j = k")
    case True
    have "?a \<notin> B2" "B2 \<subseteq> {Suc ?a..<length ?h3}" using c(4) y(2) by auto
    moreover have "ys[k := i] ! j = i" using True assms(3) y(4) by simp
    ultimately show ?thesis using keep [OF c(3)] True by metis
  next
    case False
    with j have "j < k" by simp
    from y(5) [OF this] obtain D where D: "d h1 (ys ! j) = Some (D, vs ! j)" "D \<subseteq> {Suc ?a..<length h1}" by blast
    have "?a \<notin> D" "D \<subseteq> {Suc ?a..<length ?h3}" using D(2) a2(2) by auto
    moreover have "ys[k := i] ! j = ys ! j" using False by simp
    ultimately show ?thesis using keep [OF extended [OF D(1) c(2)]] by metis
  qed
  moreover have "prefix h ?h3" using prefix_order.trans [OF y(1) c(2)] by (rule prefix_update) simp
  moreover have "sel (?h3 ! ?a) = Some (ys[k := i])" using y(2) a2(2) sel_mk by simp
  moreover have "length h < length ?h3" "length (ys[k := i]) = sl_length s" using y(2,4) a2(2) by auto
  ultimately show ?thesis unfolding step filled_def by blast
qed

lemma copy_elems_filled:
  assumes "den_slice sel d h (Some s) = Some (A, Some vs)" "k \<le> sl_length s"
  shows "filled h (sl_length s) vs k
    (fold (copy_elem mk sel f s (length h)) [0..<k] (h @ [mk (replicate (sl_length s) zero)]))"
  using assms(2)
proof (induction k)
  case 0
  then show ?case by (simp add: filled_def sel_mk)
next
  case (Suc k)
  then show ?case using copy_elem_filled [OF assms(1)] by simp
qed

end

sublocale slice_copier \<subseteq> slice: deep_copier "copy_slice mk sel zero f" "den_slice sel d"
proof
  fix h p C u
  assume p: "den_slice sel d h p = Some (C, u)"
  show "C \<subseteq> {..<length h}"
    using p by (cases p) (auto simp: den_slice_Some dest: reached_list)
  show "den_slice sel d h' p = Some (C, u)" if "agree C h h'" for h'
  proof (cases p)
    case None
    with p show ?thesis by simp
  next
    case (Some s)
    with p obtain xs A vs where s: "sel (h ! sl_array s) = Some xs" "sl_offset s + sl_length s \<le> length xs"
        "den_list d h (take (sl_length s) (drop (sl_offset s) xs)) = Some (A, vs)" "C = insert (sl_array s) A" "u = Some vs"
      by (auto simp: den_slice_Some)
    have "agree A h h'" using that s(4) by (auto intro: agree_mono)
    from framed_list [OF s(3) this] Some s that show ?thesis by (auto simp: den_slice_Some agree_def)
  qed
  show "\<exists>j h' D. copy_slice mk sel zero f p h = (j, h') \<and> prefix h h' \<and> den_slice sel d h' j = Some (D, u)
      \<and> D \<subseteq> {length h..<length h'}"
  proof (cases p)
    case None
    with p show ?thesis by (simp add: copy_slice_def)
  next
    case (Some s)
    with p obtain vs where u: "u = Some vs" by (auto simp: den_slice_Some)
    let ?h' = "fold (copy_elem mk sel f s (length h)) [0..<sl_length s] (h @ [mk (replicate (sl_length s) zero)])"
    have n: "length vs = sl_length s"
      using p u Some by (auto simp: den_slice_Some dest!: den_list_length)
    from copy_elems_filled [of h s C vs "sl_length s"] p u Some
    have "filled h (sl_length s) vs (sl_length s) ?h'" by simp
    then obtain ys where y: "prefix h ?h'" "length h < length ?h'" "sel (?h' ! length h) = Some ys" "length ys = sl_length s"
        "\<And>j. j < sl_length s \<Longrightarrow> \<exists>B. d ?h' (ys ! j) = Some (B, vs ! j) \<and> B \<subseteq> {Suc (length h)..<length ?h'}"
      by (auto simp: filled_def)
    have "length vs = length ys" using n y(4) by simp
    from den_list_intro [OF this, of d ?h'] y(4,5) obtain D where
      D: "den_list d ?h' ys = Some (D, vs)" "D \<subseteq> {Suc (length h)..<length ?h'}" by metis
    let ?s = "\<lparr>sl_array = length h, sl_offset = 0, sl_length = sl_length s\<rparr>"
    have "den_slice sel d ?h' (Some ?s) = Some (insert (length h) D, u)"
      using y(2-4) D(1) u by (auto simp: den_slice_Some)
    moreover have "insert (length h) D \<subseteq> {length h..<length ?h'}" using D(2) y(2) by auto
    moreover have "copy_slice mk sel zero f p h = (Some ?s, ?h')"
      using Some by (simp add: copy_slice_def alloc_def)
    ultimately show ?thesis using y(1) by blast
  qed
qed

context slice_copier begin

lemma slice_is_copier: "deep_copier (copy_slice mk sel zero f) (den_slice sel d)"
  by unfold_locales

end

lemma deep_copier_pair:
  "deep_copier f d \<Longrightarrow> deep_copier g e \<Longrightarrow> deep_copier (copy_pair f g) (den_pair d e)"
  by (rule two_copiers.pair_is_copier) (rule two_copiers.intro)

lemma deep_copier_part:
  assumes "deep_copier f d" "\<And>s i. get (put s i) = i" "\<And>s i v. whole (put s i) v = whole s v"
  shows "deep_copier (copy_part get put f) (den_part get whole d)"
  using assms by (intro part_copier.part_is_copier part_copier.intro part_copier_axioms.intro)

lemma deep_copier_ptr:
  "deep_copier f d \<Longrightarrow> (\<And>i. sel (mk i) = Some i) \<Longrightarrow> deep_copier (new_copy mk sel zero f) (den_ptr sel d)"
  by (intro ptr_copier.ptr_is_copier ptr_copier.intro ptr_copier_axioms.intro)

lemma deep_copier_slice:
  "deep_copier f d \<Longrightarrow> (\<And>xs. sel (mk xs) = Some xs) \<Longrightarrow> deep_copier (copy_slice mk sel zero f) (den_slice sel d)"
  by (intro slice_copier.slice_is_copier slice_copier.intro slice_copier_axioms.intro)

subsection \<open>The types\<close>

record extraction_struct =
  xs_ForEach :: "addr option"
  xs_Target :: string
  xs_DownloaderParams :: "addr option"
  xs_ProfileParams :: "addr option"

record 't spec_struct =
  ss_MatchCondition :: string
  ss_Extraction :: extraction_struct
  ss_PipelineTemplate :: 't

record status_struct =
  su_Conditions :: "slice option"

record ('m, 't) policy_struct =
  py_TypeMeta :: "string \<times> string"
  py_ObjectMeta :: 'm
  py_Spec :: "'t spec_struct"
  py_Status :: status_struct

record 'l list_struct =
  ls_TypeMeta :: "string \<times> string"
  ls_ListMeta :: 'l
  ls_Items :: "slice option"

datatype ('m, 't, 'c, 'l, 'b) cell =
    CString string
  | CExtraction extraction_struct
  | CSpec "'t spec_struct"
  | CStatus status_struct
  | CPolicy "('m, 't) policy_struct"
  | CPolicyList "'l list_struct"
  | CConditions "'c list"
  | CPolicies "('m, 't) policy_struct list"
  | CLib 'b

fun cell_string :: "('m, 't, 'c, 'l, 'b) cell \<Rightarrow> string option" where
  "cell_string (CString s) = Some s" | "cell_string _ = None"

fun cell_extraction :: "('m, 't, 'c, 'l, 'b) cell \<Rightarrow> extraction_struct option" where
  "cell_extraction (CExtraction s) = Some s" | "cell_extraction _ = None"

fun cell_spec :: "('m, 't, 'c, 'l, 'b) cell \<Rightarrow> 't spec_struct option" where
  "cell_spec (CSpec s) = Some s" | "cell_spec _ = None"

fun cell_status :: "('m, 't, 'c, 'l, 'b) cell \<Rightarrow> status_struct option" where
  "cell_status (CStatus s) = Some s" | "cell_status _ = None"

fun cell_policy :: "('m, 't, 'c, 'l, 'b) cell \<Rightarrow> ('m, 't) policy_struct option" where
  "cell_policy (CPolicy s) = Some s" | "cell_policy _ = None"

fun cell_list :: "('m, 't, 'c, 'l, 'b) cell \<Rightarrow> 'l list_struct option" where
  "cell_list (CPolicyList s) = Some s" | "cell_list _ = None"

fun cell_conditions :: "('m, 't, 'c, 'l, 'b) cell \<Rightarrow> 'c list option" where
  "cell_conditions (CConditions s) = Some s" | "cell_conditions _ = None"

fun cell_policies :: "('m, 't, 'c, 'l, 'b) cell \<Rightarrow> ('m, 't) policy_struct list option" where
  "cell_policies (CPolicies s) = Some s" | "cell_policies _ = None"

fun cell_lib :: "('m, 't, 'c, 'l, 'b) cell \<Rightarrow> 'b option" where
  "cell_lib (CLib s) = Some s" | "cell_lib _ = None"

text \<open>The deep copies of other packages, and their zero values.\<close>

type_synonym ('m, 't, 'c, 'l, 'b) heap = "('m, 't, 'c, 'l, 'b) cell list"

record ('m, 't, 'c, 'l, 'b) copy_lib =
  dc_ObjectMeta :: "'m \<Rightarrow> ('m, 't, 'c, 'l, 'b) heap \<Rightarrow> 'm \<times> ('m, 't, 'c, 'l, 'b) heap"
  dc_PipelineTemplate :: "'t \<Rightarrow> ('m, 't, 'c, 'l, 'b) heap \<Rightarrow> 't \<times> ('m, 't, 'c, 'l, 'b) heap"
  dc_Condition :: "'c \<Rightarrow> ('m, 't, 'c, 'l, 'b) heap \<Rightarrow> 'c \<times> ('m, 't, 'c, 'l, 'b) heap"
  dc_ListMeta :: "'l \<Rightarrow> ('m, 't, 'c, 'l, 'b) heap \<Rightarrow> 'l \<times> ('m, 't, 'c, 'l, 'b) heap"
  z_ObjectMeta :: 'm
  z_PipelineTemplate :: 't
  z_Condition :: 'c
  z_ListMeta :: 'l

definition zero_extraction :: extraction_struct where
  "zero_extraction = \<lparr>xs_ForEach = None, xs_Target = [], xs_DownloaderParams = None, xs_ProfileParams = None\<rparr>"

definition zero_spec :: "('m, 't, 'c, 'l, 'b) copy_lib \<Rightarrow> 't spec_struct" where
  "zero_spec L = \<lparr>ss_MatchCondition = [], ss_Extraction = zero_extraction, ss_PipelineTemplate = z_PipelineTemplate L\<rparr>"

definition zero_status :: status_struct where
  "zero_status = \<lparr>su_Conditions = None\<rparr>"

definition zero_policy :: "('m, 't, 'c, 'l, 'b) copy_lib \<Rightarrow> ('m, 't) policy_struct" where
  "zero_policy L =
     \<lparr>py_TypeMeta = ([], []), py_ObjectMeta = z_ObjectMeta L, py_Spec = zero_spec L, py_Status = zero_status\<rparr>"

definition zero_list :: "('m, 't, 'c, 'l, 'b) copy_lib \<Rightarrow> 'l list_struct" where
  "zero_list L = \<lparr>ls_TypeMeta = ([], []), ls_ListMeta = z_ListMeta L, ls_Items = None\<rparr>"

subsection \<open>The generated functions\<close>

text \<open>
  \<open>DeepCopyInto\<close> takes the struct that \<open>in\<close> points to and gives the one written to \<open>*out\<close>, which is another:
  every \<open>DeepCopy\<close> calls it with a new one. \<open>*out = *in\<close> copies the fields, the rest are updates.
\<close>

definition copy_string ::
  "addr option \<Rightarrow> ('m, 't, 'c, 'l, 'b) heap \<Rightarrow> addr option \<times> ('m, 't, 'c, 'l, 'b) heap" where
  "copy_string = new_copy CString cell_string [] Pair"

definition extraction_DeepCopyInto ::
  "extraction_struct \<Rightarrow> ('m, 't, 'c, 'l, 'b) heap \<Rightarrow> extraction_struct \<times> ('m, 't, 'c, 'l, 'b) heap" where
  "extraction_DeepCopyInto i h =
     (let (f, h1) = copy_string (xs_ForEach i) h;
          (d, h2) = copy_string (xs_DownloaderParams i) h1;
          (p, h3) = copy_string (xs_ProfileParams i) h2
      in (i\<lparr>xs_ForEach := f, xs_DownloaderParams := d, xs_ProfileParams := p\<rparr>, h3))"

definition spec_DeepCopyInto ::
  "('m, 't, 'c, 'l, 'b) copy_lib \<Rightarrow> 't spec_struct \<Rightarrow> ('m, 't, 'c, 'l, 'b) heap
     \<Rightarrow> 't spec_struct \<times> ('m, 't, 'c, 'l, 'b) heap" where
  "spec_DeepCopyInto L i h =
     (let (e, h1) = extraction_DeepCopyInto (ss_Extraction i) h;
          (t, h2) = dc_PipelineTemplate L (ss_PipelineTemplate i) h1
      in (i\<lparr>ss_Extraction := e, ss_PipelineTemplate := t\<rparr>, h2))"

definition status_DeepCopyInto ::
  "('m, 't, 'c, 'l, 'b) copy_lib \<Rightarrow> status_struct \<Rightarrow> ('m, 't, 'c, 'l, 'b) heap
     \<Rightarrow> status_struct \<times> ('m, 't, 'c, 'l, 'b) heap" where
  "status_DeepCopyInto L i h =
     (let (c, h1) = copy_slice CConditions cell_conditions (z_Condition L) (dc_Condition L) (su_Conditions i) h
      in (i\<lparr>su_Conditions := c\<rparr>, h1))"

definition policy_DeepCopyInto ::
  "('m, 't, 'c, 'l, 'b) copy_lib \<Rightarrow> ('m, 't) policy_struct \<Rightarrow> ('m, 't, 'c, 'l, 'b) heap
     \<Rightarrow> ('m, 't) policy_struct \<times> ('m, 't, 'c, 'l, 'b) heap" where
  "policy_DeepCopyInto L i h =
     (let (m, h1) = dc_ObjectMeta L (py_ObjectMeta i) h;
          (s, h2) = spec_DeepCopyInto L (py_Spec i) h1;
          (u, h3) = status_DeepCopyInto L (py_Status i) h2
      in (i\<lparr>py_ObjectMeta := m, py_Spec := s, py_Status := u\<rparr>, h3))"

definition list_DeepCopyInto ::
  "('m, 't, 'c, 'l, 'b) copy_lib \<Rightarrow> 'l list_struct \<Rightarrow> ('m, 't, 'c, 'l, 'b) heap
     \<Rightarrow> 'l list_struct \<times> ('m, 't, 'c, 'l, 'b) heap" where
  "list_DeepCopyInto L i h =
     (let (m, h1) = dc_ListMeta L (ls_ListMeta i) h;
          (s, h2) = copy_slice CPolicies cell_policies (zero_policy L) (policy_DeepCopyInto L) (ls_Items i) h1
      in (i\<lparr>ls_ListMeta := m, ls_Items := s\<rparr>, h2))"

definition extraction_DeepCopy ::
  "addr option \<Rightarrow> ('m, 't, 'c, 'l, 'b) heap \<Rightarrow> addr option \<times> ('m, 't, 'c, 'l, 'b) heap" where
  "extraction_DeepCopy = new_copy CExtraction cell_extraction zero_extraction extraction_DeepCopyInto"

definition spec_DeepCopy ::
  "('m, 't, 'c, 'l, 'b) copy_lib \<Rightarrow> addr option \<Rightarrow> ('m, 't, 'c, 'l, 'b) heap \<Rightarrow> addr option \<times> ('m, 't, 'c, 'l, 'b) heap" where
  "spec_DeepCopy L = new_copy CSpec cell_spec (zero_spec L) (spec_DeepCopyInto L)"

definition status_DeepCopy ::
  "('m, 't, 'c, 'l, 'b) copy_lib \<Rightarrow> addr option \<Rightarrow> ('m, 't, 'c, 'l, 'b) heap \<Rightarrow> addr option \<times> ('m, 't, 'c, 'l, 'b) heap" where
  "status_DeepCopy L = new_copy CStatus cell_status zero_status (status_DeepCopyInto L)"

definition policy_DeepCopy ::
  "('m, 't, 'c, 'l, 'b) copy_lib \<Rightarrow> addr option \<Rightarrow> ('m, 't, 'c, 'l, 'b) heap \<Rightarrow> addr option \<times> ('m, 't, 'c, 'l, 'b) heap" where
  "policy_DeepCopy L = new_copy CPolicy cell_policy (zero_policy L) (policy_DeepCopyInto L)"

definition list_DeepCopy ::
  "('m, 't, 'c, 'l, 'b) copy_lib \<Rightarrow> addr option \<Rightarrow> ('m, 't, 'c, 'l, 'b) heap \<Rightarrow> addr option \<times> ('m, 't, 'c, 'l, 'b) heap" where
  "list_DeepCopy L = new_copy CPolicyList cell_list (zero_list L) (list_DeepCopyInto L)"

text \<open>An interface value: nil, or a pointer with its dynamic type. A nil pointer in an interface is not nil.\<close>

datatype runtime_object = NilObject | PolicyObject "addr option" | PolicyListObject "addr option"

definition policy_DeepCopyObject ::
  "('m, 't, 'c, 'l, 'b) copy_lib \<Rightarrow> addr option \<Rightarrow> ('m, 't, 'c, 'l, 'b) heap \<Rightarrow> runtime_object \<times> ('m, 't, 'c, 'l, 'b) heap" where
  "policy_DeepCopyObject L i h =
     (let (c, h1) = policy_DeepCopy L i h in (if c \<noteq> None then PolicyObject c else NilObject, h1))"

definition list_DeepCopyObject ::
  "('m, 't, 'c, 'l, 'b) copy_lib \<Rightarrow> addr option \<Rightarrow> ('m, 't, 'c, 'l, 'b) heap \<Rightarrow> runtime_object \<times> ('m, 't, 'c, 'l, 'b) heap" where
  "list_DeepCopyObject L i h =
     (let (c, h1) = list_DeepCopy L i h in (if c \<noteq> None then PolicyListObject c else NilObject, h1))"

subsection \<open>What the structs stand for\<close>

abbreviation plain :: "('c, 'i, 'i) meaning" where
  "plain h i \<equiv> Some ({}, i)"

abbreviation den_string :: "(('m, 't, 'c, 'l, 'b) cell, addr option, string option) meaning" where
  "den_string \<equiv> den_ptr cell_string plain"

type_synonym 'tv spec_value = "string \<times> extraction \<times> 'tv"
type_synonym ('mv, 'tv, 'cv) policy_value = "(string \<times> string) \<times> 'mv \<times> 'tv spec_value \<times> 'cv list option"

definition den_extraction :: "(('m, 't, 'c, 'l, 'b) cell, extraction_struct, extraction) meaning" where
  "den_extraction =
     den_part (\<lambda>x. (xs_ForEach x, xs_DownloaderParams x, xs_ProfileParams x))
       (\<lambda>x (f, d, p). \<lparr>ex_forEach = f, ex_target = xs_Target x, ex_downloaderParams = d, ex_profileParams = p\<rparr>)
       (den_pair den_string (den_pair den_string den_string))"

definition den_spec ::
  "(('m, 't, 'c, 'l, 'b) cell, 't, 'tv) meaning \<Rightarrow> (('m, 't, 'c, 'l, 'b) cell, 't spec_struct, 'tv spec_value) meaning" where
  "den_spec dt =
     den_part (\<lambda>x. (ss_Extraction x, ss_PipelineTemplate x)) (\<lambda>x (e, t). (ss_MatchCondition x, e, t))
       (den_pair den_extraction dt)"

definition den_status ::
  "(('m, 't, 'c, 'l, 'b) cell, 'c, 'cv) meaning \<Rightarrow> (('m, 't, 'c, 'l, 'b) cell, status_struct, 'cv list option) meaning" where
  "den_status dc = den_part su_Conditions (\<lambda>x cs. cs) (den_slice cell_conditions dc)"

definition den_policy ::
  "(('m, 't, 'c, 'l, 'b) cell, 'm, 'mv) meaning \<Rightarrow> (('m, 't, 'c, 'l, 'b) cell, 't, 'tv) meaning
     \<Rightarrow> (('m, 't, 'c, 'l, 'b) cell, 'c, 'cv) meaning
     \<Rightarrow> (('m, 't, 'c, 'l, 'b) cell, ('m, 't) policy_struct, ('mv, 'tv, 'cv) policy_value) meaning" where
  "den_policy dm dt dc =
     den_part (\<lambda>x. (py_ObjectMeta x, py_Spec x, py_Status x)) (\<lambda>x v. (py_TypeMeta x, v))
       (den_pair dm (den_pair (den_spec dt) (den_status dc)))"

definition den_policy_list ::
  "(('m, 't, 'c, 'l, 'b) cell, 'm, 'mv) meaning \<Rightarrow> (('m, 't, 'c, 'l, 'b) cell, 't, 'tv) meaning
     \<Rightarrow> (('m, 't, 'c, 'l, 'b) cell, 'c, 'cv) meaning \<Rightarrow> (('m, 't, 'c, 'l, 'b) cell, 'l, 'lv) meaning
     \<Rightarrow> (('m, 't, 'c, 'l, 'b) cell, 'l list_struct,
          (string \<times> string) \<times> 'lv \<times> ('mv, 'tv, 'cv) policy_value list option) meaning" where
  "den_policy_list dm dt dc dl =
     den_part (\<lambda>x. (ls_ListMeta x, ls_Items x)) (\<lambda>x v. (ls_TypeMeta x, v))
       (den_pair dl (den_slice cell_policies (den_policy dm dt dc)))"

subsection \<open>The generated functions are deep copies\<close>

lemma plain_copier: "deep_copier Pair plain"
  by unfold_locales (auto simp: agree_def)

interpretation strings: ptr_copier Pair plain CString cell_string "[]"
  by (intro ptr_copier.intro plain_copier ptr_copier_axioms.intro) simp

lemma copy_string_copier: "deep_copier copy_string den_string"
  unfolding copy_string_def by (rule strings.ptr_is_copier)

interpretation two_strings: two_copiers copy_string den_string copy_string den_string
  by (intro two_copiers.intro copy_string_copier)

lemma extraction_as_part:
  "extraction_DeepCopyInto =
     copy_part (\<lambda>x. (xs_ForEach x, xs_DownloaderParams x, xs_ProfileParams x))
       (\<lambda>x (f, d, p). x\<lparr>xs_ForEach := f, xs_DownloaderParams := d, xs_ProfileParams := p\<rparr>)
       (copy_pair copy_string (copy_pair copy_string copy_string))"
  by (intro ext) (simp add: extraction_DeepCopyInto_def copy_part_def copy_pair_def Let_def split_beta)

lemma spec_as_part:
  "spec_DeepCopyInto L =
     copy_part (\<lambda>x. (ss_Extraction x, ss_PipelineTemplate x)) (\<lambda>x (e, t). x\<lparr>ss_Extraction := e, ss_PipelineTemplate := t\<rparr>)
       (copy_pair extraction_DeepCopyInto (dc_PipelineTemplate L))"
  by (intro ext) (simp add: spec_DeepCopyInto_def copy_part_def copy_pair_def Let_def split_beta)

lemma status_as_part:
  "status_DeepCopyInto L =
     copy_part su_Conditions (\<lambda>x c. x\<lparr>su_Conditions := c\<rparr>)
       (copy_slice CConditions cell_conditions (z_Condition L) (dc_Condition L))"
  by (intro ext) (simp add: status_DeepCopyInto_def copy_part_def)

lemma policy_as_part:
  "policy_DeepCopyInto L =
     copy_part (\<lambda>x. (py_ObjectMeta x, py_Spec x, py_Status x))
       (\<lambda>x (m, s, u). x\<lparr>py_ObjectMeta := m, py_Spec := s, py_Status := u\<rparr>)
       (copy_pair (dc_ObjectMeta L) (copy_pair (spec_DeepCopyInto L) (status_DeepCopyInto L)))"
  by (intro ext) (simp add: policy_DeepCopyInto_def copy_part_def copy_pair_def Let_def split_beta)

lemma list_as_part:
  "list_DeepCopyInto L =
     copy_part (\<lambda>x. (ls_ListMeta x, ls_Items x)) (\<lambda>x (m, s). x\<lparr>ls_ListMeta := m, ls_Items := s\<rparr>)
       (copy_pair (dc_ListMeta L) (copy_slice CPolicies cell_policies (zero_policy L) (policy_DeepCopyInto L)))"
  by (intro ext) (simp add: list_DeepCopyInto_def copy_part_def copy_pair_def Let_def split_beta)

interpretation extraction_part: part_copier
  "copy_pair copy_string (copy_pair copy_string copy_string)" "den_pair den_string (den_pair den_string den_string)"
  "\<lambda>x. (xs_ForEach x, xs_DownloaderParams x, xs_ProfileParams x)"
  "\<lambda>x (f, d, p). x\<lparr>xs_ForEach := f, xs_DownloaderParams := d, xs_ProfileParams := p\<rparr>"
  "\<lambda>x (f, d, p). \<lparr>ex_forEach = f, ex_target = xs_Target x, ex_downloaderParams = d, ex_profileParams = p\<rparr>"
  by (intro part_copier.intro deep_copier_pair copy_string_copier two_strings.pair_is_copier part_copier_axioms.intro) auto

lemma extraction_copier: "deep_copier extraction_DeepCopyInto den_extraction"
  unfolding extraction_as_part den_extraction_def by (rule extraction_part.part_is_copier)

interpretation extraction: deep_copier extraction_DeepCopyInto den_extraction
  by (rule extraction_copier)

lemma extraction_ptr_copier: "deep_copier extraction_DeepCopy (den_ptr cell_extraction den_extraction)"
  unfolding extraction_DeepCopy_def by (rule deep_copier_ptr [OF extraction_copier]) simp

text \<open>The other types, given that the other packages' functions are deep copies.\<close>

locale copy_library =
  meta: deep_copier "dc_ObjectMeta L" dm + template: deep_copier "dc_PipelineTemplate L" dt
    + cond: deep_copier "dc_Condition L" dc + lmeta: deep_copier "dc_ListMeta L" dl
  for L :: "('m, 't, 'c, 'l, 'b) copy_lib"
    and dm :: "(('m, 't, 'c, 'l, 'b) cell, 'm, 'mv) meaning" and dt :: "(('m, 't, 'c, 'l, 'b) cell, 't, 'tv) meaning"
    and dc :: "(('m, 't, 'c, 'l, 'b) cell, 'c, 'cv) meaning" and dl :: "(('m, 't, 'c, 'l, 'b) cell, 'l, 'lv) meaning"
begin

lemma spec_copier: "deep_copier (spec_DeepCopyInto L) (den_spec dt)"
  unfolding spec_as_part den_spec_def
  by (intro deep_copier_part deep_copier_pair extraction_copier template.deep_copier_axioms) auto

lemma status_copier: "deep_copier (status_DeepCopyInto L) (den_status dc)"
  unfolding status_as_part den_status_def
  by (intro deep_copier_part deep_copier_slice cond.deep_copier_axioms) auto

lemma policy_copier: "deep_copier (policy_DeepCopyInto L) (den_policy dm dt dc)"
  unfolding policy_as_part den_policy_def
  by (intro deep_copier_part deep_copier_pair spec_copier status_copier meta.deep_copier_axioms) auto

lemma list_copier: "deep_copier (list_DeepCopyInto L) (den_policy_list dm dt dc dl)"
  unfolding list_as_part den_policy_list_def
  by (intro deep_copier_part deep_copier_pair deep_copier_slice policy_copier lmeta.deep_copier_axioms) auto

end

sublocale copy_library \<subseteq> policy: deep_copier "policy_DeepCopy L" "den_ptr cell_policy (den_policy dm dt dc)"
  unfolding policy_DeepCopy_def by (rule deep_copier_ptr [OF policy_copier]) simp

sublocale copy_library \<subseteq> policies: deep_copier "list_DeepCopy L" "den_ptr cell_list (den_policy_list dm dt dc dl)"
  unfolding list_DeepCopy_def by (rule deep_copier_ptr [OF list_copier]) simp

context copy_library begin

lemma policy_is_copier: "deep_copier (policy_DeepCopy L) (den_ptr cell_policy (den_policy dm dt dc))"
  by unfold_locales

lemma policy_list_is_copier: "deep_copier (list_DeepCopy L) (den_ptr cell_list (den_policy_list dm dt dc dl))"
  by unfold_locales

lemma spec_ptr_copier: "deep_copier (spec_DeepCopy L) (den_ptr cell_spec (den_spec dt))"
  unfolding spec_DeepCopy_def by (rule deep_copier_ptr [OF spec_copier]) simp

lemma status_ptr_copier: "deep_copier (status_DeepCopy L) (den_ptr cell_status (den_status dc))"
  unfolding status_DeepCopy_def by (rule deep_copier_ptr [OF status_copier]) simp

end

subsection \<open>A concrete library\<close>

text \<open>
  The metadata of an object as a name and a pointer to a map, a template as a pointer to its text, a condition and
  the metadata of a list as plain structs.
\<close>

type_synonym ref_heap = "(string \<times> addr option, addr option, string \<times> string, string, (string \<times> string) list) heap"

abbreviation ref_meta :: "((string \<times> addr option, addr option, string \<times> string, string, (string \<times> string) list) cell,
    string \<times> addr option, string \<times> (string \<times> string) list option) meaning" where
  "ref_meta \<equiv> den_part snd (\<lambda>m v. (fst m, v)) (den_ptr cell_lib plain)"

definition ref_copy_lib ::
  "(string \<times> addr option, addr option, string \<times> string, string, (string \<times> string) list) copy_lib" where
  "ref_copy_lib =
     \<lparr>dc_ObjectMeta = copy_part snd (\<lambda>m l. (fst m, l)) (new_copy CLib cell_lib [] Pair),
      dc_PipelineTemplate = copy_string, dc_Condition = Pair, dc_ListMeta = Pair,
      z_ObjectMeta = ([], None), z_PipelineTemplate = None, z_Condition = ([], []), z_ListMeta = []\<rparr>"

interpretation refcopy: copy_library ref_copy_lib ref_meta den_string plain plain
proof (intro copy_library.intro)
  show "deep_copier (dc_ObjectMeta ref_copy_lib) ref_meta"
    unfolding ref_copy_lib_def copy_lib.simps
    by (intro deep_copier_part deep_copier_ptr plain_copier) auto
qed (simp_all add: ref_copy_lib_def copy_string_copier plain_copier)

interpretation policy_array: slice_copier "policy_DeepCopyInto ref_copy_lib" "den_policy ref_meta den_string plain"
  CPolicies cell_policies "zero_policy ref_copy_lib"
  by (intro slice_copier.intro refcopy.policy_copier slice_copier_axioms.intro) simp

definition demo_heap :: ref_heap where
  "demo_heap =
     [CString ''report._CHALKS'', CLib [(''team'', ''a'')], CConditions [(''Old'', ''True''), (''Ready'', ''True'')],
      CPolicy \<lparr>py_TypeMeta = (''ChalkReportPolicy'', ''v1beta1''), py_ObjectMeta = (''scan'', Some 1),
        py_Spec = \<lparr>ss_MatchCondition = ''true'',
          ss_Extraction = \<lparr>xs_ForEach = Some 0, xs_Target = ''each'', xs_DownloaderParams = None, xs_ProfileParams = Some 0\<rparr>,
          ss_PipelineTemplate = None\<rparr>,
        py_Status = \<lparr>su_Conditions = Some \<lparr>sl_array = 2, sl_offset = 1, sl_length = 1\<rparr>\<rparr>\<rparr>]"

subsection \<open>The properties\<close>

text \<open>
  C21. A deep copy is a copy, and independent. When a pointer to a policy stands for the value \<open>v\<close> in the store and
  reaches the cells \<open>A\<close>, then \<open>DeepCopy\<close> changes no cell of the store, and its result stands for \<open>v\<close> too and
  reaches none of the old cells; so whatever is written later anywhere but in \<open>A\<close>, through the copy say, the
  original keeps its value, and the copy keeps its own whatever is written outside the cells it reaches.
\<close>

theorem deep_copy_independent:
  assumes "copy_library L dm dt dc dl" "den_ptr cell_policy (den_policy dm dt dc) h p = Some (A, v)"
    "policy_DeepCopy L p h = (q, h')"
  shows "\<exists>B. den_ptr cell_policy (den_policy dm dt dc) h' q = Some (B, v) \<and> A \<inter> B = {} \<and> take (length h) h' = h
     \<and> (\<forall>h2. agree A h' h2 \<longrightarrow> den_ptr cell_policy (den_policy dm dt dc) h2 p = Some (A, v))
     \<and> (\<forall>h2. agree B h' h2 \<longrightarrow> den_ptr cell_policy (den_policy dm dt dc) h2 q = Some (B, v))"
  using deep_copier.isolated [OF copy_library.policy_is_copier [OF assms(1)] assms(2,3)] by blast

theorem deep_copy_independent_witness:
  "\<exists>q h' B. policy_DeepCopy ref_copy_lib (Some 3) demo_heap = (q, h')
     \<and> (let v = Some ((''ChalkReportPolicy'', ''v1beta1''), (''scan'', Some [(''team'', ''a'')]),
                 (''true'', \<lparr>ex_forEach = Some ''report._CHALKS'', ex_target = ''each'', ex_downloaderParams = None,
                              ex_profileParams = Some ''report._CHALKS''\<rparr>, None), Some [(''Ready'', ''True'')])
        in den_ptr cell_policy (den_policy ref_meta den_string plain) h' q = Some (B, v) \<and> {0, 1, 2, 3} \<inter> B = {}
         \<and> (\<forall>a c. a \<in> B \<longrightarrow> den_ptr cell_policy (den_policy ref_meta den_string plain) (h'[a := c]) (Some 3)
              = Some ({0, 1, 2, 3}, v)))"
proof -
  let ?v = "Some ((''ChalkReportPolicy'', ''v1beta1''), (''scan'', Some [(''team'', ''a'')]),
                 (''true'', \<lparr>ex_forEach = Some ''report._CHALKS'', ex_target = ''each'', ex_downloaderParams = None,
                              ex_profileParams = Some ''report._CHALKS''\<rparr>, None), Some [(''Ready'', ''True'')])"
  have d: "den_ptr cell_policy (den_policy ref_meta den_string plain) demo_heap (Some 3) = Some ({0, 1, 2, 3}, ?v)"
    by (auto simp: demo_heap_def den_ptr_def den_policy_def den_spec_def den_status_def den_extraction_def den_part_def
        den_pair_def den_slice_def)
  obtain q h' where c: "policy_DeepCopy ref_copy_lib (Some 3) demo_heap = (q, h')" by force
  from deep_copy_independent [OF refcopy.copy_library_axioms d c] obtain B where
    B: "den_ptr cell_policy (den_policy ref_meta den_string plain) h' q = Some (B, ?v)" "{0, 1, 2, 3} \<inter> B = {}"
    "take (length demo_heap) h' = demo_heap"
    "\<And>h2. agree {0, 1, 2, 3} h' h2 \<Longrightarrow> den_ptr cell_policy (den_policy ref_meta den_string plain) h2 (Some 3)
       = Some ({0, 1, 2, 3}, ?v)" by blast
  have len: "4 \<le> length h'" using arg_cong [OF B(3), of length] by (simp add: demo_heap_def)
  have "agree {0, 1, 2, 3} h' (h'[a := c])" if "a \<in> B" for a c
  proof (rule agree_update)
    show "{0, 1, 2, 3} \<subseteq> {..<length h'}" using len by auto
    show "a \<notin> {0, 1, 2, 3}" using B(2) that by blast
  qed
  with B(1,2,4) c show ?thesis by (auto simp: Let_def simp del: One_nat_def)
qed

text \<open>The same for lists of policies, whose array is copied element by element.\<close>

theorem deep_copy_list_independent:
  assumes "copy_library L dm dt dc dl" "den_ptr cell_list (den_policy_list dm dt dc dl) h p = Some (A, v)"
    "list_DeepCopy L p h = (q, h')"
  shows "\<exists>B. den_ptr cell_list (den_policy_list dm dt dc dl) h' q = Some (B, v) \<and> A \<inter> B = {} \<and> take (length h) h' = h
     \<and> (\<forall>h2. agree A h' h2 \<longrightarrow> den_ptr cell_list (den_policy_list dm dt dc dl) h2 p = Some (A, v))
     \<and> (\<forall>h2. agree B h' h2 \<longrightarrow> den_ptr cell_list (den_policy_list dm dt dc dl) h2 q = Some (B, v))"
  using deep_copier.isolated [OF copy_library.policy_list_is_copier [OF assms(1)] assms(2,3)] by blast

text \<open>
  Every generated \<open>DeepCopyObject\<close> gives the nil interface for nil, not an interface that holds a nil pointer, and
  else an interface that holds a new one.
\<close>

theorem deep_copy_object_nil:
  "fst (policy_DeepCopyObject L p h) = NilObject \<longleftrightarrow> p = None"
  "fst (list_DeepCopyObject L p h) = NilObject \<longleftrightarrow> p = None"
  "fst (policy_DeepCopyObject L p h) \<noteq> PolicyObject None"
  "fst (list_DeepCopyObject L p h) \<noteq> PolicyListObject None"
  by (auto simp: policy_DeepCopyObject_def list_DeepCopyObject_def policy_DeepCopy_def list_DeepCopy_def new_copy_def
      Let_def split_beta split: option.splits)

end
