(* ===== verification/Clientset.thy ===== *)
theory Clientset
  imports Api_Types
begin

section \<open>The generated clientset\<close>

text \<open>
  \<^verbatim>\<open>pkg/generated/clientset/clientset.go\<close>, its API client
  (\<^verbatim>\<open>typed/api/v1beta1/api_client.go\<close>, \<^verbatim>\<open>chalkreportpolicy.go\<close>) and the registration of types in a scheme
  (\<^verbatim>\<open>api/v1beta1/groupversion_info.go\<close>). What client-go builds is the record \<open>rest_lib\<close> on an external world \<open>'w\<close>:
  an HTTP client \<open>'h\<close>, a REST client \<open>'c\<close>, a discovery client \<open>'d\<close>, a rate limiter \<open>'r\<close>, each call with its error.
\<close>

subsection \<open>Configuration\<close>

text \<open>
  The fields of \<open>rest.Config\<close> that the code reads or writes; the others are \<open>'x\<close>, the codec \<open>'s\<close>. \<open>QPS\<close> is a
  floating-point number \<open>'q\<close> that is only compared with 0.
\<close>

record ('q, 'r, 's, 'x) rest_config =
  cf_UserAgent :: string
  cf_QPS :: 'q
  cf_Burst :: int
  cf_RateLimiter :: "'r option"
  cf_GroupVersion :: "(string \<times> string) option"
  cf_APIPath :: string
  cf_NegotiatedSerializer :: "'s option"
  cf_rest :: 'x

record ('q, 'r, 's, 'x, 'h, 'c, 'd, 'w) rest_lib =
  rl_DefaultKubernetesUserAgent :: string
  rl_qps_positive :: "'q \<Rightarrow> bool"
  rl_serializer :: 's
  rl_HTTPClientFor :: "('q, 'r, 's, 'x) rest_config \<Rightarrow> 'w \<Rightarrow> 'h res \<times> 'w"
  rl_NewTokenBucketRateLimiter :: "'q \<Rightarrow> int \<Rightarrow> 'w \<Rightarrow> 'r \<times> 'w"
  rl_RESTClientForConfigAndClient :: "('q, 'r, 's, 'x) rest_config \<Rightarrow> 'h \<Rightarrow> 'w \<Rightarrow> 'c res \<times> 'w"
  rl_NewDiscoveryClientForConfigAndClient :: "('q, 'r, 's, 'x) rest_config \<Rightarrow> 'h \<Rightarrow> 'w \<Rightarrow> 'd res \<times> 'w"
  rl_NewDiscoveryClient :: "'c \<Rightarrow> 'd"

subsection \<open>The API client\<close>

definition Group :: string where
  "Group = ''chalk.ocular.crashoverride.run''"

definition Version :: string where
  "Version = ''v1beta1''"

definition SchemeGroupVersion :: "string \<times> string" where
  "SchemeGroupVersion = (Group, Version)"

record 'c api_client =
  ac_restClient :: 'c

definition setConfigDefaults ::
  "('q, 'r, 's, 'x, 'h, 'c, 'd, 'w) rest_lib \<Rightarrow> ('q, 'r, 's, 'x) rest_config \<Rightarrow> ('q, 'r, 's, 'x) rest_config" where
  "setConfigDefaults L c =
     (let c1 = c\<lparr>cf_GroupVersion := Some SchemeGroupVersion, cf_APIPath := ''/apis'',
                 cf_NegotiatedSerializer := Some (rl_serializer L)\<rparr>
      in if cf_UserAgent c1 = '''' then c1\<lparr>cf_UserAgent := rl_DefaultKubernetesUserAgent L\<rparr> else c1)"

definition api_NewForConfigAndClient ::
  "('q, 'r, 's, 'x, 'h, 'c, 'd, 'w) rest_lib \<Rightarrow> ('q, 'r, 's, 'x) rest_config \<Rightarrow> 'h \<Rightarrow> 'w \<Rightarrow> 'c api_client res \<times> 'w" where
  "api_NewForConfigAndClient L c h w =
     (case rl_RESTClientForConfigAndClient L (setConfigDefaults L c) h w of
        (Inl err, w1) \<Rightarrow> (Inl err, w1)
      | (Inr client, w1) \<Rightarrow> (Inr \<lparr>ac_restClient = client\<rparr>, w1))"

definition api_NewForConfig ::
  "('q, 'r, 's, 'x, 'h, 'c, 'd, 'w) rest_lib \<Rightarrow> ('q, 'r, 's, 'x) rest_config \<Rightarrow> 'w \<Rightarrow> 'c api_client res \<times> 'w" where
  "api_NewForConfig L c w =
     (let config = setConfigDefaults L c
      in case rl_HTTPClientFor L config w of
           (Inl err, w1) \<Rightarrow> (Inl err, w1)
         | (Inr httpClient, w1) \<Rightarrow> api_NewForConfigAndClient L config httpClient w1)"

definition or_die :: "'a res \<times> 'w \<Rightarrow> 'a outcome \<times> 'w" where
  "or_die r = (case r of (Inl err, w) \<Rightarrow> (Panic, w) | (Inr x, w) \<Rightarrow> (Return x, w))"

definition api_NewForConfigOrDie ::
  "('q, 'r, 's, 'x, 'h, 'c, 'd, 'w) rest_lib \<Rightarrow> ('q, 'r, 's, 'x) rest_config \<Rightarrow> 'w \<Rightarrow> 'c api_client outcome \<times> 'w" where
  "api_NewForConfigOrDie L c w = or_die (api_NewForConfig L c w)"

definition api_New :: "'c \<Rightarrow> 'c api_client" where
  "api_New c = \<lparr>ac_restClient = c\<rparr>"

text \<open>A method of a pointer receiver that may be nil.\<close>

definition RESTClient :: "'c api_client option \<Rightarrow> 'c option" where
  "RESTClient c = (case c of None \<Rightarrow> None | Some a \<Rightarrow> Some (ac_restClient a))"

text \<open>\<open>newChalkReportPolicies\<close>: what the generic client of client-go is made with.\<close>

record 'c policy_client =
  pk_resource :: string
  pk_client :: "'c option"
  pk_namespace :: string

definition newChalkReportPolicies :: "'c api_client option \<Rightarrow> string \<Rightarrow> 'c policy_client" where
  "newChalkReportPolicies c namespace =
     \<lparr>pk_resource = ''chalkreportpolicies'', pk_client = RESTClient c, pk_namespace = namespace\<rparr>"

definition ChalkReportPolicies :: "'c api_client option \<Rightarrow> string \<Rightarrow> 'c policy_client" where
  "ChalkReportPolicies c namespace = newChalkReportPolicies c namespace"

subsection \<open>The clientset\<close>

record ('c, 'd) clientset =
  cs_DiscoveryClient :: 'd
  cs_apiV1beta1 :: "'c api_client"

text \<open>Reading the field of a nil clientset panics; \<open>Discovery\<close> checks for nil.\<close>

definition ApiV1beta1 :: "('c, 'd) clientset option \<Rightarrow> 'c api_client outcome" where
  "ApiV1beta1 c = (case c of None \<Rightarrow> Panic | Some s \<Rightarrow> Return (cs_apiV1beta1 s))"

definition Discovery :: "('c, 'd) clientset option \<Rightarrow> 'd option" where
  "Discovery c = (case c of None \<Rightarrow> None | Some s \<Rightarrow> Some (cs_DiscoveryClient s))"

definition burst_error :: goerr where
  "burst_error =
     ErrMsg ''burst is required to be greater than 0 when RateLimiter is not set and QPS is set to greater than 0''"

definition NewForConfigAndClient ::
  "('q, 'r, 's, 'x, 'h, 'c, 'd, 'w) rest_lib \<Rightarrow> ('q, 'r, 's, 'x) rest_config \<Rightarrow> 'h \<Rightarrow> 'w
     \<Rightarrow> ('c, 'd) clientset res \<times> 'w" where
  "NewForConfigAndClient L c httpClient w =
     (let limited =
        (if cf_RateLimiter c = None \<and> rl_qps_positive L (cf_QPS c) then
           (if cf_Burst c \<le> 0 then (Inl burst_error, w)
            else (let (r, w1) = rl_NewTokenBucketRateLimiter L (cf_QPS c) (cf_Burst c) w
                  in (Inr (c\<lparr>cf_RateLimiter := Some r\<rparr>), w1)))
         else (Inr c, w))
      in case limited of
           (Inl err, w1) \<Rightarrow> (Inl err, w1)
         | (Inr configShallowCopy, w1) \<Rightarrow>
             (case api_NewForConfigAndClient L configShallowCopy httpClient w1 of
                (Inl err, w2) \<Rightarrow> (Inl err, w2)
              | (Inr api, w2) \<Rightarrow>
                  (case rl_NewDiscoveryClientForConfigAndClient L configShallowCopy httpClient w2 of
                     (Inl err, w3) \<Rightarrow> (Inl err, w3)
                   | (Inr discovery, w3) \<Rightarrow>
                       (Inr \<lparr>cs_DiscoveryClient = discovery, cs_apiV1beta1 = api\<rparr>, w3))))"

definition NewForConfig ::
  "('q, 'r, 's, 'x, 'h, 'c, 'd, 'w) rest_lib \<Rightarrow> ('q, 'r, 's, 'x) rest_config \<Rightarrow> 'w \<Rightarrow> ('c, 'd) clientset res \<times> 'w" where
  "NewForConfig L c w =
     (let configShallowCopy =
        (if cf_UserAgent c = '''' then c\<lparr>cf_UserAgent := rl_DefaultKubernetesUserAgent L\<rparr> else c)
      in case rl_HTTPClientFor L configShallowCopy w of
           (Inl err, w1) \<Rightarrow> (Inl err, w1)
         | (Inr httpClient, w1) \<Rightarrow> NewForConfigAndClient L configShallowCopy httpClient w1)"

definition NewForConfigOrDie ::
  "('q, 'r, 's, 'x, 'h, 'c, 'd, 'w) rest_lib \<Rightarrow> ('q, 'r, 's, 'x) rest_config \<Rightarrow> 'w \<Rightarrow> ('c, 'd) clientset outcome \<times> 'w" where
  "NewForConfigOrDie L c w = or_die (NewForConfig L c w)"

definition New :: "('q, 'r, 's, 'x, 'h, 'c, 'd, 'w) rest_lib \<Rightarrow> 'c \<Rightarrow> ('c, 'd) clientset" where
  "New L c = \<lparr>cs_DiscoveryClient = rl_NewDiscoveryClient L c, cs_apiV1beta1 = api_New c\<rparr>"

subsection \<open>The scheme\<close>

text \<open>
  A scheme is apimachinery's: \<open>'z\<close> with the two functions that register types in it under a group and version, the
  listed ones and the common ones. The types of Ocular are in its own group and version.
\<close>

record 'z scheme_lib =
  sc_AddKnownTypes :: "'z \<Rightarrow> string \<times> string \<Rightarrow> string list \<Rightarrow> 'z"
  sc_AddToGroupVersion :: "'z \<Rightarrow> string \<times> string \<Rightarrow> 'z"

definition addKnownTypes :: "'z scheme_lib \<Rightarrow> string \<times> string \<Rightarrow> 'z \<Rightarrow> goerr option \<times> 'z" where
  "addKnownTypes K ocular s =
     (let s1 = sc_AddKnownTypes K s SchemeGroupVersion [''ChalkReportPolicy'', ''ChalkReportPolicyList''];
          s2 = sc_AddKnownTypes K s1 ocular
                 [''Pipeline'', ''PipelineList'', ''Profile'', ''ProfileList'', ''Downloader'', ''DownloaderList'',
                  ''Uploader'', ''UploaderList'']
      in (None, sc_AddToGroupVersion K s2 SchemeGroupVersion))"

subsection \<open>Properties\<close>

text \<open>What \<open>NewForConfig\<close> hands to both clients: the caller's configuration with the defaults filled in.\<close>

definition limiter_needed :: "('q, 'r, 's, 'x, 'h, 'c, 'd, 'w) rest_lib \<Rightarrow> ('q, 'r, 's, 'x) rest_config \<Rightarrow> bool" where
  "limiter_needed L c \<longleftrightarrow> cf_RateLimiter c = None \<and> rl_qps_positive L (cf_QPS c)"

definition agent_filled ::
  "('q, 'r, 's, 'x, 'h, 'c, 'd, 'w) rest_lib \<Rightarrow> ('q, 'r, 's, 'x) rest_config \<Rightarrow> ('q, 'r, 's, 'x) rest_config" where
  "agent_filled L c = (if cf_UserAgent c = '''' then c\<lparr>cf_UserAgent := rl_DefaultKubernetesUserAgent L\<rparr> else c)"

lemma agent_filled_simps [simp]:
  "cf_RateLimiter (agent_filled L c) = cf_RateLimiter c" "cf_QPS (agent_filled L c) = cf_QPS c"
  "cf_Burst (agent_filled L c) = cf_Burst c" "limiter_needed L (agent_filled L c) = limiter_needed L c"
  by (simp_all add: agent_filled_def limiter_needed_def)

lemma api_NewForConfigAndClient_Inr:
  "api_NewForConfigAndClient L c h w = (Inr a, w1) \<longleftrightarrow>
     rl_RESTClientForConfigAndClient L (setConfigDefaults L c) h w = (Inr (ac_restClient a), w1)"
  by (cases a) (auto simp: api_NewForConfigAndClient_def split: prod.splits sum.splits)

text \<open>The clients that are made of a configuration whose limiter is settled.\<close>

definition both_clients ::
  "('q, 'r, 's, 'x, 'h, 'c, 'd, 'w) rest_lib \<Rightarrow> ('q, 'r, 's, 'x) rest_config \<Rightarrow> 'h \<Rightarrow> ('c, 'd) clientset \<Rightarrow> 'w \<Rightarrow> 'w \<Rightarrow> bool" where
  "both_clients L d h s w w2 \<longleftrightarrow>
     (\<exists>w1. rl_RESTClientForConfigAndClient L (setConfigDefaults L d) h w = (Inr (ac_restClient (cs_apiV1beta1 s)), w1)
        \<and> rl_NewDiscoveryClientForConfigAndClient L d h w1 = (Inr (cs_DiscoveryClient s), w2))"

lemma both_clients_made:
  "(case api_NewForConfigAndClient L d h w of
      (Inl err, w2) \<Rightarrow> (Inl err, w2)
    | (Inr api, w2) \<Rightarrow>
        (case rl_NewDiscoveryClientForConfigAndClient L d h w2 of
           (Inl err, w3) \<Rightarrow> (Inl err, w3)
         | (Inr discovery, w3) \<Rightarrow> (Inr \<lparr>cs_DiscoveryClient = discovery, cs_apiV1beta1 = api\<rparr>, w3))) = (Inr s, w')
   \<longleftrightarrow> both_clients L d h s w w'"
  by (cases s) (auto simp: both_clients_def api_NewForConfigAndClient_Inr [symmetric] split: prod.splits sum.splits)

lemma NewForConfigAndClient_Inr:
  "NewForConfigAndClient L c h w = (Inr s, w') \<longleftrightarrow>
     (if limiter_needed L c then
        0 < cf_Burst c \<and> (\<exists>r w1. rl_NewTokenBucketRateLimiter L (cf_QPS c) (cf_Burst c) w = (r, w1)
          \<and> both_clients L (c\<lparr>cf_RateLimiter := Some r\<rparr>) h s w1 w')
      else both_clients L c h s w w')"
proof (cases "limiter_needed L c")
  case False
  then show ?thesis
    by (simp add: NewForConfigAndClient_def both_clients_made flip: limiter_needed_def)
next
  case True
  then show ?thesis
    by (simp add: NewForConfigAndClient_def both_clients_made flip: limiter_needed_def split: prod.split)
qed

text \<open>
  One HTTP client and one rate limiter for the whole clientset. \<open>NewForConfig\<close> succeeds exactly when the HTTP
  client is made, the burst is positive where a limiter has to be made, and both clients are made, in that order;
  both get the same HTTP client and the same limiter: the caller's, or else the only one that was made.
\<close>

theorem clientset_shares_limits:
  "NewForConfig L c w = (Inr s, w') \<longleftrightarrow>
     (\<exists>h w1. rl_HTTPClientFor L (agent_filled L c) w = (Inr h, w1)
        \<and> (if limiter_needed L c then
             0 < cf_Burst c \<and> (\<exists>r w2. rl_NewTokenBucketRateLimiter L (cf_QPS c) (cf_Burst c) w1 = (r, w2)
               \<and> both_clients L ((agent_filled L c)\<lparr>cf_RateLimiter := Some r\<rparr>) h s w2 w')
           else both_clients L (agent_filled L c) h s w1 w'))"
  by (auto simp: NewForConfig_def Let_def NewForConfigAndClient_Inr agent_filled_def [symmetric] split: prod.splits sum.splits)

text \<open>A limit on the rate without a burst is refused once the HTTP client is made, and the program that insists panics.\<close>

theorem burst_required:
  assumes "limiter_needed L c" "cf_Burst c \<le> 0" "rl_HTTPClientFor L (agent_filled L c) w = (Inr h, w1)"
  shows "NewForConfig L c w = (Inl burst_error, w1)" "NewForConfigOrDie L c w = (Panic, w1)"
proof -
  show "NewForConfig L c w = (Inl burst_error, w1)"
    using assms by (simp add: NewForConfig_def NewForConfigAndClient_def limiter_needed_def flip: agent_filled_def)
  then show "NewForConfigOrDie L c w = (Panic, w1)" by (simp add: NewForConfigOrDie_def or_die_def)
qed

text \<open>
  The defaults of the API client keep the limiter and the agent of the clientset, and fill in what a client of one
  group needs; filling them in twice, as \<open>api_NewForConfig\<close> does, is filling them in once.
\<close>

lemma setConfigDefaults_frame:
  "cf_RateLimiter (setConfigDefaults L c) = cf_RateLimiter c"
  "cf_UserAgent (setConfigDefaults L c) = cf_UserAgent (agent_filled L c)"
  "cf_GroupVersion (setConfigDefaults L c) = Some SchemeGroupVersion" "cf_APIPath (setConfigDefaults L c) = ''/apis''"
  by (simp_all add: setConfigDefaults_def agent_filled_def Let_def)

lemma setConfigDefaults_idem: "setConfigDefaults L (setConfigDefaults L c) = setConfigDefaults L c"
  by (cases c) (simp add: setConfigDefaults_def Let_def)

lemma api_NewForConfig_Inr:
  "api_NewForConfig L c w = (Inr a, w2) \<longleftrightarrow>
     (\<exists>h w1. rl_HTTPClientFor L (setConfigDefaults L c) w = (Inr h, w1)
        \<and> rl_RESTClientForConfigAndClient L (setConfigDefaults L c) h w1 = (Inr (ac_restClient a), w2))"
  by (auto simp: api_NewForConfig_def Let_def api_NewForConfigAndClient_Inr setConfigDefaults_idem split: prod.splits sum.splits)

text \<open>Nil receivers: \<open>RESTClient\<close> and \<open>Discovery\<close> answer nil, \<open>ApiV1beta1\<close> panics.\<close>

lemma nil_receivers:
  "RESTClient None = None" "Discovery None = None" "ApiV1beta1 None = Panic"
  "pk_client (ChalkReportPolicies None namespace) = None"
  by (simp_all add: RESTClient_def Discovery_def ApiV1beta1_def ChalkReportPolicies_def newChalkReportPolicies_def)

text \<open>What registering does to the types a scheme recognizes.\<close>

definition registers :: "'z scheme_lib \<Rightarrow> ('z \<Rightarrow> ((string \<times> string) \<times> string) set) \<Rightarrow> bool" where
  "registers K known \<longleftrightarrow>
     (\<forall>s gv ks. known (sc_AddKnownTypes K s gv ks) = known s \<union> Pair gv ` set ks)
   \<and> (\<forall>s gv. known s \<subseteq> known (sc_AddToGroupVersion K s gv))"

text \<open>
  Registering keeps what a scheme had, and adds the resource with its list and Ocular's types; no
  \<open>ClusterDownloader\<close> is among them: the scheduler's look-up of one rests on Ocular's own registration.
\<close>

theorem registered_kinds:
  assumes "registers K known"
  shows "fst (addKnownTypes K ocular s) = None"
    and "known s \<union> {(SchemeGroupVersion, ''ChalkReportPolicy''), (ocular, ''Pipeline''), (ocular, ''Profile''), (ocular, ''Downloader'')}
           \<subseteq> known (snd (addKnownTypes K ocular s))"
    and "\<exists>s2. snd (addKnownTypes K ocular s) = sc_AddToGroupVersion K s2 SchemeGroupVersion
           \<and> known s2 - known s \<subseteq> {SchemeGroupVersion, ocular} \<times> - {''ClusterDownloader''}"
proof -
  let ?k = "[''Pipeline'', ''PipelineList'', ''Profile'', ''ProfileList'', ''Downloader'', ''DownloaderList'', ''Uploader'', ''UploaderList'']"
  let ?t = "sc_AddKnownTypes K (sc_AddKnownTypes K s SchemeGroupVersion [''ChalkReportPolicy'', ''ChalkReportPolicyList'']) ocular ?k"
  have t: "addKnownTypes K ocular s = (None, sc_AddToGroupVersion K ?t SchemeGroupVersion)"
    by (simp add: addKnownTypes_def Let_def)
  then show "fst (addKnownTypes K ocular s) = None" by simp
  have add: "known (sc_AddKnownTypes K s gv ks) = known s \<union> Pair gv ` set ks" for s gv ks
    using assms unfolding registers_def by blast
  have known: "known ?t = known s \<union> Pair SchemeGroupVersion ` set [''ChalkReportPolicy'', ''ChalkReportPolicyList''] \<union> Pair ocular ` set ?k"
    by (simp only: add)
  moreover have "known ?t \<subseteq> known (snd (addKnownTypes K ocular s))"
    using assms unfolding registers_def t snd_conv by blast
  ultimately show "known s \<union> {(SchemeGroupVersion, ''ChalkReportPolicy''), (ocular, ''Pipeline''), (ocular, ''Profile''), (ocular, ''Downloader'')}
      \<subseteq> known (snd (addKnownTypes K ocular s))" by auto
  have "known ?t - known s \<subseteq> {SchemeGroupVersion, ocular} \<times> - {''ClusterDownloader''}"
    unfolding known by auto
  with t show "\<exists>s2. snd (addKnownTypes K ocular s) = sc_AddToGroupVersion K s2 SchemeGroupVersion
      \<and> known s2 - known s \<subseteq> {SchemeGroupVersion, ocular} \<times> - {''ClusterDownloader''}"
    by (intro exI [of _ ?t]) simp
qed

end
