(* ===== verification/Scheme_Setup.thy ===== *)
theory Scheme_Setup
  imports Clientset
begin

section \<open>The schemes a program starts with\<close>

text \<open>
  The \<open>init\<close> functions that run before \<open>main\<close>: of the clientset's scheme package
  (\<^verbatim>\<open>pkg/generated/clientset/scheme/register.go\<close>), of its double (\<^verbatim>\<open>fake/register.go\<close>) and of the controller
  (\<^verbatim>\<open>cmd/controller/main.go\<close>), on top of \<open>addKnownTypes\<close> of \<^verbatim>\<open>api/v1beta1/groupversion_info.go\<close>. A scheme, its
  builder and the registrations of client-go and Ocular are parameters.
\<close>

subsection \<open>Builders\<close>

text \<open>
  \<open>runtime.SchemeBuilder\<close> is a list of functions that \<open>AddToScheme\<close> applies; documented: a non-nil error
  means that one failed and the attempt was abandoned. \<open>utilruntime.Must\<close> panics on an error.
\<close>

type_synonym 'z registration = "'z \<Rightarrow> goerr option \<times> 'z"

record 'z builder_lib = "'z scheme_lib" +
  sb_AddToScheme :: "'z registration list \<Rightarrow> 'z registration"

definition Must :: "goerr option \<times> 'z \<Rightarrow> unit outcome \<times> 'z" where
  "Must r = (case r of (Some e, s) \<Rightarrow> (Panic, s) | (None, s) \<Rightarrow> (Return (), s))"

definition chalk_AddToScheme :: "'z builder_lib \<Rightarrow> string \<times> string \<Rightarrow> 'z registration" where
  "chalk_AddToScheme B ocular =
     sb_AddToScheme B [addKnownTypes (scheme_lib.truncate B) ocular]"

definition clientset_AddToScheme :: "'z builder_lib \<Rightarrow> string \<times> string \<Rightarrow> 'z registration" where
  "clientset_AddToScheme B ocular = sb_AddToScheme B [chalk_AddToScheme B ocular]"

definition scheme_init :: "'z builder_lib \<Rightarrow> string \<times> string \<Rightarrow> 'z \<Rightarrow> unit outcome \<times> 'z" where
  "scheme_init B ocular s =
     (let s1 = sc_AddToGroupVersion B s ('''', ''v1'') in Must (clientset_AddToScheme B ocular s1))"

text \<open>The double's package has a builder, an \<open>AddToScheme\<close> and a scheme of its own.\<close>

definition fake_AddToScheme :: "'z builder_lib \<Rightarrow> string \<times> string \<Rightarrow> 'z registration" where
  "fake_AddToScheme B ocular = sb_AddToScheme B [chalk_AddToScheme B ocular]"

definition fake_scheme_init :: "'z builder_lib \<Rightarrow> string \<times> string \<Rightarrow> 'z \<Rightarrow> unit outcome \<times> 'z" where
  "fake_scheme_init B ocular s =
     (let s1 = sc_AddToGroupVersion B s ('''', ''v1'') in Must (fake_AddToScheme B ocular s1))"

text \<open>The controller's: client-go's types, the repository's, Ocular's, each registration insisted on.\<close>

definition controller_init ::
  "'z builder_lib \<Rightarrow> string \<times> string \<Rightarrow> 'z registration \<Rightarrow> 'z registration \<Rightarrow> 'z \<Rightarrow> unit outcome \<times> 'z" where
  "controller_init B ocular clientgo_AddToScheme ocular_AddToScheme s =
     (case Must (clientgo_AddToScheme s) of
        (Panic, s1) \<Rightarrow> (Panic, s1)
      | (Return _, s1) \<Rightarrow>
     (case Must (chalk_AddToScheme B ocular s1) of
        (Panic, s2) \<Rightarrow> (Panic, s2)
      | (Return _, s2) \<Rightarrow> Must (ocular_AddToScheme s2)))"

subsection \<open>What registering gives\<close>

text \<open>The kinds that the program looks up and that the repository registers.\<close>

definition chalk_kinds :: "string \<times> string \<Rightarrow> ((string \<times> string) \<times> string) set" where
  "chalk_kinds ocular =
     {(SchemeGroupVersion, ''ChalkReportPolicy''), (ocular, ''Pipeline''), (ocular, ''Profile''), (ocular, ''Downloader'')}"

text \<open>The builder's documented behaviour, and that of the scheme, whose known kinds are \<open>known\<close>.\<close>

locale schemes =
  fixes B :: "'z builder_lib" and known :: "'z \<Rightarrow> ((string \<times> string) \<times> string) set"
  assumes apply_nil: "sb_AddToScheme B [] s = (None, s)"
    and apply_cons: "sb_AddToScheme B (f # fs) s =
       (case f s of (Some e, s1) \<Rightarrow> (Some e, s1) | (None, s1) \<Rightarrow> sb_AddToScheme B fs s1)"
    and kinds: "registers (scheme_lib.truncate B) known"
begin

lemma kinds_known:
  "known (sc_AddKnownTypes B s gv ks) = known s \<union> Pair gv ` set ks" "known s \<subseteq> known (sc_AddToGroupVersion B s gv)"
  by (use kinds in \<open>cases gv; simp add: registers_def scheme_lib.truncate_def\<close>)+

text \<open>The repository's registration never fails, keeps what is known and adds its own kinds.\<close>

lemma chalk_adds:
  "\<exists>s1. chalk_AddToScheme B ocular s = (None, s1)
     \<and> known s \<union> chalk_kinds ocular \<subseteq> known s1"
proof -
  obtain s1 where s1: "addKnownTypes (scheme_lib.truncate B) ocular s = (None, s1)"
    using registered_kinds(1) [OF kinds, of ocular s] by (metis prod.collapse)
  with registered_kinds(2) [OF kinds, of s ocular] have "known s \<union> chalk_kinds ocular \<subseteq> known s1"
    by (simp add: chalk_kinds_def)
  with s1 show ?thesis by (simp add: chalk_AddToScheme_def apply_cons apply_nil)
qed

lemma clientset_adds:
  "\<exists>s1. clientset_AddToScheme B ocular s = (None, s1)
     \<and> known s \<union> chalk_kinds ocular \<subseteq> known s1"
  using chalk_adds [of ocular s] by (force simp: clientset_AddToScheme_def apply_cons apply_nil)

lemma init_registers:
  "\<exists>s1. scheme_init B ocular s = (Return (), s1)
     \<and> known s \<union> chalk_kinds ocular \<subseteq> known s1"
proof -
  from clientset_adds [of ocular "sc_AddToGroupVersion B s ('''', ''v1'')"] kinds_known(2) [of s "('''', ''v1'')"]
  show ?thesis by (auto simp: scheme_init_def Must_def)
qed

text \<open>The controller's start fails before \<open>main\<close> exactly when a registration that is not its own fails.\<close>

lemma controller_init_cases:
  "fst (controller_init B ocular cg oc s) = Panic \<longleftrightarrow>
     fst (cg s) \<noteq> None \<or> fst (oc (snd (chalk_AddToScheme B ocular (snd (cg s))))) \<noteq> None"
proof -
  obtain e s1 where cg: "cg s = (e, s1)" by force
  obtain s2 where s2: "chalk_AddToScheme B ocular s1 = (None, s2)" using chalk_adds by blast
  obtain e3 s3 where oc: "oc s2 = (e3, s3)" by force
  show ?thesis
    using cg s2 oc by (auto simp: controller_init_def Must_def split: option.splits)
qed

end

text \<open>The two packages register alike.\<close>

lemma fake_scheme_same: "fake_scheme_init B ocular s = scheme_init B ocular s"
  by (simp add: fake_scheme_init_def scheme_init_def fake_AddToScheme_def clientset_AddToScheme_def)

subsection \<open>A reference scheme\<close>

text \<open>The known kinds as a list, and the loop over a builder's functions.\<close>

fun apply_all :: "'z registration list \<Rightarrow> 'z registration" where
  "apply_all [] s = (None, s)"
| "apply_all (f # fs) s = (case f s of (Some e, s1) \<Rightarrow> (Some e, s1) | (None, s1) \<Rightarrow> apply_all fs s1)"

definition ref_builder :: "((string \<times> string) \<times> string) list builder_lib" where
  "ref_builder = \<lparr>sc_AddKnownTypes = (\<lambda>s gv ks. s @ map (Pair gv) ks),
     sc_AddToGroupVersion = (\<lambda>s gv. s @ [(gv, ''WatchEvent'')]), sb_AddToScheme = apply_all\<rparr>"

interpretation refscheme: schemes ref_builder set
proof
  show "sb_AddToScheme ref_builder (f # fs) s =
     (case f s of (Some e, s1) \<Rightarrow> (Some e, s1) | (None, s1) \<Rightarrow> sb_AddToScheme ref_builder fs s1)" for f fs s
    by (simp add: ref_builder_def split: prod.split option.split)
qed (auto simp: ref_builder_def registers_def scheme_lib.truncate_def)

subsection \<open>Properties of the schemes\<close>

text \<open>
  Before \<open>main\<close> the clientset's scheme is complete: its \<open>init\<close> does not panic, and the scheme then has what it had
  and the repository's kinds; the same holds of the double's.
\<close>

theorem schemes_complete:
  assumes "schemes B known"
  shows "\<exists>s1. scheme_init B ocular s = (Return (), s1) \<and> fake_scheme_init B ocular s = (Return (), s1)
     \<and> known s \<union> chalk_kinds ocular \<subseteq> known s1"
  unfolding fake_scheme_same using schemes.init_registers [OF assms, of ocular s] by blast

theorem schemes_complete_witness:
  "(SchemeGroupVersion, ''ChalkReportPolicy'') \<in> set (snd (scheme_init ref_builder (''ocular'', ''v1beta1'') []))"
  using schemes_complete [OF refscheme.schemes_axioms, of "(''ocular'', ''v1beta1'')" "[]"]
  by (auto simp: chalk_kinds_def)

end
