(* ===== verification/Fake_Clientset.thy ===== *)
theory Fake_Clientset
  imports Scheme_Setup
begin

section \<open>The clientset's double\<close>

text \<open>
  \<^verbatim>\<open>pkg/generated/clientset/fake/clientset_generated.go\<close> and \<^verbatim>\<open>typed/api/v1beta1/fake/\<close>: the clientset that
  tests of programs built on this repository use. What client-go brings is the record \<open>fake_lib\<close>: the object
  tracker \<open>'t\<close> on a world \<open>'w\<close>, and \<open>testing.Fake\<close>, a value \<open>'f\<close> with chains of reactions. The code hands out
  pointers to one \<open>Fake\<close>, so these live in a store.
\<close>

subsection \<open>What client-go brings\<close>

text \<open>A reaction is client-go's own on a tracker, or the closure of \<open>NewSimpleClientset\<close> over one.\<close>

datatype 't reaction = ObjectReaction 't | TrackerWatch 't

type_synonym resource = "(string \<times> string) \<times> string"

record ('t, 'f, 'o, 'opts, 'i, 'w) fake_lib =
  fl_NewObjectTracker :: "'w \<Rightarrow> 't \<times> 'w"
  fl_Add :: "'t \<Rightarrow> 'o \<Rightarrow> 'w \<Rightarrow> goerr option \<times> 'w"
  fl_Watch :: "'t \<Rightarrow> resource \<Rightarrow> string \<Rightarrow> 'opts \<Rightarrow> 'w \<Rightarrow> 'i res \<times> 'w"
  fl_zeroOptions :: 'opts
  fl_zeroFake :: 'f
  fl_AddReactor :: "'f \<Rightarrow> string \<Rightarrow> string \<Rightarrow> 't reaction \<Rightarrow> 'f"
  fl_AddWatchReactor :: "'f \<Rightarrow> string \<Rightarrow> 't reaction \<Rightarrow> 'f"

record 'f fakes =
  fs_next :: nat
  fs_fakes :: "nat \<rightharpoonup> 'f"

definition update_fake :: "nat \<Rightarrow> ('f \<Rightarrow> 'f) \<Rightarrow> 'f fakes \<Rightarrow> 'f fakes" where
  "update_fake a g st = st\<lparr>fs_fakes := (fs_fakes st)(a := map_option g (fs_fakes st a))\<rparr>"

subsection \<open>The clientset\<close>

text \<open>The embedded \<open>Fake\<close> is its address; the discovery double points to it too.\<close>

record 't fake_clientset =
  fc_Fake :: nat
  fc_discovery :: nat
  fc_tracker :: 't

text \<open>The closure: the options of the action when it is a \<open>WatchActionImpl\<close>, and not handled on an error.\<close>

record 'opts test_action =
  ta_resource :: resource
  ta_namespace :: string
  ta_watchOptions :: "'opts option"

definition watch_reaction ::
  "('t, 'f, 'o, 'opts, 'i, 'w) fake_lib \<Rightarrow> 't \<Rightarrow> 'opts test_action \<Rightarrow> 'w \<Rightarrow> (bool \<times> 'i option \<times> goerr option) \<times> 'w" where
  "watch_reaction L t action w =
     (let opts = (case ta_watchOptions action of None \<Rightarrow> fl_zeroOptions L | Some x \<Rightarrow> x)
      in case fl_Watch L t (ta_resource action) (ta_namespace action) opts w of
           (Inl err, w1) \<Rightarrow> ((False, None, Some err), w1)
         | (Inr watch, w1) \<Rightarrow> ((True, Some watch, None), w1))"

fun add_objects :: "('t, 'f, 'o, 'opts, 'i, 'w) fake_lib \<Rightarrow> 't \<Rightarrow> 'o list \<Rightarrow> 'w \<Rightarrow> unit outcome \<times> 'w" where
  "add_objects L t [] w = (Return (), w)"
| "add_objects L t (obj # objects) w =
     (case fl_Add L t obj w of
        (Some err, w1) \<Rightarrow> (Panic, w1)
      | (None, w1) \<Rightarrow> add_objects L t objects w1)"

definition NewSimpleClientset ::
  "('t, 'f, 'o, 'opts, 'i, 'w) fake_lib \<Rightarrow> 'o list \<Rightarrow> 'f fakes \<times> 'w \<Rightarrow> 't fake_clientset outcome \<times> 'f fakes \<times> 'w" where
  "NewSimpleClientset L objects stw =
     (let (st, w) = stw; (t, w1) = fl_NewObjectTracker L w
      in case add_objects L t objects w1 of
           (Panic, w2) \<Rightarrow> (Panic, st, w2)
         | (Return _, w2) \<Rightarrow>
             (let a = fs_next st;
                  st1 = st\<lparr>fs_next := a + 1, fs_fakes := (fs_fakes st)(a \<mapsto> fl_zeroFake L)\<rparr>;
                  st2 = update_fake a (\<lambda>f. fl_AddReactor L f ''*'' ''*'' (ObjectReaction t)) st1;
                  st3 = update_fake a (\<lambda>f. fl_AddWatchReactor L f ''*'' (TrackerWatch t)) st2
              in (Return \<lparr>fc_Fake = a, fc_discovery = a, fc_tracker = t\<rparr>, st3, w2)))"

text \<open>The methods; a pointer receiver may be nil, and only the last one does not look through it.\<close>

definition fake_Discovery :: "'t fake_clientset option \<Rightarrow> nat outcome" where
  "fake_Discovery c = (case c of None \<Rightarrow> Panic | Some s \<Rightarrow> Return (fc_discovery s))"

definition Tracker :: "'t fake_clientset option \<Rightarrow> 't outcome" where
  "Tracker c = (case c of None \<Rightarrow> Panic | Some s \<Rightarrow> Return (fc_tracker s))"

definition IsWatchListSemanticsUnSupported :: "'t fake_clientset option \<Rightarrow> bool" where
  "IsWatchListSemanticsUnSupported c = True"

subsection \<open>The API client's double\<close>

record fake_api =
  fa_Fake :: nat

definition fake_ApiV1beta1 :: "'t fake_clientset option \<Rightarrow> fake_api outcome" where
  "fake_ApiV1beta1 c = (case c of None \<Rightarrow> Panic | Some s \<Rightarrow> Return \<lparr>fa_Fake = fc_Fake s\<rparr>)"

text \<open>A Go interface is nil, or holds a pointer, which may be nil: the interface is then not nil.\<close>

datatype 'a iface = NilInterface | Holds "'a option"

definition fake_RESTClient :: "fake_api option \<Rightarrow> 'c iface" where
  "fake_RESTClient c = (let ret = None in Holds ret)"

text \<open>What the generic double of client-go is made with; the last three are functions on lists.\<close>

record ('m, 'x) policy_list =
  pls_ListMeta :: 'm
  pls_Items :: "'x policy list"

definition copyListMeta :: "('m, 'x) policy_list \<Rightarrow> ('m, 'x) policy_list \<Rightarrow> ('m, 'x) policy_list" where
  "copyListMeta dst src = dst\<lparr>pls_ListMeta := pls_ListMeta src\<rparr>"

definition getItems :: "('m, 'x) policy_list \<Rightarrow> 'x policy list" where
  "getItems l = pls_Items l"

definition setItems :: "('m, 'x) policy_list \<Rightarrow> 'x policy list \<Rightarrow> ('m, 'x) policy_list" where
  "setItems l items = l\<lparr>pls_Items := items\<rparr>"

record fake_policy_client =
  fp_fake :: nat
  fp_namespace :: string
  fp_resource :: resource
  fp_kind :: "(string \<times> string) \<times> string"

definition newFakeChalkReportPolicies :: "fake_api option \<Rightarrow> string \<Rightarrow> fake_policy_client outcome" where
  "newFakeChalkReportPolicies fake namespace =
     (case fake of
        None \<Rightarrow> Panic
      | Some f \<Rightarrow> Return \<lparr>fp_fake = fa_Fake f, fp_namespace = namespace,
          fp_resource = (SchemeGroupVersion, ''chalkreportpolicies''),
          fp_kind = (SchemeGroupVersion, ''ChalkReportPolicy'')\<rparr>)"

definition fake_ChalkReportPolicies :: "fake_api option \<Rightarrow> string \<Rightarrow> fake_policy_client outcome" where
  "fake_ChalkReportPolicies c namespace = newFakeChalkReportPolicies c namespace"

subsection \<open>What the double answers with\<close>

text \<open>Documented of \<open>testing.Fake\<close>: a reaction is appended to its chain, and the zero value has none.\<close>

locale fake_chains =
  fixes L :: "('t, 'f, 'o, 'opts, 'i, 'w) fake_lib"
    and chain :: "'f \<Rightarrow> (string \<times> string \<times> 't reaction) list"
    and watchers :: "'f \<Rightarrow> (string \<times> 't reaction) list"
  assumes chain_zero: "chain (fl_zeroFake L) = []" "watchers (fl_zeroFake L) = []"
    and chain_add: "chain (fl_AddReactor L f v r x) = chain f @ [(v, r, x)]"
      "watchers (fl_AddReactor L f v r x) = watchers f"
    and watchers_add: "watchers (fl_AddWatchReactor L f r x) = watchers f @ [(r, x)]"
      "chain (fl_AddWatchReactor L f r x) = chain f"
begin

lemma new_chains:
  assumes "NewSimpleClientset L objects (st, w) = (Return cs, st', w')"
  shows "\<exists>f. fs_fakes st' (fc_Fake cs) = Some f \<and> chain f = [(''*'', ''*'', ObjectReaction (fc_tracker cs))]
     \<and> watchers f = [(''*'', TrackerWatch (fc_tracker cs))]"
  using assms
  by (auto simp: NewSimpleClientset_def Let_def update_fake_def chain_zero chain_add watchers_add
      split: prod.splits outcome.splits)

end

text \<open>Adding the objects: all of them, in order, or up to the first that the tracker refuses.\<close>

fun add_run :: "('t, 'f, 'o, 'opts, 'i, 'w) fake_lib \<Rightarrow> 't \<Rightarrow> 'o list \<Rightarrow> 'w \<Rightarrow> 'w" where
  "add_run L t [] w = w"
| "add_run L t (x # xs) w = add_run L t xs (snd (fl_Add L t x w))"

lemma add_objects_Return:
  "add_objects L t xs w = (Return u, w') \<longleftrightarrow>
     w' = add_run L t xs w \<and> (\<forall>i < length xs. fst (fl_Add L t (xs ! i) (add_run L t (take i xs) w)) = None)"
proof (induction xs arbitrary: w)
  case Nil
  then show ?case by auto
next
  case (Cons x xs)
  obtain e w1 where a: "fl_Add L t x w = (e, w1)" by force
  show ?case
    using Cons.IH [of w1] a by (cases e) (simp_all add: All_less_Suc2)
qed

lemma add_objects_Panic:
  "fst (add_objects L t xs w) = Panic \<longleftrightarrow>
     (\<exists>i < length xs. fst (fl_Add L t (xs ! i) (add_run L t (take i xs) w)) \<noteq> None)"
  using add_objects_Return [of L t xs w "()" "snd (add_objects L t xs w)"] add_objects_Return [of L t xs w]
  by (cases "add_objects L t xs w"; cases "fst (add_objects L t xs w)") auto

lemma NewSimpleClientset_frame:
  assumes "NewSimpleClientset L objects (st, w) = (r, st', w')" "a < fs_next st"
  shows "fs_fakes st' a = fs_fakes st a"
  using assms
  by (auto simp: NewSimpleClientset_def Let_def update_fake_def split: prod.splits outcome.splits)

subsection \<open>A reference library\<close>

text \<open>The tracker is the world itself: the objects added, none twice; the chains are two lists.\<close>

definition ref_fake_lib ::
  "(unit, (string \<times> string \<times> unit reaction) list \<times> (string \<times> unit reaction) list, string, unit, string list, string list) fake_lib" where
  "ref_fake_lib = \<lparr>fl_NewObjectTracker = (\<lambda>w. ((), w)),
     fl_Add = (\<lambda>t x w. if x \<in> set w then (Some (ErrMsg (x @ '' already exists'')), w) else (None, w @ [x])),
     fl_Watch = (\<lambda>t r ns opts w. (Inr w, w)), fl_zeroOptions = (),
     fl_zeroFake = ([], []),
     fl_AddReactor = (\<lambda>(c, d) v r x. (c @ [(v, r, x)], d)),
     fl_AddWatchReactor = (\<lambda>(c, d) r x. (c, d @ [(r, x)]))\<rparr>"

interpretation reffake: fake_chains ref_fake_lib fst snd
  by unfold_locales (auto simp: ref_fake_lib_def split: prod.splits)

subsection \<open>Properties of the double\<close>

text \<open>
  A new double serves the given objects or there is none: \<open>NewSimpleClientset\<close> panics exactly when the tracker
  refuses an object, and otherwise the tracker has taken all of them in order, and every call of the clients
  made from the clientset, whichever and whenever made, is answered through one chain, whose first and only
  entry, for all verbs and resources, is that tracker.
\<close>

theorem double_serves_its_objects:
  assumes "fake_chains L chain watchers" "fl_NewObjectTracker L w = (t, w1)"
  shows "(fst (NewSimpleClientset L objects (st, w)) = Panic \<longleftrightarrow>
            (\<exists>i < length objects. fst (fl_Add L t (objects ! i) (add_run L t (take i objects) w1)) \<noteq> None))
     \<and> (\<forall>cs st' w'. NewSimpleClientset L objects (st, w) = (Return cs, st', w') \<longrightarrow>
            w' = add_run L t objects w1 \<and> fc_tracker cs = t
          \<and> fake_ApiV1beta1 (Some cs) = Return \<lparr>fa_Fake = fc_Fake cs\<rparr> \<and> fake_Discovery (Some cs) = Return (fc_Fake cs)
          \<and> (\<exists>f. fs_fakes st' (fc_Fake cs) = Some f \<and> chain f = [(''*'', ''*'', ObjectReaction t)]
               \<and> watchers f = [(''*'', TrackerWatch t)]))"
proof -
  have panic: "fst (NewSimpleClientset L objects (st, w)) = Panic \<longleftrightarrow> fst (add_objects L t objects w1) = Panic"
    using assms(2) by (auto simp: NewSimpleClientset_def Let_def split: prod.splits outcome.splits)
  have tracker: "fc_tracker cs = t \<and> fc_discovery cs = fc_Fake cs \<and> w' = add_run L t objects w1"
    if "NewSimpleClientset L objects (st, w) = (Return cs, st', w')" for cs st' w'
    using that assms(2) add_objects_Return [of L t objects w1]
    by (auto simp: NewSimpleClientset_def Let_def split: prod.splits outcome.splits)
  show ?thesis
    using tracker fake_chains.new_chains [OF assms(1)]
    by (auto simp: panic add_objects_Panic fake_ApiV1beta1_def fake_Discovery_def)
qed

theorem double_serves_its_objects_witness:
  "fst (NewSimpleClientset ref_fake_lib [''a'', ''b'', ''a''] (\<lparr>fs_next = 0, fs_fakes = Map.empty\<rparr>, [])) = Panic
   \<and> (\<exists>cs st'. NewSimpleClientset ref_fake_lib [''a'', ''b''] (\<lparr>fs_next = 0, fs_fakes = Map.empty\<rparr>, [])
        = (Return cs, st', [''a'', ''b'']) \<and> fake_Discovery (Some cs) = Return (fc_Fake cs))"
proof -
  have t: "fl_NewObjectTracker ref_fake_lib [] = ((), [])" by (simp add: ref_fake_lib_def)
  let ?st = "\<lparr>fs_next = 0, fs_fakes = Map.empty\<rparr>"
  note c = double_serves_its_objects [OF reffake.fake_chains_axioms t]
  have "\<exists>i < length [''a'', ''b'', ''a''].
      fst (fl_Add ref_fake_lib () ([''a'', ''b'', ''a''] ! i) (add_run ref_fake_lib () (take i [''a'', ''b'', ''a'']) [])) \<noteq> None"
    by (intro exI [of _ 2]) (simp add: ref_fake_lib_def numeral_2_eq_2)
  with c [of "[''a'', ''b'', ''a'']" ?st] have "fst (NewSimpleClientset ref_fake_lib [''a'', ''b'', ''a''] (?st, [])) = Panic"
    by blast
  moreover obtain cs st' where n: "NewSimpleClientset ref_fake_lib [''a'', ''b''] (?st, []) = (Return cs, st', [''a'', ''b''])"
    by (simp add: NewSimpleClientset_def ref_fake_lib_def Let_def)
  moreover from c [of "[''a'', ''b'']" ?st] n have "fake_Discovery (Some cs) = Return (fc_Fake cs)" by blast
  ultimately show ?thesis by blast
qed

text \<open>
  The double stands for the same resource as the real client: same group and version as the defaults of the
  API client, same resource name and namespace; its kind is one that both schemes know.
\<close>

theorem double_same_resource:
  assumes "newFakeChalkReportPolicies (Some f) namespace = Return d"
  shows "snd (fp_resource d) = pk_resource (newChalkReportPolicies c namespace)"
    and "fp_namespace d = pk_namespace (newChalkReportPolicies c namespace)"
    and "Some (fst (fp_resource d)) = cf_GroupVersion (setConfigDefaults L config)"
    and "fp_kind d \<in> chalk_kinds ocular"
  using assms
  by (auto simp: newFakeChalkReportPolicies_def newChalkReportPolicies_def setConfigDefaults_frame chalk_kinds_def)

text \<open>The double's REST client is not nil as an interface, but there is no client in it.\<close>

lemma fake_rest_client_not_nil: "fake_RESTClient c \<noteq> NilInterface \<and> fake_RESTClient c = Holds None"
  by (simp add: fake_RESTClient_def Let_def)

text \<open>A watch that the tracker refuses is left to the next reaction, with the error.\<close>

lemma watch_reaction_handled:
  "fst (fst (watch_reaction L t a w)) \<longleftrightarrow> snd (snd (fst (watch_reaction L t a w))) = None"
  by (auto simp: watch_reaction_def Let_def split: prod.split sum.split)

end
