(* ===== verification/Composition.thy ===== *)
theory Composition
  imports Webhook Reconciler Open_Listener Threshold Program Server_Start Compiler_Threads Report_Types Controller_Main Chart_Flags Uploader Deep_Copy
    Fake_Clientset
begin

section \<open>Properties across components\<close>

text \<open>
  What only holds of several components together: the reconciler's condition and the scheduler's use of it,
  and the controller's flags and the fate of messages.
\<close>

subsection \<open>From the reconciler to the scheduler\<close>

definition condition_true :: "condition list \<Rightarrow> string \<Rightarrow> bool" where
  "condition_true cs t \<longleftrightarrow> (\<exists>d. find_condition cs t = Some d \<and> cd_status d = ''True'')"

lemma condition_true_code: "condition_true cs t = (case find_condition cs t of None \<Rightarrow> False | Some d \<Rightarrow> cd_status d = ''True'')"
  by (simp add: condition_true_def split: option.split)

text \<open>What a compiled policy generates for a report, ready or not.\<close>

definition compiled_generates ::
  "('a, 'p, 'v, 'c, 'w, 'x) scheduler \<Rightarrow> string \<Rightarrow> 'v report \<Rightarrow> 'x policy \<Rightarrow> 'p compiled_policy
     \<Rightarrow> ('v, 'x) generated option" where
  "compiled_generates S actionID report policy cp =
     (let env = comp_env (policyCompiler S) in
      if Matches env cp report = Inr True then
        (case Extract env cp report of
           Inl e \<Rightarrow> None
         | Inr values \<Rightarrow>
             if within_limit S (length values) then
               Some \<lparr>g_report = report, g_actionID = actionID, g_policy = policy,
                     g_pipelines = map (build_pipeline actionID policy) values\<rparr>
             else None)
      else None)"

lemma generates_compiled:
  "generates S a report p =
     (if isConditionTrue S (pol_conditions p) ''Ready'' then
        (case compile (comp_env (policyCompiler S)) p of Inl e \<Rightarrow> None | Inr cp \<Rightarrow> compiled_generates S a report p cp)
      else None)"
  by (simp add: generates_def compiled_generates_def Let_def split: sum.split)

text \<open>
  C10. What the reconciler marks Ready the scheduler can use. After a successful \<open>Reconcile\<close> of a live policy
  with the finalizer, the stored policy is Ready exactly when it compiles; and the scheduler that shares
  the compiler, from the cache the reconciler left or any other coherent one, generates from the stored
  policy what the freshly compiled expressions say: never is a Ready policy skipped because it cannot be
  compiled, and never is one that does not compile evaluated.
\<close>

theorem reconciled_policy_is_scheduled:
  assumes "reconciler_model r objs contents R" "\<And>p cs. p \<in> R \<Longrightarrow> p\<lparr>pol_conditions := cs\<rparr> \<in> R"
    and "coherent (comp_env (rr_compiler r)) R (contents c)" "p \<in> R"
    and "Reconcile r k (c, w) = (None, c1, w1)" "objs w k = Some p"
    and "pol_deletionTimestamp p = None" "policyCacheFinalizer \<in> set (pol_finalizers p)"
    and "policyCompiler S = rr_compiler r" "isConditionTrue S = condition_true"
  shows "\<exists>q cs. objs w1 k = Some q \<and> q = p\<lparr>pol_conditions := cs\<rparr>
     \<and> (isConditionTrue S (pol_conditions q) ''Ready'' \<longleftrightarrow> (\<exists>cp. compile (comp_env (rr_compiler r)) q = Inr cp))
     \<and> coherent (comp_env (rr_compiler r)) R (contents c1)
     \<and> (\<forall>st a report. coherent (comp_env (rr_compiler r)) R (contents (st_cache st)) \<longrightarrow>
          fst (policy_body S a report q st) =
            (case compile (comp_env (rr_compiler r)) q of
               Inl e \<Rightarrow> None | Inr cp \<Rightarrow> compiled_generates S a report q cp))"
proof -
  let ?env = "comp_env (rr_compiler r)"
  have cm: "compiler_model (rr_compiler r) contents R" using assms(1) by (simp add: reconciler_model_def)
  from reconciler_model.Reconcile_ready_objs [OF assms(1) _ assms(6-8), of c] assms(3-5) obtain cs where
    stored: "objs w1 = (objs w)(k \<mapsto> p\<lparr>pol_conditions := cs\<rparr>)"
    and f: "find_condition cs ''Ready'' = Some (ready_condition (compile ?env p) p)" by auto
  let ?q = "p\<lparr>pol_conditions := cs\<rparr>"
  have q: "?q \<in> R" by (rule assms(2) [OF assms(4)])
  have ready: "condition_true cs ''Ready'' \<longleftrightarrow> (\<exists>cp. compile ?env p = Inr cp)"
    using f ready_condition_True [of "compile ?env p" p] by (simp add: condition_true_def)
  have c1: "coherent ?env R (contents c1)"
  proof -
    obtain p' w' where g: "rc_get (rr_client r) k w = (Inr p', w')" "objs w' = objs w"
      using reconciler_model.read_stored [OF assms(1) _ assms(6), of c] assms(5) by (metis fst_conv)
    have "p' = p"
      using g(1) assms(1,6) object_store.get_found [of "rr_client r" objs k w p']
      by (simp add: reconciler_model_def)
    with g assms(5,7,8) have "c1 = snd (Get (rr_compiler r) p c)"
      using Reconcile_compiled [of r k w p w' c] assms(1)
      by (auto simp: Reconcile_def Let_def split_beta reconciler_model_def object_utils.contains split: if_splits)
    with compiler_model.Get_correct(2) [OF cm assms(3,4)] show ?thesis by simp
  qed
  have "fst (policy_body S a report ?q st) = (case compile ?env ?q of
      Inl e \<Rightarrow> None | Inr cp \<Rightarrow> compiled_generates S a report ?q cp)"
    if "coherent ?env R (contents (st_cache st))" for st a report
  proof -
    from compiler_model.Get_correct(1) [OF cm that q]
    have "fst (policy_body S a report ?q st) = generates S a report ?q"
      by (intro policy_body_generates) (simp add: assms(9))
    then show ?thesis
      using ready by (auto simp: generates_compiled assms(9,10) split: sum.split)
  qed
  with stored ready c1 assms(10) show ?thesis by (intro exI [of _ ?q] exI [of _ cs]) simp
qed

definition demo_R :: "unit policy set" where
  "demo_R = {p. pol_spec p = pol_spec (demo_policy ''true'' None)}"

lemma demo_R_stable: "generation_stable demo_R"
  unfolding demo_R_def by (rule generation_stable_by [of "\<lambda>u g. pol_spec (demo_policy ''true'' None)"])

theorem reconciled_policy_is_scheduled_witness:
  "let p = demo_stored ''true'' [policyCacheFinalizer] None;
       S = (ref_scheduler 0 5 [])\<lparr>isConditionTrue := condition_true\<rparr>;
       w1 = snd (snd (Reconcile ref_reconciler (''scan'', ''docker'') ((2, []), [(''scan'', ''docker'') \<mapsto> p])))
   in \<exists>q g. ref_objs w1 (''scan'', ''docker'') = Some q \<and> condition_true (pol_conditions q) ''Ready''
        \<and> fst (policy_body S ''a1'' demo_report q (ref_state [])) = Some g"
proof -
  let ?p = "demo_stored ''true'' [policyCacheFinalizer] None"
  let ?S = "(ref_scheduler 0 5 [])\<lparr>isConditionTrue := condition_true\<rparr>"
  let ?w = "[(''scan'', ''docker'') \<mapsto> ?p]"
  have p: "?p \<in> demo_R" by (simp add: demo_R_def demo_stored_def)
  have stored: "ref_objs ?w (''scan'', ''docker'') = Some ?p" by (simp add: ref_objs_def)
  have "fst (Reconcile ref_reconciler (''scan'', ''docker'') ((2, []), ?w)) = None"
    by (simp add: Reconcile_def ref_rclient_def ref_util_def stored Let_def split_beta)
  then obtain c1 w1 where R: "Reconcile ref_reconciler (''scan'', ''docker'') ((2, []), ?w) = (None, c1, w1)"
    by (metis prod.collapse)
  have m: "reconciler_model ref_reconciler ref_objs lc_contents demo_R"
    by (rule ref_reconciler_model [OF demo_R_stable])
  have closed: "x\<lparr>pol_conditions := cs\<rparr> \<in> demo_R" if "x \<in> demo_R" for x cs
    using that by (simp add: demo_R_def)
  have e: "comp_env (rr_compiler ref_reconciler) = ref_cel" "rr_compiler ref_reconciler = policyCompiler ?S"
    by (simp_all add: ref_scheduler_def)
  have empty: "coherent ref_cel demo_R (lc_contents (n, []))" for n by simp
  have fin: "pol_deletionTimestamp ?p = None" "policyCacheFinalizer \<in> set (pol_finalizers ?p)" by simp_all
  have ready: "isConditionTrue ?S = condition_true" by simp
  note all = reconciled_policy_is_scheduled [where r = ref_reconciler and objs = ref_objs and contents = lc_contents
      and R = demo_R and c = "(2, [])" and p = ?p and k = "(''scan'', ''docker'')" and w = ?w and S = ?S
      and ?c1.0 = c1 and ?w1.0 = w1, unfolded e(1), OF m closed empty p R stored fin e(2) [symmetric] ready]
  then obtain q cs where q: "ref_objs w1 (''scan'', ''docker'') = Some q" "q = ?p\<lparr>pol_conditions := cs\<rparr>"
    "condition_true (pol_conditions q) ''Ready'' \<longleftrightarrow> (\<exists>cp. compile ref_cel q = Inr cp)"
    and g: "\<And>st a report. coherent ref_cel demo_R (lc_contents (st_cache st)) \<Longrightarrow>
          fst (policy_body ?S a report q st) =
            (case compile ref_cel q of Inl e \<Rightarrow> None | Inr cp \<Rightarrow> compiled_generates ?S a report q cp)"
    unfolding ready by blast
  obtain cp where c: "compile ref_cel q = Inr cp" "\<exists>g. compiled_generates ?S ''a1'' demo_report q cp = Some g"
    by (simp add: q(2) demo_stored_def ref_run compiled_generates_def within_limit_def ref_scheduler_def
        Matches_def demo_eval_defs Let_def)
  have "coherent ref_cel demo_R (lc_contents (st_cache (ref_state [])))" by (simp add: ref_state_def)
  from g [OF this, of "''a1''" demo_report] c q R show ?thesis by (auto simp: Let_def)
qed

subsection \<open>From the command line to the queue\<close>

lemma log_results:
  "Processed n rs e \<in> set log \<Longrightarrow> e \<in> set (results log)" "DeleteCall msg e \<in> set log \<Longrightarrow> e \<in> set (delete_results log)"
  by (force simp: results_def delete_results_def List.map_filter_def)+

text \<open>
  C11. A full cluster keeps the messages in the queue. Take the controller started with a positive
  \<^verbatim>\<open>--reject-report-pipeline-threshold\<close>, over a cluster that has that many active pipelines and in which others keep as many, whatever else they do. In every
  interleaving of listener, HTTP handlers, scheduler, reconciler and others, whatever the listener, every event is answered with an error
  that \<open>errors.Is\<close> recognises as \<open>ErrPipelineThreshold\<close>, no message is counted as processed, and \<open>DeleteMessage\<close>
  is never called.
\<close>

theorem full_cluster_keeps_messages:
  assumes "controller_main E (map eq_arg (flag_values F)) = Ran m code" "RunScheduler S \<in> set (cm_runnables m)"
    and "int64 (fg_rejectReportPipelineThreshold F)" "int64 (fg_schedulerMaxPipelinesPerPolicy F)" "fg_zap F = ce_zapOptions E"
    and "0 < fg_rejectReportPipelineThreshold F" "stays_full (ce_client E) (fg_rejectReportPipelineThreshold F) Q"
    and "reach (\<lambda>s. sys_init s \<and> Q (st_world (sy_state s))) (keep_exec L S R Q) s"
  shows "(\<forall>n rs e. Processed n rs e \<in> set (sy_log s) \<longrightarrow> (\<exists>err. e = Some err \<and> errors_is err ErrPipelineThreshold))
     \<and> (\<forall>msg e. DeleteCall msg e \<notin> set (sy_log s))
     \<and> sqsMessagesProcessedSuccess (sy_metrics s) = 0"
proof -
  have "run_controller E F = Ran m code"
    using assms(1) parse_flag_values [OF assms(3,4)] assms(5) by (simp add: controller_main_def)
  then have "S = the_scheduler E F"
    using assms(2) by (auto simp: run_controller_eq the_manager_def split: if_splits)
  then have "full_cluster S Q"
    using assms(6,7) by (intro full_cluster.intro) (simp_all add: the_scheduler_def)
  from full_cluster.reach_held [OF this assms(8)] have h: "held Q s" .
  then have "e \<notin> set (delete_results (sy_log s))" for e by (simp add: held_def)
  with h show ?thesis by (auto simp: held_def over_threshold_def dest!: log_results)
qed

definition full_flags :: "bool flags" where
  "full_flags = demo_flags\<lparr>fg_rejectReportPipelineThreshold := 1\<rparr>"

definition active_pipeline :: "unit pipeline" where
  "active_pipeline = (build_pipeline ''a0'' (demo_policy ''true'' None)
     \<lparr>pv_target = empty_target, pv_downloaderParams = [], pv_profileParams = []\<rparr>)\<lparr>pl_startTime := Some 3\<rparr>"

theorem full_cluster_keeps_messages_witness:
  "\<exists>s e. run_acts (exec ref_listener (ref_scheduler 1 20 [])) [APoll, ABatch, ASend, ASched, AAwait 0]
        ((demo_sys [demo_message ''report''])\<lparr>sy_state := ref_state [active_pipeline]\<rparr>) = Some s
     \<and> results (sy_log s) = [Some e] \<and> errors_is e ErrPipelineThreshold
     \<and> sqsMessagesProcessedSuccess (sy_metrics s) = 0 \<and> sqsMessagesProcessedFailure (sy_metrics s) = 1"
proof -
  let ?E = "demo_ctl True True (\<lambda>v. [])" and ?S = "ref_scheduler 1 20 []"
  let ?s0 = "(demo_sys [demo_message ''report''])\<lparr>sy_state := ref_state [active_pipeline]\<rparr>"
  let ?Q = "\<lambda>w. 1 \<le> int (length (active_in w))"
  have S: "the_scheduler ?E full_flags = ?S"
    by (simp add: the_scheduler_def the_compiler_def demo_ctl_def ref_scheduler_def full_flags_def demo_flags_def
        default_flags_def)
  have "run_controller ?E full_flags = Ran (the_manager ?E full_flags) 0"
    by (simp add: run_controller_eq demo_ctl_defs full_flags_def demo_flags_def default_flags_def)
  then have ran: "controller_main ?E (map eq_arg (flag_values full_flags)) = Ran (the_manager ?E full_flags) 0"
    using parse_flag_values [of full_flags] by (simp add: controller_main_def full_flags_def demo_flags_def
        default_flags_def int64_def demo_ctl_def)
  have runs: "RunScheduler ?S \<in> set (cm_runnables (the_manager ?E full_flags))"
    by (simp add: the_manager_def S)
  have full: "stays_full (ce_client ?E) (fg_rejectReportPipelineThreshold full_flags) ?Q"
    using ref_client_full [of "[]" 1] by (simp add: demo_ctl_def full_flags_def)
  have ints: "int64 (fg_rejectReportPipelineThreshold full_flags)" "int64 (fg_schedulerMaxPipelinesPerPolicy full_flags)"
    "fg_zap full_flags = ce_zapOptions ?E" "0 < fg_rejectReportPipelineThreshold full_flags"
    by (simp_all add: full_flags_def demo_flags_def default_flags_def int64_def demo_ctl_def)
  have init: "sys_init ?s0 \<and> ?Q (st_world (sy_state ?s0))"
    by (simp add: sys_init_def demo_sys_def ref_state_def active_in_def active_pipeline_def build_pipeline_def Let_def
        isPipelineActiveIndexer_def)
  have "\<exists>s e rs. run_acts (exec ref_listener ?S) [APoll, ABatch, ASend, ASched, AAwait 0] ?s0 = Some s
      \<and> results (sy_log s) = [e] \<and> Processed 0 rs e \<in> set (sy_log s)
      \<and> sqsMessagesProcessedFailure (sy_metrics s) = 1"
    by (simp add: demo_run countActivePipelines_def active_pipeline_def build_pipeline_def isPipelineActiveIndexer_def
        results_def map_filter_simps)
  then obtain s e rs where s: "run_acts (exec ref_listener ?S) [APoll, ABatch, ASend, ASched, AAwait 0] ?s0 = Some s"
    "results (sy_log s) = [e]" "Processed 0 rs e \<in> set (sy_log s)" "sqsMessagesProcessedFailure (sy_metrics s) = 1"
    by blast
  have "reach (\<lambda>s. sys_init s \<and> ?Q (st_world (sy_state s))) (keep_exec ref_listener ?S {} ?Q) s"
  proof (rule run_acts_reach)
    show "reach (\<lambda>s. sys_init s \<and> ?Q (st_world (sy_state s))) (keep_exec ref_listener ?S {} ?Q) ?s0"
      by (rule reach.start) (rule init)
    show "run_acts (keep_exec ref_listener ?S {} ?Q) (map Own [APoll, ABatch, ASend, ASched, AAwait 0]) ?s0 = Some s"
      by (simp only: keep_own_run s(1))
  qed
  note c = full_cluster_keeps_messages [OF ran runs ints full this]
  from conjunct1 [OF c] s(3) obtain err where "e = Some err" "errors_is err ErrPipelineThreshold" by blast
  moreover have "sqsMessagesProcessedSuccess (sy_metrics s) = 0" using c by (elim conjE)
  ultimately show ?thesis using s(1,2,4) by (intro exI [of _ s] exI [of _ err] conjI) simp_all
qed

end
