(* ===== verification/Test_Utils.thy ===== *)
theory Test_Utils
  imports Go_Path
begin

section \<open>The helpers of the end-to-end tests\<close>

text \<open>
  \<^verbatim>\<open>test/utils/utils.go\<close>: commands run in the project's directory, the certificate manager's installation, the image for the
  kind cluster, and \<open>UncommentCode\<close>. The operating system is a record of its calls on an external world; strings are
  bytes; what is written to ginkgo's output is left out.
\<close>

subsection \<open>Strings\<close>

abbreviation newline_char :: char where
  "newline_char \<equiv> CHR 0x0A"

text \<open>\<open>strings.Index\<close>, \<open>strings.Contains\<close>, \<open>strings.TrimPrefix\<close>, and \<open>strings.ReplaceAll\<close> by the empty string.\<close>

fun Index :: "string \<Rightarrow> string \<Rightarrow> nat option" where
  "Index [] t = (if t = [] then Some 0 else None)"
| "Index (c # s) t = (if HasPrefix (c # s) t then Some 0 else map_option Suc (Index s t))"

definition Contains :: "string \<Rightarrow> string \<Rightarrow> bool" where
  "Contains s t \<longleftrightarrow> Index s t \<noteq> None"

definition TrimPrefix :: "string \<Rightarrow> string \<Rightarrow> string" where
  "TrimPrefix s p = (if HasPrefix s p then drop (length p) s else s)"

fun remove_all :: "string \<Rightarrow> string \<Rightarrow> string" where
  "remove_all old [] = []"
| "remove_all old (c # s) =
     (if old \<noteq> [] \<and> HasPrefix (c # s) old then remove_all old (drop (length old - 1) s) else c # remove_all old s)"

text \<open>\<open>strings.TrimSpace\<close> takes off the characters of \<open>unicode.IsSpace\<close>, here in UTF-8.\<close>

definition spaces :: "string list" where
  "spaces = map (\<lambda>n::nat. [char_of n]) [9, 10, 11, 12, 13, 32]
     @ [[CHR 0xC2, CHR 0x85], [CHR 0xC2, CHR 0xA0], [CHR 0xE1, CHR 0x9A, CHR 0x80]]
     @ map (\<lambda>n::nat. [CHR 0xE2, CHR 0x80, char_of n]) ([0x80..<0x8B] @ [0xA8, 0xA9, 0xAF])
     @ [[CHR 0xE2, CHR 0x81, CHR 0x9F], [CHR 0xE3, CHR 0x80, CHR 0x80]]"

fun trim_front :: "string list \<Rightarrow> string \<Rightarrow> string" where
  "trim_front ws [] = []"
| "trim_front ws (c # s) =
     (case find (\<lambda>w. w \<noteq> [] \<and> HasPrefix (c # s) w) ws of
        None \<Rightarrow> c # s
      | Some w \<Rightarrow> trim_front ws (drop (length w - 1) s))"

definition TrimSpace :: "string \<Rightarrow> string" where
  "TrimSpace s = rev (trim_front (map rev spaces) (rev (trim_front spaces s)))"

subsection \<open>Lines of a scanner\<close>

text \<open>
  \<open>bufio.Scanner\<close> with \<open>ScanLines\<close>: a carriage return before the newline goes with it, an empty rest after the last newline is no
  line, and the scan ends, with an error that the code does not ask for, at a line that does not fit the buffer of 64 KiB.
\<close>

definition strip_cr :: "string \<Rightarrow> string" where
  "strip_cr l = (if l \<noteq> [] \<and> last l = CHR 0x0D then butlast l else l)"

definition scan_lines :: "string \<Rightarrow> string list" where
  "scan_lines s =
     (let ls = split_on newline_char s
      in map strip_cr (takeWhile (\<lambda>l. length l < 65536) (if last ls = [] then butlast ls else ls)))"

subsection \<open>The operating system\<close>

record command =
  cmd_Args :: "string list"
  cmd_Dir :: string
  cmd_Env :: "string list"

text \<open>\<open>os_quote\<close> is \<open>%q\<close>; \<open>os_Output\<close> runs a command with its standard output in a buffer.\<close>

record 'w host =
  os_Getwd :: "'w \<Rightarrow> string \<times> goerr option"
  os_Chdir :: "string \<Rightarrow> 'w \<Rightarrow> goerr option \<times> 'w"
  os_Environ :: "'w \<Rightarrow> string list"
  os_LookupEnv :: "string \<Rightarrow> 'w \<Rightarrow> string option"
  os_CombinedOutput :: "command \<Rightarrow> 'w \<Rightarrow> (string \<times> goerr option) \<times> 'w"
  os_Output :: "command \<Rightarrow> 'w \<Rightarrow> (string \<times> goerr option) \<times> 'w"
  os_ReadFile :: "string \<Rightarrow> 'w \<Rightarrow> string res"
  os_WriteFile :: "string \<Rightarrow> string \<Rightarrow> 'w \<Rightarrow> goerr option \<times> 'w"
  os_quote :: "string \<Rightarrow> string"

definition Command :: "string list \<Rightarrow> command" where
  "Command args = \<lparr>cmd_Args = args, cmd_Dir = '''', cmd_Env = []\<rparr>"

definition GetProjectDir :: "'w host \<Rightarrow> 'w \<Rightarrow> string \<times> goerr option" where
  "GetProjectDir H w =
     (case os_Getwd H w of
        (wd, Some err) \<Rightarrow> (wd, Some (ErrWrap ''failed to get current working directory: '' err ''''))
      | (wd, None) \<Rightarrow> (remove_all ''/test/e2e'' wd, None))"

definition Run :: "'w host \<Rightarrow> command \<Rightarrow> 'w \<Rightarrow> (string \<times> goerr option) \<times> 'w" where
  "Run H cmd w =
     (let dir = fst (GetProjectDir H w);
          w1 = snd (os_Chdir H dir w);
          cmd' = cmd\<lparr>cmd_Dir := dir, cmd_Env := os_Environ H w1 @ [''GO111MODULE=on'']\<rparr>;
          (res, w2) = os_CombinedOutput H cmd' w1
      in case res of
           (output, Some err) \<Rightarrow>
             ((output, Some (ErrWrap (os_quote H (join_with CHR '' '' (cmd_Args cmd)) @ '' failed with error ''
                @ os_quote H output @ '': '') err '''')), w2)
         | (output, None) \<Rightarrow> ((output, None), w2))"

subsection \<open>The certificate manager\<close>

definition certmanagerURL :: string where
  "certmanagerURL = ''https://github.com/cert-manager/cert-manager/releases/download/v1.19.2/cert-manager.yaml''"

definition uninstall_commands :: "command list" where
  "uninstall_commands =
     Command [''kubectl'', ''delete'', ''-f'', certmanagerURL]
     # map (\<lambda>lease. Command [''kubectl'', ''delete'', ''lease'', lease, ''-n'', ''kube-system'', ''--ignore-not-found'', ''--force'', ''--grace-period=0''])
         [''cert-manager-cainjector-leader-election'', ''cert-manager-controller'']"

definition UninstallCertManager :: "'w host \<Rightarrow> 'w \<Rightarrow> 'w" where
  "UninstallCertManager H w = fold (\<lambda>cmd w. snd (Run H cmd w)) uninstall_commands w"

definition InstallCertManager :: "'w host \<Rightarrow> 'w \<Rightarrow> goerr option \<times> 'w" where
  "InstallCertManager H w =
     (case Run H (Command [''kubectl'', ''apply'', ''-f'', certmanagerURL]) w of
        ((_, Some err), w1) \<Rightarrow> (Some err, w1)
      | ((_, None), w1) \<Rightarrow>
          (let ((_, err), w2) = Run H (Command [''kubectl'', ''wait'', ''deployment.apps/cert-manager-webhook'', ''--for'',
                 ''condition=Available'', ''--namespace'', ''cert-manager'', ''--timeout'', ''5m'']) w1
           in (err, w2)))"

definition GetNonEmptyLines :: "string \<Rightarrow> string list" where
  "GetNonEmptyLines output = filter (\<lambda>element. element \<noteq> []) (split_on newline_char output)"

definition certManagerCRDs :: "string list" where
  "certManagerCRDs = [''certificates.cert-manager.io'', ''issuers.cert-manager.io'', ''clusterissuers.cert-manager.io'',
     ''certificaterequests.cert-manager.io'', ''orders.acme.cert-manager.io'', ''challenges.acme.cert-manager.io'']"

definition IsCertManagerCRDsInstalled :: "'w host \<Rightarrow> 'w \<Rightarrow> bool \<times> 'w" where
  "IsCertManagerCRDsInstalled H w =
     (case Run H (Command [''kubectl'', ''get'', ''crds'']) w of
        ((output, Some err), w1) \<Rightarrow> (False, w1)
      | ((output, None), w1) \<Rightarrow>
          (let crdList = GetNonEmptyLines output in (\<exists>crd \<in> set certManagerCRDs. \<exists>line \<in> set crdList. Contains line crd, w1)))"

definition LoadImageToKindClusterWithName :: "'w host \<Rightarrow> string \<Rightarrow> 'w \<Rightarrow> goerr option \<times> 'w" where
  "LoadImageToKindClusterWithName H name w =
     (let cluster = (case os_LookupEnv H ''KIND_CLUSTER'' w of None \<Rightarrow> ''kind'' | Some v \<Rightarrow> v);
          kindBinary = (case os_LookupEnv H ''KIND'' w of None \<Rightarrow> ''kind'' | Some v \<Rightarrow> v);
          ((_, err), w1) = Run H (Command [kindBinary, ''load'', ''docker-image'', name, ''--name'', cluster]) w
      in (err, w1))"

definition GetModuleRoot :: "'w host \<Rightarrow> string \<Rightarrow> 'w \<Rightarrow> string res \<times> 'w" where
  "GetModuleRoot H moduleName w =
     (case os_Output H (Command [''go'', ''list'', ''-m'', ''-f'', ''{{.Dir}}'', moduleName]) w of
        ((out, Some err), w1) \<Rightarrow> (Inl err, w1)
      | ((out, None), w1) \<Rightarrow> (Inr (TrimSpace out), w1))"

subsection \<open>Uncommenting\<close>

definition uncommented :: "string \<Rightarrow> string \<Rightarrow> string" where
  "uncommented target pre = join_with newline_char (map (\<lambda>l. TrimPrefix l pre) (scan_lines target))"

definition UncommentCode :: "'w host \<Rightarrow> string \<Rightarrow> string \<Rightarrow> string \<Rightarrow> 'w \<Rightarrow> goerr option \<times> 'w" where
  "UncommentCode H filename target pre w =
     (case os_ReadFile H filename w of
        Inl err \<Rightarrow> (Some (ErrWrap (''failed to read file '' @ os_quote H filename @ '': '') err ''''), w)
      | Inr content \<Rightarrow>
          (case Index content target of
             None \<Rightarrow> (Some (ErrMsg (''unable to find the code '' @ os_quote H target @ '' to be uncomment'')), w)
           | Some idx \<Rightarrow>
               if scan_lines target = [] then (None, w)
               else
                 (case os_WriteFile H filename
                    (take idx content @ uncommented target pre @ drop (idx + length target) content) w of
                    (Some err, w1) \<Rightarrow> (Some (ErrWrap (''failed to write file '' @ os_quote H filename @ '': '') err ''''), w1)
                  | (None, w1) \<Rightarrow> (None, w1))))"

subsection \<open>What is found and what is written\<close>

lemma Index_Some:
  "Index s t = Some i \<Longrightarrow> take i s @ t @ drop (i + length t) s = s"
proof (induction s t arbitrary: i rule: Index.induct)
  case (2 c s t)
  show ?case
  proof (cases "HasPrefix (c # s) t")
    case True
    with "2.prems" have "i = 0" by simp
    with True show ?thesis by (metis HasPrefix_def add_0 append_Nil append_take_drop_id take_0)
  next
    case False
    with 2 show ?thesis by auto
  qed
qed (simp split: if_splits)

text \<open>It is the first place.\<close>

lemma Index_first: "Index s t = Some i \<Longrightarrow> j < i \<Longrightarrow> \<not> HasPrefix (drop j s) t"
proof (induction s t arbitrary: i j rule: Index.induct)
  case (2 c s t)
  then show ?case by (cases j) (auto split: if_splits)
qed (simp split: if_splits)

lemma Index_here: "Index (t @ v) t = Some 0"
proof (cases "t @ v")
  case (Cons c s)
  then have "HasPrefix (c # s) t" by (metis HasPrefix_prefix prefixI)
  with Cons show ?thesis by simp
qed simp

lemma Contains_iff: "Contains s t \<longleftrightarrow> sublist t s"
proof
  show "Contains s t \<Longrightarrow> sublist t s"
    unfolding Contains_def by (metis Index_Some not_None_eq sublist_appendI)
  have "Index (u @ t @ v) t \<noteq> None" for u v
    by (induction u) (simp_all add: Index_here)
  then show "sublist t s \<Longrightarrow> Contains s t" by (auto simp: Contains_def sublist_def)
qed

lemma GetNonEmptyLines_join:
  "\<forall>l \<in> set ls. newline_char \<notin> set l \<Longrightarrow> GetNonEmptyLines (join_with newline_char ls) = filter (\<lambda>l. l \<noteq> []) ls"
  by (cases "ls = []") (simp_all add: GetNonEmptyLines_def split_join)

text \<open>A text whose lines the scanner gives back as they are.\<close>

definition plain_text :: "string \<Rightarrow> bool" where
  "plain_text t \<longleftrightarrow> last (split_on newline_char t) \<noteq> []
     \<and> (\<forall>l \<in> set (split_on newline_char t). length l < 65536 \<and> strip_cr l = l)"

lemma scan_plain: "plain_text t \<Longrightarrow> scan_lines t = split_on newline_char t"
  by (simp add: scan_lines_def plain_text_def Let_def takeWhile_eq_all_conv [THEN iffD2] map_idI)

lemma TrimPrefix_chars: "set (TrimPrefix l p) \<subseteq> set l"
  by (auto simp: TrimPrefix_def dest: in_set_dropD)

theorem uncomment_plain:
  assumes "os_ReadFile H f w = Inr content" "Index content t = Some i" "plain_text t"
  shows "\<exists>new. fst (UncommentCode H f t p w) = map_option (\<lambda>err. ErrWrap (''failed to write file '' @ os_quote H f @ '': '') err '''')
           (fst (os_WriteFile H f (take i content @ new @ drop (i + length t) content) w))
     \<and> snd (UncommentCode H f t p w) = snd (os_WriteFile H f (take i content @ new @ drop (i + length t) content) w)
     \<and> content = take i content @ t @ drop (i + length t) content
     \<and> split_on newline_char new = map (\<lambda>l. TrimPrefix l p) (split_on newline_char t)"
proof -
  have "newline_char \<notin> set (TrimPrefix l p)" if "l \<in> set (split_on newline_char t)" for l
    using split_on_parts [OF that] TrimPrefix_chars by blast
  then have "split_on newline_char (uncommented t p) = map (\<lambda>l. TrimPrefix l p) (split_on newline_char t)"
    unfolding uncommented_def scan_plain [OF assms(3)] by (intro split_join) auto
  with assms Index_Some [OF assms(2)] show ?thesis
    by (intro exI [of _ "uncommented t p"]) (auto simp: UncommentCode_def scan_plain split: prod.split option.split)
qed

text \<open>A newline at the end of the target is lost, and with a line that does not fit the buffer so is the rest of the target.\<close>

lemma uncomment_loses_newline: "plain_text t \<Longrightarrow> uncommented (t @ [newline_char]) p = uncommented t p"
proof -
  assume t: "plain_text t"
  have "split_on newline_char (t @ [newline_char]) = split_on newline_char t @ [[]]"
    using split_on_append [of newline_char t "[]"] by simp
  with t have "scan_lines (t @ [newline_char]) = scan_lines t"
    by (simp add: scan_lines_def plain_text_def Let_def)
  then show ?thesis by (simp add: uncommented_def)
qed

lemma uncomment_loses_long_lines:
  assumes "plain_text t" "newline_char \<notin> set l" "65536 \<le> length l"
  shows "uncommented (t @ newline_char # l @ newline_char # rest) p = uncommented t p"
proof -
  let ?s = "t @ newline_char # l @ newline_char # rest"
  have s: "split_on newline_char ?s = split_on newline_char t @ l # split_on newline_char rest"
    using assms(2) by (simp add: split_on_append split_on_free)
  have "scan_lines ?s = scan_lines t"
    using assms(1,3) unfolding scan_lines_def plain_text_def s
    by (simp add: Let_def butlast_append takeWhile_append takeWhile_eq_all_conv [THEN iffD2])
  then show ?thesis by (simp add: uncommented_def)
qed

definition demo_host :: "(string \<rightharpoonup> string) host" where
  "demo_host = \<lparr>os_Getwd = (\<lambda>w. (''/src/test/e2e'', None)), os_Chdir = (\<lambda>d w. (None, w)), os_Environ = (\<lambda>w. []),
     os_LookupEnv = (\<lambda>n w. None), os_CombinedOutput = (\<lambda>c w. (('''', None), w)), os_Output = (\<lambda>c w. (('''', None), w)),
     os_ReadFile = (\<lambda>f w. case w f of None \<Rightarrow> Inl (ErrMsg ''no such file'') | Some c \<Rightarrow> Inr c),
     os_WriteFile = (\<lambda>f c w. (None, w(f \<mapsto> c))), os_quote = (\<lambda>s. s)\<rparr>"

lemma uncomment_demo:
  "snd (UncommentCode demo_host ''kustomization.yaml'' (''#a'' @ newline_char # ''#b'') ''#''
      [''kustomization.yaml'' \<mapsto> ''x'' @ newline_char # ''#a'' @ newline_char # ''#b'' @ newline_char # ''y''])
     = [''kustomization.yaml'' \<mapsto> ''x'' @ newline_char # ''a'' @ newline_char # ''b'' @ newline_char # ''y'']"
  "snd (UncommentCode demo_host ''kustomization.yaml'' (''#a'' @ [newline_char]) ''#''
      [''kustomization.yaml'' \<mapsto> ''#a'' @ newline_char # ''y'']) = [''kustomization.yaml'' \<mapsto> ''ay'']"
  by (simp_all add: UncommentCode_def demo_host_def HasPrefix_def scan_lines_def uncommented_def TrimPrefix_def strip_cr_def)

lemma host_demo: "fst (GetProjectDir demo_host w) = ''/src''"
  by (simp add: GetProjectDir_def demo_host_def HasPrefix_def)

lemma trim_demo: "TrimSpace '' /go/mod '' = ''/go/mod''"
  by code_simp

end
