(* ===== verification/Spec2Isabelle.thy ===== *)
theory Spec2Isabelle
  imports Composition Test_Utils
begin

text \<open>
  \<^bold>\<open>Chalkular: a verification development.\<close>

  Chalkular is a Kubernetes controller written in Go. It receives chalk reports, evaluates every
  \<open>ChalkReportPolicy\<close> of the cluster on them (CEL expressions compiled and cached per policy) and creates the
  Ocular pipelines the policies ask for. This development models the program from its Go sources and proves
  what makes its parts correct, alone and together.

  \<^bold>\<open>The parts and how they interact.\<close> A report comes in two ways: the queue listener receives SQS messages and
  has a parser make reports of each (the body itself, or the S3 objects that an event names); the HTTP server
  takes reports in a request, after authentication and authorization. Both put an event on the \<open>EventBus\<close>, an
  unbuffered channel that the scheduler reads. The scheduler rejects an event when too many pipelines are
  active; otherwise it generates, for each report and each Ready policy, the pipelines of the policy (the
  compiler gives the compiled policy from its cache, the evaluator runs it), rejects the event when a report has no
  action id, and else asks the Kubernetes API for each of them; a creation that is refused is recorded on its policy and is no
  error of the event. The event's result goes back on its own channel: the
  listener deletes the message only when it is nil, the HTTP handler drops it. The policy controller keeps the
  \<open>Ready\<close> condition of each policy and shares the compiler with the scheduler; webhooks set the defaults and
  validate policies on admission. The controller program reads flags and the environment and wires all this
  into one manager. Beside it there are two programs that run inside pipelines: the downloader (the layers of an
  image, or its build context out of an image of tar streams, onto the file system) and the uploader (the
  results of a scan to S3, and a message for ingestion); and a plugin of kubebuilder that patches the generated
  Helm chart, whose arguments are the flags of the controller.

  \<^bold>\<open>Theories and sources.\<close> Every definition keeps the name of the function it translates. A sum is Go's
  \<open>(value, error)\<close>, \<open>Inl\<close> the error; state is passed and returned; calls into a library are a record of
  functions on an external world \<open>'w\<close>, an argument of the model.

    \<^item> \<open>Prelude\<close>: errors (\<open>goerr\<close>, with wrapping), results, panics, decimal rendering, the loop shapes and the
      lemmas the components share. \<open>Transitions\<close>: reachability, and the locales of invariants, of draining and of systems in lockstep.
    \<^item> \<open>Api_Types\<close>: \<^verbatim>\<open>api/v1beta1/chalkreportpolicy_types.go\<close>, \<^verbatim>\<open>api/v1beta1/chalk/report.go\<close>.
    \<^item> \<open>Policy_Compiler\<close>: \<^verbatim>\<open>internal/policy/compiler.go\<close> (\<open>compile\<close>, \<open>Get\<close>, \<open>Remove\<close>, \<open>NewCompiler\<close>). The state is
      the cache. \<open>Compiler_Threads\<close>: the same file statement by statement, goroutines with program counters over the
      mutex and the cache. \<open>Policy_Eval\<close>: \<^verbatim>\<open>internal/policy/policy.go\<close> (\<open>Matches\<close>, \<open>Extract\<close> and the evaluators).
    \<^item> \<open>Scheduler\<close>: \<^verbatim>\<open>internal/reports/pipelines.go\<close> and \<^verbatim>\<open>internal/reports/scheduler.go\<close>. The state is the cache, the
      cluster, the metrics and the events recorded.
    \<^item> \<open>Webhook\<close>: \<^verbatim>\<open>internal/webhook/v1beta1/chalkreportpolicy_webhook.go\<close>.
    \<^item> \<open>Reconciler\<close>: \<^verbatim>\<open>internal/controller/chalkreportpolicy_controller.go\<close>. The state is the cache and the stored
      policies. \<open>Reconcile_Steps\<close>: the same call by call (\<open>worker_step\<close>), as its goroutine runs between the others.
    \<^item> \<open>Go_Json\<close>, \<open>Go_Path\<close>, \<open>Go_Flag\<close>: what the sources use of Go's own \<^verbatim>\<open>encoding/json\<close> and \<^verbatim>\<open>net/url\<close>, \<^verbatim>\<open>strings\<close>,
      \<^verbatim>\<open>path\<close> and \<^verbatim>\<open>path/filepath\<close>, \<^verbatim>\<open>flag\<close> and \<^verbatim>\<open>strconv\<close>.
    \<^item> \<open>Sqs_Parsers\<close>: \<^verbatim>\<open>api/v1beta1/sqs/s3.go\<close>, \<^verbatim>\<open>internal/reports/sqs/parsers.go\<close>.
    \<^item> \<open>Sqs_Listener\<close>: \<^verbatim>\<open>internal/reports/client.go\<close>, \<^verbatim>\<open>internal/reports/sqs/listener.go\<close> and the scheduler's loop, as
      one transition system: a goroutine is a value of a datatype, each blocking operation a step of
      \<open>exec\<close>, all interleavings allowed.
    \<^item> \<open>Http_Server\<close>: \<^verbatim>\<open>internal/reports/httpserver\<close>, \<^verbatim>\<open>api/v1beta1/httpserver/api.go\<close>. The state is gin's context, the
      authenticator's and the events put on the bus. \<open>Server_Start\<close>: the life of its \<open>Start\<close>, as a transition system.
    \<^item> \<open>Aws_Config\<close>, \<open>Downloader\<close>, \<open>Uploader\<close>: \<^verbatim>\<open>internal/utils/aws.go\<close>, \<^verbatim>\<open>internal/downloaders\<close> with
      \<^verbatim>\<open>cmd/downloader/main.go\<close>, and \<^verbatim>\<open>cmd/uploader/main.go\<close> with \<^verbatim>\<open>api/v1beta1/ingest/results.go\<close>.
    \<^item> \<open>Controller_Main\<close>: \<^verbatim>\<open>cmd/controller/main.go\<close>. \<open>Helm_Patch\<close>: \<^verbatim>\<open>hack/kubebuilder-helm-patch\<close>; \<open>Chart_Flags\<close>: the flags that
      a patched chart passes to the controller. \<open>Test_Utils\<close>: \<^verbatim>\<open>test/utils/utils.go\<close>, the helpers of the end-to-end tests.
    \<^item> \<open>Deep_Copy\<close>: \<^verbatim>\<open>api/v1beta1/zz_generated.deepcopy.go\<close>, over an explicit store of cells in which pointers and slices
      share. \<open>Clientset\<close>: \<^verbatim>\<open>pkg/generated/clientset\<close> and \<^verbatim>\<open>api/v1beta1/groupversion_info.go\<close>. \<open>Scheme_Setup\<close>: the \<open>init\<close>
      functions of its \<^verbatim>\<open>scheme/register.go\<close> and \<^verbatim>\<open>fake/register.go\<close> and of \<^verbatim>\<open>cmd/controller/main.go\<close>. \<open>Fake_Clientset\<close>:
      \<^verbatim>\<open>fake/clientset_generated.go\<close> and \<^verbatim>\<open>typed/api/v1beta1/fake\<close>, over a store of \<open>testing.Fake\<close> values.
    \<^item> \<open>Event_Order\<close>, \<open>Cluster_History\<close>, \<open>Open_System\<close> (the process with the reconciler, the cluster and the queue changing
      between its steps), \<open>Open_Listener\<close> (listener and bus in it), \<open>Threshold\<close> (the threshold over whole runs), \<open>Intake\<close> (the process with its HTTP server),
      \<open>Cache_Transparency\<close> (the process without its cache), \<open>Program\<close> (the whole program: \<open>Intake\<close> with the controller's worker, and
      the same without a cache), \<open>Report_Types\<close>, \<open>Composition\<close>: properties over several of these.

  \<^bold>\<open>Interfaces.\<close> What a component relies on in another is a locale, proved once and interpreted on the model's
  own definitions. \<open>lru_cache\<close> is the contract of the LRU library; with it \<open>compiler_model\<close> proves the compiler to be
  a \<open>policy_source\<close> (a \<open>sublocale\<close>): it answers what compiling would, and keeps its cache coherent.
  \<open>scheduler_model\<close> and \<open>reconciler_model\<close> rest on that contract alone. \<open>object_utils\<close> and \<open>object_store\<close> are the
  API server and its helpers as the reconciler sees them; \<open>multierror\<close> and \<open>multierror_acc\<close> the accumulator of errors;
  \<open>report_parser\<close> what the listener expects of a parser, interpreted for both; \<open>gin_engine\<close> the router;
  \<open>file_system\<close> the operating system, with \<open>confined\<close> (an operation leaves the files outside a set of paths alone)
  as a \<open>sublocale\<close>. \<open>inductive_invariant\<close> and \<open>draining\<close> turn a preserved predicate and a measure into facts on
  every reachable state, and are interpreted for the listener as \<open>safe\<close>, \<open>counts\<close>, \<open>order\<close> and \<open>flow\<close>, for the
  compiler's goroutines as \<open>mutex\<close>, \<open>phases\<close>, \<open>finishing\<close> and, under \<open>steady_lru\<close> (two more laws of the LRU library),
  \<open>lin\<close>. \<open>serving_system\<close> is \<open>scheduler_model\<close> over a client that lists policies which the API server serves. \<open>schemes\<close> is what a scheme and
  its builder promise, \<open>private_invariant\<close> an invariant that does not look at what the environment changes (\<open>open_safe\<close>, \<open>open_counts\<close>, \<open>open_live\<close>,
  \<open>open_leak\<close>), \<open>intake\<close> the open system with the HTTP server, \<open>whole_program\<close> that with the controller's worker (invariant \<open>soundness\<close>, lockstep \<open>uncached_prog\<close>), \<open>open_system\<close> the
  whole process over such a client, with the reconciler and the environment, in \<open>lockstep\<close> with the process without a cache (a \<open>sublocale\<close>), \<open>fake_chains\<close> what client-go's \<open>testing.Fake\<close> does.
  \<open>deep_copier\<close> is what a deep copy owes; it is closed under pairs, parts of a struct, pointers and slices
  (\<open>two_copiers\<close>, \<open>part_copier\<close>, \<open>ptr_copier\<close>, \<open>slice_copier\<close>, each a \<open>sublocale\<close>), and \<open>copy_library\<close> gives the generated
  functions as further instances when those of the other packages are.

  \<^bold>\<open>What the lemmas show.\<close>
    \<^item> Compiler under concurrent calls: it is linearizable, with the unlocked \<open>Clear\<close>; every answer is what compiling
      gives; no call waits for ever.
    \<^item> Compiler and reconciler: the cache is transparent (no stale policy is returned, for resources whose generation
      determines their specification); \<open>Ready\<close> is set exactly when a policy compiles, reconciling converges, a deleted policy is
      forgotten; what the reconciler marks Ready the scheduler uses.
    \<^item> Evaluation and scheduling: extraction is pointwise over \<open>forEach\<close>, fails with the first error of an expression, takes Go's
      order of maps as an argument; \<open>createPipelines\<close> refines a specification without state; a generated pipeline is its policy's template
      but for what the report adds; an event is rejected as a whole before anything is created, or each planned pipeline is asked for once and
      each refusal recorded; the limit per policy bounds what an event creates, and the threshold holds.
    \<^item> Bus, listener, server: a message is deleted only after its event succeeded; the counters account for every message;
      the process drains; over a full cluster, as the command line sets the threshold, no message is deleted
      (\<open>full_cluster\<close>), and pipelines that were not started do not count (\<open>lazy_cluster\<close>); seen from the scheduler every interleaving is a sequential run over the events, and the cluster
      is what the specification of an event (\<open>event_spec\<close>: no cache, no recorded event, no metric) makes of it, one after the
      other; in the open system a deleted message's pipelines were asked for before, and each refusal recorded; each step of the scheduler still does
      what the specification says on the cluster of that moment, and the cache cannot be noticed in any run; whatever the
      whole program does to the cluster, it does for a message of the queue, for a request that was authorized, or to keep the finalizer
      and the condition of a policy; to the rest of it the controller's worker is a part of the environment; enqueueing hangs once the scheduler has stopped.
    \<^item> Parsers and types: the result on every branch, round trips of keys and arguments, and what the dynamic types of
      decoded JSON are and which action ids the scheduler accepts of them.
    \<^item> Programs: flags round trip through the command line into the options that the components start with; the
      downloader stays inside its directory for clean names and can leave it for others; the uploader asks for ingestion
      only after every upload, in one request with a line for each file; a deep copy of a resource has its value and shares no cell with it; the clients of a
      clientset share one HTTP client and one rate limiter, its double serves the objects it was given and stands for the
      same resource, and the schemes are complete before \<open>main\<close>; the patch does not depend on the order of Go's maps, and the patched
      chart passes the flags it passed before and nine more, which the controller declares.

  \<^bold>\<open>Bounds.\<close> No definition uses fuel: loops run over lists, decoding over syntax trees, and the remaining
  recursions (splitting strings, replacing) terminate by the length of what is left. The listener's endless loop is the step
  relation. \<open>strconv.ParseInt\<close> keeps its 64-bit range; counters of reports and pipelines are lengths of lists, which a Go
  \<open>int\<close> holds, and are compared as the code does. The scheduler processes an event as one step (the controller's worker takes one for each call); what others do to
  the cluster between its calls is part of the client, which is any function of the calls (\<open>amid\<close> is one that lets them act
  before each call). Retry intervals are nanoseconds as \<open>int\<close>.

  \<^bold>\<open>Not modelled.\<close> Of libraries only what the code relies on is stated, as the laws above: the CEL compiler and
  interpreter, the Kubernetes API server and controller-runtime, AWS, gin, the image registry, \<^verbatim>\<open>text/template\<close>, and the lexical
  level of JSON, which is modelled from the syntax tree on. Of \<open>Regexp.Expand\<close> the two forms that the patches use,
  \<^verbatim>\<open>$$\<close> and \<^verbatim>\<open>${1}\<close>, are. The laws of \<open>file_system\<close> are those of a file system without links: writing to a path changes no other
  path. The real \<^verbatim>\<open>os.OpenFile\<close> of \<^verbatim>\<open>buildcontext.go\<close> follows symbolic links, and hard links share their content; so where the output
  directory has links already, what stays inside it is the paths that are written, not the files they may lead to (the extraction itself makes
  directories and regular files only). The flags that zap and controller-runtime (\<^verbatim>\<open>--kubeconfig\<close>) add are
  parameters. The function that \<open>NewScheduler\<close> registers with the field indexer is related to the count of pipelines by the hypotheses on the
  client, not by a model of the informer cache. Logging, durations of metrics and the passing of time have no effect on the
  modelled state.
\<close>

end
